(* ===== verification/Prelude.thy ===== *)
theory Prelude
  imports Main "HOL-Library.Word"
begin

text \<open>
  Shared vocabulary of the development: the Go runtime notions the components use
  (errors with identity and wrapping, signed 64-bit arithmetic, number formatting and
  parsing of \<open>strconv\<close>), the generic lemmas on lists and maps, and the collections
  of facts the component proofs rewrite with.
\<close>

named_theorems go_defs "definitions of small Go helpers, unfolded by the component proofs"
named_theorems frame "fields an operation leaves unchanged"

text \<open>
  A Go string is a sequence of bytes, and so is a HOL string: \<open>char\<close> has exactly the
  256 byte values. The conversions \<open>[]byte(s)\<close> and \<open>string(b)\<close> are identities.
\<close>

type_synonym bytes = "char list"
type_synonym u16 = "16 word"
type_synonym u32 = "32 word"
type_synonym u64 = "64 word"

section \<open>Errors\<close>

text \<open>
  The package-level error values of the repository (and of the Go library where the code
  compares with them). Go compares errors by identity, so each is a constructor of its own.
\<close>

datatype sentinel =
    ErrChrootViolation | ErrFileOwnerMismatch | ErrFileGroupMismatch
  | ErrFollowLinksForbidden | ErrForbiddenToOverwriteFile | ErrFileTooBig
  | ErrSuidModeForbidden | ErrTxBytesLimitExhausted | ErrOnlyRegularFilesAllowed
  | ErrUnsupported
  | ErrFileTransferAbort | ErrEOF
  | ErrSessionShellAlreadyRunning | ErrSessionShellNotRunning
  | ErrSessionShellTooManySessionsPerUser | ErrSessionNotFound
  | ErrSessionTooManyShellsAlreadyRunning
  | ErrPortForwardInvalidMessage | ErrPortForwardUnknownMessageType
  | ErrPortForwardUnknownConnection
  | ErrHandlerNotRegistered | ErrHandlerAlreadyRegistered
  | ErrContextCanceled | ErrExecWriteBytesShort

fun sentinel_msg :: "sentinel \<Rightarrow> string" where
  "sentinel_msg ErrChrootViolation = ''the target file path is outside chroot''"
| "sentinel_msg ErrFileOwnerMismatch = ''the file owner does not match''"
| "sentinel_msg ErrFileGroupMismatch = ''the file group does not match''"
| "sentinel_msg ErrFollowLinksForbidden = ''forbidden to follow the link''"
| "sentinel_msg ErrForbiddenToOverwriteFile = ''forbidden to overwrite the file''"
| "sentinel_msg ErrFileTooBig = ''the file size is over the limit''"
| "sentinel_msg ErrSuidModeForbidden = ''the set uid mode is forbidden''"
| "sentinel_msg ErrTxBytesLimitExhausted = ''transmitted bytes limit exhausted''"
| "sentinel_msg ErrOnlyRegularFilesAllowed = ''only regular files are allowed''"
| "sentinel_msg ErrUnsupported = ''unsupported platform''"
| "sentinel_msg ErrFileTransferAbort = ''handler aborted''"
| "sentinel_msg ErrEOF = ''EOF''"
| "sentinel_msg ErrSessionShellAlreadyRunning = ''shell is already running''"
| "sentinel_msg ErrSessionShellNotRunning = ''shell is not running''"
| "sentinel_msg ErrSessionShellTooManySessionsPerUser = ''user has too many open sessions''"
| "sentinel_msg ErrSessionNotFound = ''session not found''"
| "sentinel_msg ErrSessionTooManyShellsAlreadyRunning = ''too many shells spawned''"
| "sentinel_msg ErrPortForwardInvalidMessage =
     ''invalid port-forward message: missing connection_id, remote_port or protocol''"
| "sentinel_msg ErrPortForwardUnknownMessageType = ''unknown message type''"
| "sentinel_msg ErrPortForwardUnknownConnection = ''unknown connection''"
| "sentinel_msg ErrHandlerNotRegistered = ''protocol handler not registered''"
| "sentinel_msg ErrHandlerAlreadyRegistered = ''protocol handler already registered''"
| "sentinel_msg ErrContextCanceled = ''context canceled''"
| "sentinel_msg ErrExecWriteBytesShort = ''failed to write the whole message''"

text \<open>The kinds of operating-system errors the code tells apart (\<open>os.IsNotExist\<close>,
  \<open>os.IsExist\<close>).\<close>

datatype os_kind = ENotExist | EExist | EOther

datatype gerror =
    Sentinel sentinel
  | ErrText string
  | ErrOS os_kind string
  | Wrapped string gerror

text \<open>\<open>Error()\<close>, and \<open>errors.Cause\<close> of \<open>github.com/pkg/errors\<close>; \<open>errors.Wrap\<close> puts the
  message in front of the cause's own.\<close>

fun err_msg :: "gerror \<Rightarrow> string" where
  "err_msg (Sentinel s) = sentinel_msg s"
| "err_msg (ErrText m) = m"
| "err_msg (ErrOS k m) = m"
| "err_msg (Wrapped m e) = m @ '': '' @ err_msg e"

fun err_cause :: "gerror \<Rightarrow> gerror" where
  "err_cause (Wrapped m e) = err_cause e"
| "err_cause e = e"

fun is_not_exist :: "gerror \<Rightarrow> bool" where
  "is_not_exist (ErrOS k m) = (k = ENotExist)"
| "is_not_exist _ = False"

fun is_exist :: "gerror \<Rightarrow> bool" where
  "is_exist (ErrOS k m) = (k = EExist)"
| "is_exist _ = False"

lemma err_cause_not_Wrapped: "err_cause e \<noteq> Wrapped m e'"
  by (induction e) auto

lemma err_cause_idem [simp]: "err_cause (err_cause e) = err_cause e"
  by (induction e) auto

section \<open>Signed 64-bit integers\<close>

text \<open>The value a Go \<open>int64\<close> (and, on 64-bit platforms, \<open>int\<close>) holds after an
  operation whose mathematical result is \<open>x\<close>: two's complement wrap-around.\<close>

definition i64 :: "int \<Rightarrow> int" where
  "i64 x = (x + 2 ^ 63) mod 2 ^ 64 - 2 ^ 63"

lemma i64_id [simp]: "- (2 ^ 63) \<le> x \<Longrightarrow> x < 2 ^ 63 \<Longrightarrow> i64 x = x"
  by (simp add: i64_def)

lemma i64_range: "- (2 ^ 63) \<le> i64 x" "i64 x < 2 ^ 63"
proof -
  have "0 \<le> (x + 2 ^ 63) mod 2 ^ 64" "(x + 2 ^ 63) mod 2 ^ 64 < 2 ^ 64"
    by simp_all
  then show "- (2 ^ 63) \<le> i64 x" "i64 x < 2 ^ 63"
    by (simp_all add: i64_def)
qed

lemma i64_idem [simp]: "i64 (i64 x) = i64 x"
  using i64_range [of x] by simp

lemma i64_le: "- (2 ^ 63) \<le> x \<Longrightarrow> i64 x \<le> x"
proof -
  assume "- (2 ^ 63) \<le> x"
  then have "(x + 2 ^ 63) mod 2 ^ 64 \<le> x + 2 ^ 63"
    by (intro zmod_le_nonneg_dividend) simp
  then show ?thesis by (simp add: i64_def)
qed

section \<open>Formatting and parsing numbers\<close>

definition digit_char :: "nat \<Rightarrow> char" where
  "digit_char d = (if d < 10 then char_of (48 + d) else char_of (87 + d))"

text \<open>The digits of \<open>n\<close> in base \<open>b\<close>, most significant first.\<close>

function show_base :: "nat \<Rightarrow> nat \<Rightarrow> string" where
  "show_base b n =
     (if b < 2 \<or> n < b then [digit_char n] else show_base b (n div b) @ [digit_char (n mod b)])"
  by pat_completeness auto
termination
  by (relation "measure (\<lambda>(b, n). n)") auto

declare show_base.simps [simp del]

text \<open>An apostrophe, as it stands in error messages around a value.\<close>

definition apos :: string where "apos = [CHR 0x27]"

text \<open>\<open>strconv.Itoa\<close> and the \<open>%d\<close> verb; the \<open>%0wx\<close> and \<open>%0wX\<close> verbs.\<close>

definition itoa :: "int \<Rightarrow> string" where
  "itoa i = (if i < 0 then CHR ''-'' # show_base 10 (nat (- i)) else show_base 10 (nat i))"

definition pad0 :: "nat \<Rightarrow> string \<Rightarrow> string" where
  "pad0 w s = replicate (w - length s) (CHR ''0'') @ s"

definition hex_pad :: "nat \<Rightarrow> nat \<Rightarrow> string" where
  "hex_pad w n = pad0 w (show_base 16 n)"

definition upper :: "string \<Rightarrow> string" where
  "upper s = map (\<lambda>c. if (97 :: nat) \<le> of_char c \<and> of_char c \<le> (122 :: nat)
                       then char_of (of_char c - 32 :: nat) else c) s"

text \<open>\<open>strconv.ParseUint(s, base, bits)\<close> for bases up to ten: no sign, no underscore,
  a syntax error for an empty string or a foreign digit, a range error above \<open>2^bits - 1\<close>.\<close>

definition digit_val :: "nat \<Rightarrow> char \<Rightarrow> nat option" where
  "digit_val base c = (let v = of_char c in
     if (48 :: nat) \<le> v \<and> v < 48 + base then Some (v - 48) else None)"

fun parse_digits :: "nat \<Rightarrow> nat \<Rightarrow> string \<Rightarrow> nat option" where
  "parse_digits base acc [] = Some acc"
| "parse_digits base acc (c # cs) =
     (case digit_val base c of None \<Rightarrow> None | Some d \<Rightarrow> parse_digits base (acc * base + d) cs)"

definition ParseUint :: "string \<Rightarrow> nat \<Rightarrow> nat \<Rightarrow> gerror + nat" where
  "ParseUint s base bits =
     (if s = [] then Inl (ErrText (''strconv.ParseUint: parsing '' @ s @ '': invalid syntax''))
      else case parse_digits base 0 s of
        None \<Rightarrow> Inl (ErrText (''strconv.ParseUint: parsing '' @ s @ '': invalid syntax''))
      | Some v \<Rightarrow> if v < 2 ^ bits then Inr v
          else Inl (ErrText (''strconv.ParseUint: parsing '' @ s @ '': value out of range'')))"

text \<open>\<open>strconv.Atoi\<close> on a 64-bit platform.\<close>

definition Atoi :: "string \<Rightarrow> gerror + int" where
  "Atoi s =
     (let neg = (s \<noteq> [] \<and> hd s = CHR ''-'');
          ds = (if s \<noteq> [] \<and> (hd s = CHR ''-'' \<or> hd s = CHR ''+'') then tl s else s)
      in if ds = [] then Inl (ErrText (''strconv.Atoi: parsing '' @ s @ '': invalid syntax''))
         else case parse_digits 10 0 ds of
           None \<Rightarrow> Inl (ErrText (''strconv.Atoi: parsing '' @ s @ '': invalid syntax''))
         | Some v \<Rightarrow>
             (let i = (if neg then - int v else int v)
              in if - (2 ^ 63) \<le> i \<and> i < 2 ^ 63 then Inr i
                 else Inl (ErrText (''strconv.Atoi: parsing '' @ s @ '': value out of range''))))"

lemma digit_val_digit_char: "d < base \<Longrightarrow> base \<le> 10 \<Longrightarrow> digit_val base (digit_char d) = Some d"
  by (simp add: digit_val_def digit_char_def)

lemma parse_digits_append:
  "parse_digits base acc (xs @ ys) =
     (case parse_digits base acc xs of None \<Rightarrow> None | Some a \<Rightarrow> parse_digits base a ys)"
  by (induction xs arbitrary: acc) (auto split: option.splits)

lemma parse_show_base:
  "2 \<le> base \<Longrightarrow> base \<le> 10 \<Longrightarrow> parse_digits base 0 (show_base base n) = Some n"
proof (induction base n rule: show_base.induct)
  case (1 b n)
  show ?case
  proof (cases "n < b")
    case True
    with "1.prems" show ?thesis
      by (simp add: show_base.simps [of b n] digit_val_digit_char)
  next
    case False
    with "1.prems" have "parse_digits b 0 (show_base b (n div b)) = Some (n div b)"
      by (intro "1.IH") auto
    with False "1.prems" show ?thesis
      by (simp add: show_base.simps [of b n] parse_digits_append digit_val_digit_char)
  qed
qed

lemma show_base_nonempty [simp]: "show_base b n \<noteq> []"
  by (simp add: show_base.simps [of b n])

lemma ParseUint_show_base:
  "2 \<le> base \<Longrightarrow> base \<le> 10 \<Longrightarrow> n < 2 ^ bits \<Longrightarrow> ParseUint (show_base base n) base bits = Inr n"
  by (simp add: ParseUint_def parse_show_base)

lemma ParseUint_bound: "ParseUint s base bits = Inr v \<Longrightarrow> v < 2 ^ bits"
  by (auto simp: ParseUint_def split: if_splits option.splits)

section \<open>Lists and maps\<close>

text \<open>Removing the first element that satisfies a predicate, as the loops that look for an
  element, cut it out of its slice and \<open>break\<close> do.\<close>

fun remove_first :: "('a \<Rightarrow> bool) \<Rightarrow> 'a list \<Rightarrow> 'a list" where
  "remove_first P [] = []"
| "remove_first P (x # xs) = (if P x then xs else x # remove_first P xs)"

lemma remove_first_subset: "set (remove_first P xs) \<subseteq> set xs"
  by (induction xs) auto

lemma remove_first_absent [simp]: "\<forall>x \<in> set xs. \<not> P x \<Longrightarrow> remove_first P xs = xs"
  by (induction xs) auto

lemma length_remove_first_le: "length (remove_first P xs) \<le> length xs"
  by (induction xs) auto

lemma length_remove_first: "x \<in> set xs \<Longrightarrow> P x \<Longrightarrow> length xs = Suc (length (remove_first P xs))"
  by (induction xs) auto

lemma remove_first_distinct:
  "distinct (map f xs) \<Longrightarrow> remove_first (\<lambda>x. f x = k) xs = filter (\<lambda>x. f x \<noteq> k) xs"
proof (induction xs)
  case (Cons x xs)
  then show ?case
  proof (cases "f x = k")
    case True
    with Cons.prems have "\<forall>y \<in> set xs. f y \<noteq> k" by (auto simp: image_iff)
    with True show ?thesis by (simp add: filter_id_conv)
  next
    case False
    with Cons show ?thesis by simp
  qed
qed simp

lemma distinct_map_remove_first: "distinct (map f xs) \<Longrightarrow> distinct (map f (remove_first P xs))"
  by (induction xs) (auto dest: subsetD [OF remove_first_subset])

lemma ran_delete_subset: "ran (m(k := None)) \<subseteq> ran m"
  by (auto simp: ran_def split: if_splits)

end
