(* ===== verification/WsProtocol.thy ===== *)
theory WsProtocol
  imports Prelude
begin

text \<open>
  The message layer every component shares: the types and constants of package
  \<open>go-lib-micro/ws\<close> (\<open>ProtoMsg\<close> and its header, the protocol numbers, the message types,
  the structures carried in message bodies), the msgpack codec as a parameter, and the
  \<open>ResponseWriter\<close> through which the handlers answer, with its contract as a locale.
\<close>

section \<open>Messages\<close>

text \<open>
  A value of type \<open>interface{}\<close>, tagged with its dynamic type: type assertions such as
  \<open>v.(int64)\<close> succeed for exactly one tag. \<open>IfStatus\<close> is \<open>MenderShellMessageStatus\<close>, an
  integer type of its own; \<open>IfOther\<close> stands for the remaining types.
\<close>

datatype iface =
    IfNil
  | IfInt "64 word" | IfInt8 "8 word" | IfInt16 "16 word" | IfInt32 "32 word" | IfInt64 "64 word"
  | IfUint "64 word" | IfUintptr "64 word"
  | IfUint8 "8 word" | IfUint16 "16 word" | IfUint32 "32 word" | IfUint64 "64 word"
  | IfString string | IfBool bool | IfStatus nat | IfOther

fun as_int64 :: "iface \<Rightarrow> int option" where
  "as_int64 (IfInt64 n) = Some (sint n)"
| "as_int64 _ = None"

fun as_string :: "iface \<Rightarrow> string option" where
  "as_string (IfString s) = Some s"
| "as_string _ = None"

type_synonym ProtoType = u16

text \<open>A Go map may be nil: \<open>None\<close>. Reading a nil map finds nothing.\<close>

type_synonym properties = "(string \<rightharpoonup> iface) option"

record ProtoHdr =
  Proto :: ProtoType
  MsgType :: string
  SessionID :: string
  Properties :: properties

record ProtoMsg =
  Header :: ProtoHdr
  Body :: bytes

definition prop_get :: "properties \<Rightarrow> string \<Rightarrow> iface option" where
  "prop_get ps k = (case ps of None \<Rightarrow> None | Some m \<Rightarrow> m k)"

text \<open>\<open>s, _ := props[k].(string)\<close> and \<open>n, ok := props[k].(int64)\<close>.\<close>

definition prop_string :: "properties \<Rightarrow> string \<Rightarrow> string" where
  "prop_string ps k = (case Option.bind (prop_get ps k) as_string of None \<Rightarrow> [] | Some s \<Rightarrow> s)"

definition prop_int64 :: "properties \<Rightarrow> string \<Rightarrow> int option" where
  "prop_int64 ps k = Option.bind (prop_get ps k) as_int64"

definition int64_val :: "int \<Rightarrow> iface" where
  "int64_val i = IfInt64 (word_of_int i)"

lemma as_int64_int64_val: "- (2 ^ 63) \<le> i \<Longrightarrow> i < 2 ^ 63 \<Longrightarrow> as_int64 (int64_val i) = Some i"
  by (simp add: int64_val_def sint_sbintrunc' signed_take_bit_int_eq_self)

definition mk_msg :: "ProtoType \<Rightarrow> string \<Rightarrow> string \<Rightarrow> properties \<Rightarrow> bytes \<Rightarrow> ProtoMsg" where
  "mk_msg p t sid ps b =
     \<lparr>Header = \<lparr>Proto = p, MsgType = t, SessionID = sid, Properties = ps\<rparr>, Body = b\<rparr>"

text \<open>The zero value \<open>ws.ProtoMsg{}\<close>.\<close>

definition zero_msg :: ProtoMsg where
  "zero_msg = mk_msg 0 [] [] None []"

lemma mk_msg_sel [simp]:
  "Proto (Header (mk_msg p t sid ps b)) = p"
  "MsgType (Header (mk_msg p t sid ps b)) = t"
  "SessionID (Header (mk_msg p t sid ps b)) = sid"
  "Properties (Header (mk_msg p t sid ps b)) = ps"
  "Body (mk_msg p t sid ps b) = b"
  by (simp_all add: mk_msg_def)

section \<open>Protocol numbers and message types\<close>

definition ProtocolVersion :: int where "ProtocolVersion = 1"

definition ProtoTypeShell :: ProtoType where "ProtoTypeShell = 1"
definition ProtoTypeFileTransfer :: ProtoType where "ProtoTypeFileTransfer = 2"
definition ProtoTypePortForward :: ProtoType where "ProtoTypePortForward = 3"
definition ProtoTypeMenderClient :: ProtoType where "ProtoTypeMenderClient = 4"
definition ProtoTypeFileTransferV2 :: ProtoType where
  "ProtoTypeFileTransferV2 = ProtoTypeFileTransfer + 0x100"
definition ProtoTypePortForwardV2 :: ProtoType where
  "ProtoTypePortForwardV2 = ProtoTypePortForward + 0x100"
definition ProtoTypeControl :: ProtoType where "ProtoTypeControl = 0xFFFF"

lemmas proto_defs [go_defs] =
  ProtoTypeShell_def ProtoTypeFileTransfer_def ProtoTypePortForward_def
  ProtoTypeMenderClient_def ProtoTypeFileTransferV2_def ProtoTypePortForwardV2_def
  ProtoTypeControl_def

lemma protos_distinct [simp]:
  "distinct [ProtoTypeShell, ProtoTypeFileTransfer, ProtoTypePortForward, ProtoTypeMenderClient,
             ProtoTypeFileTransferV2, ProtoTypePortForwardV2, ProtoTypeControl]"
  by (simp add: proto_defs)

lemma proto_versions_differ [simp]:
  "ProtoTypeFileTransfer \<noteq> ProtoTypeFileTransferV2" "ProtoTypeFileTransferV2 \<noteq> ProtoTypeFileTransfer"
  "ProtoTypePortForward \<noteq> ProtoTypePortForwardV2" "ProtoTypePortForwardV2 \<noteq> ProtoTypePortForward"
  by (simp_all add: proto_defs)

text \<open>The message types, per protocol, as the string constants of the packages.\<close>

abbreviation "MessageTypePing \<equiv> ''ping''"
abbreviation "MessageTypePong \<equiv> ''pong''"
abbreviation "MessageTypeOpen \<equiv> ''open''"
abbreviation "MessageTypeAccept \<equiv> ''accept''"
abbreviation "MessageTypeClose \<equiv> ''close''"
abbreviation "MessageTypeError \<equiv> ''error''"

abbreviation "MessageTypeGet \<equiv> ''get_file''"
abbreviation "MessageTypePut \<equiv> ''put_file''"
abbreviation "MessageTypeACK \<equiv> ''ack''"
abbreviation "MessageTypeStat \<equiv> ''stat''"
abbreviation "MessageTypeFileInfo \<equiv> ''file_info''"
abbreviation "MessageTypeChunk \<equiv> ''file_chunk''"

abbreviation "MessageTypePortForwardNew \<equiv> ''new''"
abbreviation "MessageTypePortForwardStop \<equiv> ''stop''"
abbreviation "MessageTypePortForward \<equiv> ''forward''"
abbreviation "MessageTypePortForwardAck \<equiv> ''ack''"

abbreviation "MessageTypePingShell \<equiv> ''ping''"
abbreviation "MessageTypePongShell \<equiv> ''pong''"
abbreviation "MessageTypeResizeShell \<equiv> ''resize''"
abbreviation "MessageTypeShellCommand \<equiv> ''shell''"
abbreviation "MessageTypeSpawnShell \<equiv> ''new''"
abbreviation "MessageTypeStopShell \<equiv> ''stop''"

abbreviation "MessageTypeMenderClientCheckUpdate \<equiv> ''check-update''"
abbreviation "MessageTypeMenderClientSendInventory \<equiv> ''send-inventory''"

abbreviation "NormalMessage \<equiv> (1 :: nat)"
abbreviation "ErrorMessage \<equiv> (2 :: nat)"
abbreviation "ControlMessage \<equiv> (3 :: nat)"

section \<open>Bodies and the codec\<close>

text \<open>\<open>ws.Error\<close>, \<open>ws.Open\<close>, \<open>ws.Accept\<close>; pointer fields are options.\<close>

record ws_Error =
  wse_Error :: string
  wse_Close :: bool
  wse_Code :: int
  wse_MessageProto :: ProtoType
  wse_MessageType :: string
  wse_MessageID :: string

record ws_Accept =
  wsa_Version :: int
  wsa_Protocols :: "ProtoType list"

text \<open>\<open>wsft.Error\<close>, \<open>wsft.FileInfo\<close> and \<open>wsft.UploadRequest\<close>.\<close>

record ft_Error =
  fte_Error :: "string option"
  fte_MessageType :: "string option"

record FileInfo =
  fi_Path :: "string option"
  fi_Size :: "int option"
  fi_UID :: "u32 option"
  fi_GID :: "u32 option"
  fi_Mode :: "u32 option"
  fi_ModTime :: "int option"

record UploadRequest =
  ur_SrcPath :: "string option"
  ur_Path :: "string option"
  ur_Size :: "int option"
  ur_UID :: "u32 option"
  ur_GID :: "u32 option"
  ur_Mode :: "u32 option"

text \<open>\<open>wspf.PortForwardNew\<close> and \<open>wspf.Error\<close>.\<close>

record PortForwardNew =
  pfn_RemoteHost :: "string option"
  pfn_RemotePort :: "u16 option"
  pfn_Protocol :: "string option"

record pf_Error =
  pfe_Error :: "string option"
  pfe_MessageType :: "string option"

text \<open>
  The msgpack package is third-party code and a parameter of the model: for each structure
  the function \<open>Unmarshal\<close> computes, with the value it leaves in its target even when it
  fails, and the bytes \<open>Marshal\<close> produces. \<open>Unmarshal\<close> of an upload request decodes into
  a structure that already holds defaults, so it takes the old value.
\<close>

record codec =
  unm_ws_Error :: "bytes \<Rightarrow> ws_Error \<times> gerror option"
  unm_ws_Open :: "bytes \<Rightarrow> int list \<times> gerror option"
  unm_ws_Accept :: "bytes \<Rightarrow> ws_Accept \<times> gerror option"
  mar_ws_Error :: "ws_Error \<Rightarrow> bytes"
  mar_ws_Accept :: "ws_Accept \<Rightarrow> bytes"
  unm_ft_Error :: "bytes \<Rightarrow> ft_Error \<times> gerror option"
  mar_ft_Error :: "ft_Error \<Rightarrow> bytes"
  unm_path :: "bytes \<Rightarrow> string option \<times> gerror option"
  unm_Upload :: "UploadRequest \<Rightarrow> bytes \<Rightarrow> UploadRequest \<times> gerror option"
  mar_FileInfo :: "FileInfo \<Rightarrow> bytes"
  unm_PortForwardNew :: "bytes \<Rightarrow> PortForwardNew \<times> gerror option"
  mar_pf_Error :: "pf_Error \<Rightarrow> bytes"

section \<open>The response writer\<close>

text \<open>
  The connection as a handler sees it: the messages written so far, and a schedule that
  says which write attempt fails and how. Every run of the program against a connection
  is a run against some schedule.
\<close>

record wire =
  wire_fault :: "nat \<Rightarrow> gerror option"
  wire_count :: nat
  wire_out :: "ProtoMsg list"

definition WriteProtoMsg :: "ProtoMsg \<Rightarrow> wire \<Rightarrow> gerror option \<times> wire" where
  "WriteProtoMsg m w =
     (case wire_fault w (wire_count w) of
        Some e \<Rightarrow> (Some e, w\<lparr>wire_count := Suc (wire_count w)\<rparr>)
      | None \<Rightarrow> (None, w\<lparr>wire_count := Suc (wire_count w), wire_out := wire_out w @ [m]\<rparr>))"

text \<open>A connection on which no write fails.\<close>

definition good_wire :: wire where
  "good_wire = \<lparr>wire_fault = (\<lambda>_. None), wire_count = 0, wire_out = []\<rparr>"

definition reliable :: "wire \<Rightarrow> bool" where
  "reliable w \<longleftrightarrow> (\<forall>n. wire_fault w n = None)"

text \<open>
  What a client may rely on: a successful write delivers exactly the message, a failed one
  delivers nothing, and what was delivered is never taken back.
\<close>

locale response_writer =
  fixes wr :: "'m \<Rightarrow> 'w \<Rightarrow> gerror option \<times> 'w"
    and delivered :: "'w \<Rightarrow> 'm list"
  assumes wr_ok: "wr m w = (None, w') \<Longrightarrow> delivered w' = delivered w @ [m]"
    and wr_fail: "wr m w = (Some e, w') \<Longrightarrow> delivered w' = delivered w"
begin

text \<open>Writing messages one after the other, whatever the individual outcomes.\<close>

primrec wr_all :: "'m list \<Rightarrow> 'w \<Rightarrow> 'w" where
  "wr_all [] w = w"
| "wr_all (m # ms) w = wr_all ms (snd (wr m w))"

text \<open>Whether the log of \<open>w'\<close> extends that of \<open>w\<close> by messages that all satisfy \<open>P\<close>.\<close>

definition extends_by :: "('m \<Rightarrow> bool) \<Rightarrow> 'w \<Rightarrow> 'w \<Rightarrow> bool" where
  "extends_by P w w' \<longleftrightarrow> (\<exists>ms. delivered w' = delivered w @ ms \<and> (\<forall>m \<in> set ms. P m))"

lemma extends_by_refl [simp]: "extends_by P w w"
  by (simp add: extends_by_def)

lemma extends_by_trans: "extends_by P w w' \<Longrightarrow> extends_by P w' w'' \<Longrightarrow> extends_by P w w''"
  by (force simp: extends_by_def)

lemma extends_by_mono: "extends_by P w w' \<Longrightarrow> (\<And>m. P m \<Longrightarrow> Q m) \<Longrightarrow> extends_by Q w w'"
  by (auto simp: extends_by_def)

lemma extends_by_wr: "P m \<Longrightarrow> extends_by P w (snd (wr m w))"
proof (cases "wr m w")
  case (Pair r w')
  assume "P m"
  with Pair show ?thesis
    by (cases r) (auto simp: extends_by_def dest: wr_ok wr_fail)
qed

lemma extends_by_wr_all: "\<forall>m \<in> set ms. P m \<Longrightarrow> extends_by P w (wr_all ms w)"
proof (induction ms arbitrary: w)
  case (Cons m ms)
  then have "extends_by P w (snd (wr m w))" "extends_by P (snd (wr m w)) (wr_all ms (snd (wr m w)))"
    by (auto intro: extends_by_wr)
  then show ?case by (auto intro: extends_by_trans)
qed simp

lemma wr_length: "length (delivered (snd (wr m w))) \<le> Suc (length (delivered w))"
  by (cases "wr m w"; cases "fst (wr m w)") (auto dest: wr_ok wr_fail)

end

interpretation conn: response_writer WriteProtoMsg wire_out
  by unfold_locales (auto simp: WriteProtoMsg_def split: option.splits)

lemma WriteProtoMsg_fault [frame]:
  "wire_fault (snd (WriteProtoMsg m w)) = wire_fault w"
  by (simp add: WriteProtoMsg_def split: option.splits)

lemma WriteProtoMsg_reliable [simp]:
  "reliable w \<Longrightarrow> WriteProtoMsg m w =
     (None, w\<lparr>wire_count := Suc (wire_count w), wire_out := wire_out w @ [m]\<rparr>)"
  by (simp add: WriteProtoMsg_def reliable_def)

lemma reliable_write [simp]: "reliable (snd (WriteProtoMsg m w)) = reliable w"
  by (simp add: reliable_def frame)

lemma reliable_good_wire [simp]: "reliable good_wire"
  by (simp add: reliable_def good_wire_def)

lemma reliable_update [simp]:
  "reliable (w\<lparr>wire_count := c, wire_out := out\<rparr>) = reliable w"
  by (simp add: reliable_def)

section \<open>A sample codec\<close>

text \<open>A codec for the closed examples of the development: every decoder accepts and finds
  nothing, every encoder gives the empty string.\<close>

definition sample_codec :: codec where
  "sample_codec = \<lparr>
     unm_ws_Error = (\<lambda>b. (\<lparr>wse_Error = [], wse_Close = False, wse_Code = 0, wse_MessageProto = 0,
        wse_MessageType = [], wse_MessageID = []\<rparr>, None)),
     unm_ws_Open = (\<lambda>b. ([1], None)),
     unm_ws_Accept = (\<lambda>b. (\<lparr>wsa_Version = 1, wsa_Protocols = []\<rparr>, None)),
     mar_ws_Error = (\<lambda>e. wse_Error e), mar_ws_Accept = (\<lambda>a. []),
     unm_ft_Error = (\<lambda>b. (\<lparr>fte_Error = None, fte_MessageType = None\<rparr>, None)),
     mar_ft_Error = (\<lambda>e. case fte_Error e of None \<Rightarrow> [] | Some m \<Rightarrow> m),
     unm_path = (\<lambda>b. (Some b, None)),
     unm_Upload = (\<lambda>u b. (u\<lparr>ur_Path := Some b\<rparr>, None)),
     mar_FileInfo = (\<lambda>i. []),
     unm_PortForwardNew = (\<lambda>b. (\<lparr>pfn_RemoteHost = Some ''localhost'', pfn_RemotePort = Some 80,
        pfn_Protocol = Some ''tcp''\<rparr>, None)),
     mar_pf_Error = (\<lambda>e. case pfe_Error e of None \<Rightarrow> [] | Some m \<Rightarrow> m)\<rparr>"

end
