(* ===== verification/ShellProc.thy ===== *)
theory ShellProc
  imports WsProtocol
begin

text \<open>
  The processes behind the remote terminal: what \<open>shell.ExecuteShell\<close> starts
  (\<open>shell/shell.go\<close>), how \<open>procps\<close> ends it (\<open>procps/procps.go\<close>), and the routine
  \<open>MenderShell.pipeStdout\<close> that carries its output to the server (\<open>shell/exec.go\<close>).
\<close>

section \<open>Starting a shell (shell/shell.go)\<close>

text \<open>The \<open>exec.Cmd\<close> that is built; \<open>cmd_Credential\<close> is the user, the group and the
  supplementary groups the process is switched to, if any.\<close>

record command =
  cmd_Path :: string
  cmd_Args :: "string list"
  cmd_Credential :: "(u32 \<times> u32 \<times> u32 list) option"
  cmd_Dir :: string
  cmd_Env :: "string list"

text \<open>
  What the host answers: the id of the current user, \<open>os.Stat\<close> of a directory, \<open>pty.Start\<close>
  with the process id it gives, and the calls on a process by its id. \<open>po_Wait\<close> is the
  outcome of \<open>command.Wait\<close> within the time waited: \<open>None\<close> when the time has passed.
\<close>

record proc_os =
  po_CurrentUid :: "gerror + string"
  po_Stat :: "string \<Rightarrow> gerror option"
  po_Start :: "nat \<Rightarrow> command \<Rightarrow> gerror + int"
  po_FindProcess :: "int \<Rightarrow> gerror option"
  po_Signal :: "int \<Rightarrow> gerror option"
  po_SignalZero :: "int \<Rightarrow> gerror option"
  po_Wait :: "int \<Rightarrow> gerror option option"

definition defaultCmdDir :: string where "defaultCmdDir = ''/''"

record terminal_settings =
  ts_Uid :: u32
  ts_Gid :: u32
  ts_Gids :: "u32 list"
  ts_Shell :: string
  ts_HomeDir :: string
  ts_TerminalString :: string
  ts_Height :: u16
  ts_Width :: u16
  ts_ShellArguments :: "string list"

definition zero_terminal :: terminal_settings where
  "zero_terminal = \<lparr>ts_Uid = 0, ts_Gid = 0, ts_Gids = [], ts_Shell = [], ts_HomeDir = [],
     ts_TerminalString = [], ts_Height = 0, ts_Width = 0, ts_ShellArguments = []\<rparr>"

definition shell_command :: "proc_os \<Rightarrow> terminal_settings \<Rightarrow> string \<Rightarrow> command" where
  "shell_command po t uid =
     \<lparr>cmd_Path = ts_Shell t, cmd_Args = ts_ShellArguments t,
      cmd_Credential = (if uid = ''0'' then Some (ts_Uid t, ts_Gid t, ts_Gids t) else None),
      cmd_Dir = (if case po_Stat po (ts_HomeDir t) of None \<Rightarrow> True | Some e \<Rightarrow> \<not> is_not_exist e
                 then ts_HomeDir t else defaultCmdDir),
      cmd_Env = [''HOME='' @ ts_HomeDir t, ''TERM='' @ ts_TerminalString t]\<rparr>"

text \<open>\<open>ResizeShell\<close>: what the terminal is told with \<open>TIOCSWINSZ\<close>. A failure is only logged.\<close>

record winsize =
  wz_h :: u16
  wz_w :: u16
  wz_x :: u16
  wz_y :: u16

definition ResizeShell :: "u16 \<Rightarrow> u16 \<Rightarrow> winsize" where
  "ResizeShell height width = \<lparr>wz_h = height, wz_w = width, wz_x = 0, wz_y = 0\<rparr>"

text \<open>The \<open>k\<close>-th start. The size of the terminal is set on the new process, from its settings.\<close>

definition ExecuteShell :: "proc_os \<Rightarrow> nat \<Rightarrow> terminal_settings \<Rightarrow> gerror + int" where
  "ExecuteShell po k t =
     (case po_CurrentUid po of
        Inl e \<Rightarrow> Inl (ErrText (''unknown error with exec.Command('' @ ts_Shell t @ '')''))
      | Inr uid \<Rightarrow> po_Start po k (shell_command po t uid))"

section \<open>Ending it (procps/procps.go)\<close>

text \<open>What is done to processes, by their numbers, other than looking whether they exist.\<close>

datatype proc_call = FindProc int | SendInt int | SendTerm int | SendKill int | AwaitProc int

definition ProcessExists :: "proc_os \<Rightarrow> int \<Rightarrow> bool" where
  "ProcessExists po pid =
     (case po_FindProcess po pid of None \<Rightarrow> po_SignalZero po pid = None | Some e \<Rightarrow> False)"

definition benign_exits :: "string list" where
  "benign_exits = [''signal: killed'', ''signal: terminated'', ''signal: hangup'', ''exit status 130'']"

text \<open>\<open>TerminateAndWait\<close>: the signals it sends, whose errors it does not look at, and its result.\<close>

definition TerminateAndWait_calls :: "int \<Rightarrow> proc_call list" where
  "TerminateAndWait_calls pid = [SendTerm pid, SendKill pid, AwaitProc pid]"

definition TerminateAndWait :: "proc_os \<Rightarrow> int \<Rightarrow> gerror option" where
  "TerminateAndWait po pid =
     (case po_Wait po pid of
        None \<Rightarrow> Some (ErrText (''waiting for pid '' @ itoa pid
                  @ '' timeout. the process will remain as zombie.''))
      | Some None \<Rightarrow> None
      | Some (Some e) \<Rightarrow>
          if err_msg e \<notin> set benign_exits
          then Some (ErrText (''error waiting for the process: '' @ err_msg e)) else None)"

section \<open>Carrying the output (shell/exec.go)\<close>

text \<open>What the reader of the terminal meets: output, of at most 255 bytes at a time, an error
  (the end of the output included), or that \<open>Stop\<close> has been called by then.\<close>

definition pipStdoutBufferSize :: nat where "pipStdoutBufferSize = 255"

datatype tty_ev = TtyData bytes | TtyErr gerror | TtyStop

definition shell_msg :: "string \<Rightarrow> string \<Rightarrow> nat \<Rightarrow> bytes \<Rightarrow> ProtoMsg" where
  "shell_msg sid t status b =
     mk_msg ProtoTypeShell t sid (Some [''status'' \<mapsto> IfStatus status]) b"

definition sendStopMessage :: "string \<Rightarrow> gerror option \<Rightarrow> wire \<Rightarrow> wire" where
  "sendStopMessage sid err w =
     snd (WriteProtoMsg (shell_msg sid MessageTypeStopShell ErrorMessage
       (case err of None \<Rightarrow> [] | Some e \<Rightarrow> err_msg e)) w)"

text \<open>The buffered reader hands out what it has read in pieces of the buffer's size.\<close>

function pieces :: "bytes \<Rightarrow> bytes list" where
  "pieces b = (if length b \<le> pipStdoutBufferSize then [b]
     else take pipStdoutBufferSize b # pieces (drop pipStdoutBufferSize b))"
  by pat_completeness auto
termination by (relation "measure length") (auto simp: pipStdoutBufferSize_def)

declare pieces.simps [simp del]

text \<open>
  \<open>pipeStdout\<close>: \<open>running\<close> is the flag \<open>Stop\<close> clears. It is looked at before and after every
  read, so output that arrives together with the stop is dropped.
\<close>

fun pipeStdout :: "string \<Rightarrow> tty_ev list \<Rightarrow> wire \<Rightarrow> wire" where
  "pipeStdout sid [] w = w"
| "pipeStdout sid (TtyStop # evs) w = w"
| "pipeStdout sid (TtyErr e # evs) w = sendStopMessage sid (Some e) w"
| "pipeStdout sid (TtyData b # evs) w =
     pipeStdout sid evs (fold (\<lambda>p w. snd (WriteProtoMsg
       (shell_msg sid MessageTypeShellCommand NormalMessage p) w)) (pieces b) w)"

lemma concat_pieces: "concat (pieces b) = b"
  by (induction b rule: pieces.induct) (subst pieces.simps, simp)

lemma pieces_short: "p \<in> set (pieces b) \<Longrightarrow> length p \<le> pipStdoutBufferSize"
proof (induction b rule: pieces.induct)
  case (1 b)
  show ?case
  proof (cases "length b \<le> pipStdoutBufferSize")
    case True
    with 1(2) show ?thesis by (subst (asm) pieces.simps) simp
  next
    case False
    with 1(2) have "p = take pipStdoutBufferSize b \<or> p \<in> set (pieces (drop pipStdoutBufferSize b))"
      by (subst (asm) pieces.simps) simp
    with 1(1) False show ?thesis by auto
  qed
qed

text \<open>The output a run of events holds, up to the stop or the error that ends it.\<close>

fun tty_output :: "tty_ev list \<Rightarrow> bytes" where
  "tty_output [] = []"
| "tty_output (TtyStop # evs) = []"
| "tty_output (TtyErr e # evs) = []"
| "tty_output (TtyData b # evs) = b @ tty_output evs"

lemma fold_write_reliable:
  "reliable w \<Longrightarrow> reliable (fold (\<lambda>p w. snd (WriteProtoMsg (f p) w)) ps w) \<and>
     wire_out (fold (\<lambda>p w. snd (WriteProtoMsg (f p) w)) ps w) = wire_out w @ map f ps"
  by (induction ps arbitrary: w) auto

lemma pipeStdout_output:
  assumes "reliable w"
  shows "\<exists>ps tail. wire_out (pipeStdout sid evs w) =
       wire_out w @ map (shell_msg sid MessageTypeShellCommand NormalMessage) ps @ tail \<and>
     concat ps = tty_output evs \<and> (\<forall>p \<in> set ps. length p \<le> pipStdoutBufferSize) \<and>
     length tail \<le> 1 \<and> (\<forall>m \<in> set tail. MsgType (Header m) = MessageTypeStopShell)"
  using assms
proof (induction sid evs w rule: pipeStdout.induct)
  case (4 sid b evs w)
  let ?f = "shell_msg sid MessageTypeShellCommand NormalMessage"
  let ?w = "fold (\<lambda>p w. snd (WriteProtoMsg (?f p) w)) (pieces b) w"
  note fw = fold_write_reliable [OF 4(2), of ?f "pieces b"]
  from 4(1) fw obtain ps tail where ps: "wire_out (pipeStdout sid evs ?w) = wire_out ?w @ map ?f ps @ tail"
    "concat ps = tty_output evs" "\<forall>p \<in> set ps. length p \<le> pipStdoutBufferSize"
    "length tail \<le> 1" "\<forall>m \<in> set tail. MsgType (Header m) = MessageTypeStopShell" by blast
  from ps fw pieces_short concat_pieces [of b] show ?case
    by (intro exI [of _ "pieces b @ ps"] exI [of _ tail]) auto
qed (auto simp: sendStopMessage_def shell_msg_def intro: exI [of _ "[]"])

section \<open>The shell object (MenderShell)\<close>

record mender_shell =
  sh_sessionId :: string
  sh_running :: bool

definition NewMenderShell :: "string \<Rightarrow> mender_shell" where
  "NewMenderShell sessionId = \<lparr>sh_sessionId = sessionId, sh_running = False\<rparr>"

definition IsRunning :: "mender_shell \<Rightarrow> bool" where "IsRunning s = sh_running s"
definition Shell_Stop :: "mender_shell \<Rightarrow> mender_shell" where "Shell_Stop s = s\<lparr>sh_running := False\<rparr>"

text \<open>
  \<open>Start\<close> starts the goroutine and then sets the flag. \<open>quick\<close> tells whether the goroutine has
  looked at the flag for the first time before that; it returns when the flag is down.
\<close>

definition Shell_Start :: "bool \<Rightarrow> tty_ev list \<Rightarrow> mender_shell \<Rightarrow> wire \<Rightarrow> mender_shell \<times> wire" where
  "Shell_Start quick evs s w =
     (let s' = s\<lparr>sh_running := True\<rparr>
      in (s', if IsRunning (if quick then s else s') then pipeStdout (sh_sessionId s) evs w else w))"

text \<open>A goroutine that is quicker than \<open>Start\<close> leaves a shell that runs and is never heard of.\<close>

lemma quick_start_silent:
  assumes "Shell_Start quick evs (NewMenderShell sid) w = (s, w')"
  shows "IsRunning s \<and> w' = (if quick then w else pipeStdout sid evs w)"
  using assms by (auto simp: Shell_Start_def NewMenderShell_def IsRunning_def)

end
