(* ===== verification/Stores.thy ===== *)
theory Stores
  imports WsProtocol
begin

text \<open>
  The contract of a table of live objects found by a key, as the components that keep one
  use it: the shell sessions of \<open>session/shell.go\<close>, the port forwards of
  \<open>session/portforward.go\<close> and the sessions of \<open>session/router.go\<close>. An entry can be
  looked up and removed; a table that admits new entries also has an insertion, which may
  refuse.
\<close>

locale keyed_store =
  fixes get :: "'s \<Rightarrow> 'k \<Rightarrow> 'v option"
    and del :: "'k \<Rightarrow> 's \<Rightarrow> 's"
    and inv :: "'s \<Rightarrow> bool"
  assumes get_del: "inv s \<Longrightarrow> get (del k s) = (get s)(k := None)"
    and inv_del: "inv s \<Longrightarrow> inv (del k s)"
begin

lemma inv_dels: "inv s \<Longrightarrow> inv (fold del ks s)"
  by (induction ks arbitrary: s) (simp_all add: inv_del)

lemma get_dels: "inv s \<Longrightarrow> get (fold del ks s) j = (if j \<in> set ks then None else get s j)"
  by (induction ks arbitrary: s) (simp_all add: inv_del get_del)

lemma del_gone: "inv s \<Longrightarrow> get (del k s) k = None"
  by (simp add: get_del)

lemma dom_del: "inv s \<Longrightarrow> dom (get (del k s)) = dom (get s) - {k}"
  by (simp add: get_del)

lemma finite_dels: "inv s \<Longrightarrow> finite (dom (get s)) \<Longrightarrow> finite (dom (get (fold del ks s)))"
  by (rule finite_subset [of _ "dom (get s)"]) (auto simp: get_dels split: if_splits)

lemma clear: "inv s \<Longrightarrow> dom (get s) \<subseteq> set ks \<Longrightarrow> get (fold del ks s) = Map.empty"
  by (rule ext) (auto simp: get_dels)

end

text \<open>
  With insertion: \<open>put k x\<close> succeeds with the new entry under a key that was free, or refuses
  and leaves the table alone.
\<close>

locale growing_store = keyed_store get del inv
  for get :: "'s \<Rightarrow> 'k \<Rightarrow> 'v option" and del :: "'k \<Rightarrow> 's \<Rightarrow> 's" and inv :: "'s \<Rightarrow> bool" +
  fixes put :: "'k \<Rightarrow> 'x \<Rightarrow> 's \<Rightarrow> (gerror + 'v) \<times> 's"
  assumes put_ok: "inv s \<Longrightarrow> get s k = None \<Longrightarrow> put k x s = (Inr v, s') \<Longrightarrow>
      inv s' \<and> get s' = (get s)(k \<mapsto> v)"
    and put_refused: "inv s \<Longrightarrow> get s k = None \<Longrightarrow> put k x s = (Inl e, s') \<Longrightarrow>
      inv s' \<and> get s' = get s"
begin

text \<open>Both outcomes at once.\<close>

lemma put_cases:
  assumes "inv s" "get s k = None"
  shows "inv (snd (put k x s)) \<and>
     (get (snd (put k x s)) = get s \<or> (\<exists>v. get (snd (put k x s)) = (get s)(k \<mapsto> v)))"
proof (cases "put k x s")
  case (Pair r s')
  show ?thesis
  proof (cases r)
    case (Inl e)
    with put_refused [OF assms, of x e s'] Pair show ?thesis by simp
  next
    case (Inr v)
    with put_ok [OF assms, of x v s'] Pair show ?thesis by auto
  qed
qed

lemma put_inv: "inv s \<Longrightarrow> get s k = None \<Longrightarrow> inv (snd (put k x s))"
  using put_cases by blast

lemma put_others: "inv s \<Longrightarrow> get s k = None \<Longrightarrow> j \<noteq> k \<Longrightarrow> get (snd (put k x s)) j = get s j"
  using put_cases [of s k x] by auto

lemma put_dom: "inv s \<Longrightarrow> get s k = None \<Longrightarrow> dom (get (snd (put k x s))) \<subseteq> insert k (dom (get s))"
  using put_cases [of s k x] by auto

lemma put_del:
  assumes "inv s" "get s k = None"
  shows "get (del k (snd (put k x s))) = get s"
proof -
  have "get (del k (snd (put k x s))) = (get (snd (put k x s)))(k := None)"
    using put_inv [OF assms] by (rule get_del)
  with put_cases [OF assms, of x] assms(2) show ?thesis by auto
qed

end

end
