(* ===== verification/ShellSessions.thy ===== *)
theory ShellSessions
  imports ShellProc Stores
begin

text \<open>
  The registry of remote-terminal sessions (\<open>session/shell.go\<close>): the table by session id
  and the lists by user, the creation of a session under the limit per user, starting and
  stopping its shell, ending sessions one by one, by user, all of them, or those that have
  expired, and the health check that ends a session whose client is gone.
\<close>

section \<open>State\<close>

text \<open>\<open>MenderSessionStatus\<close>.\<close>

datatype session_status =
    ActiveSession | ExpiredSession | IdleSession | HangedSession | EmptySession | NewSession

text \<open>
  \<open>MenderShellSession\<close>. Instants are nanoseconds from Go's zero time, which is \<open>0\<close>.
  \<open>ms_shell\<close> is the \<open>shell\<close> pointer with its flag \<open>running\<close>; the terminal's reader, writer
  and file are set together with it. \<open>ms_stopped\<close> tells whether the channel \<open>stop\<close> is
  closed, \<open>ms_pong\<close> whether the channel \<open>pong\<close>, of capacity one, holds a token, and
  \<open>ms_tty_open\<close> whether the terminal's file is open. \<open>ms_command\<close> is the command's path, and
  \<open>ms_winsize\<close> the size the open terminal has last been told.
\<close>

record shell_session =
  ms_shell :: "bool option"
  ms_id :: string
  ms_userId :: string
  ms_createdAt :: int
  ms_expiresAt :: int
  ms_activeAt :: int
  ms_status :: session_status
  ms_terminal :: terminal_settings
  ms_pid :: int
  ms_tty_open :: bool
  ms_command :: string
  ms_stopped :: bool
  ms_pong :: bool
  ms_winsize :: winsize

text \<open>
  The package's variables: sessions are objects on a heap, and both tables hold references
  to them. \<open>sr_MaxUserSessions\<close> and \<open>sr_idleTimeout\<close> (\<open>defaultSessionIdleExpiredTimeout\<close>)
  are settings; \<open>sr_starts\<close> counts the processes started, and \<open>sr_calls\<close> is what has been done to
  processes to end them, in order.
\<close>

type_synonym ref = nat

record registry =
  sr_heap :: "ref \<rightharpoonup> shell_session"
  sr_next :: ref
  sr_map :: "string \<rightharpoonup> ref"
  sr_by_user :: "string \<rightharpoonup> ref list"
  sr_MaxUserSessions :: int
  sr_idleTimeout :: int
  sr_starts :: nat
  sr_calls :: "proc_call list"

definition NoExpirationTimeout :: int where "NoExpirationTimeout = 0"
definition defaultSessionExpiredTimeout :: int where
  "defaultSessionExpiredTimeout = 1024 * 1000000000"

definition empty_registry :: registry where
  "empty_registry = \<lparr>sr_heap = Map.empty, sr_next = 0, sr_map = Map.empty, sr_by_user = Map.empty,
     sr_MaxUserSessions = 1, sr_idleTimeout = NoExpirationTimeout, sr_starts = 0,
     sr_calls = []\<rparr>"

definition modify :: "ref \<Rightarrow> (shell_session \<Rightarrow> shell_session) \<Rightarrow> registry \<Rightarrow> registry" where
  "modify r f s = s\<lparr>sr_heap := (sr_heap s)(r := map_option f (sr_heap s r))\<rparr>"

section \<open>The registry\<close>

definition NewMenderShellSession ::
  "string \<Rightarrow> string \<Rightarrow> int \<Rightarrow> int \<Rightarrow> int \<Rightarrow> registry \<Rightarrow> (gerror + ref) \<times> registry" where
  "NewMenderShellSession sessionId userId expireAfter expireAfterIdle now s =
     (if case sr_by_user s userId of None \<Rightarrow> False
         | Some rs \<Rightarrow> int (length rs) \<ge> sr_MaxUserSessions s
      then (Inl (Sentinel ErrSessionShellTooManySessionsPerUser), s)
      else
        let users = (case sr_by_user s userId of None \<Rightarrow> [] | Some rs \<Rightarrow> rs);
            expireAfter = (if expireAfter = NoExpirationTimeout
                           then defaultSessionExpiredTimeout else expireAfter);
            idle = (if expireAfterIdle \<noteq> NoExpirationTimeout then expireAfterIdle else sr_idleTimeout s);
            r = sr_next s;
            x = \<lparr>ms_shell = None, ms_id = sessionId, ms_userId = userId, ms_createdAt = now,
                 ms_expiresAt = now + expireAfter, ms_activeAt = 0, ms_status = NewSession,
                 ms_terminal = zero_terminal, ms_pid = 0, ms_tty_open = False, ms_command = [],
                 ms_stopped = False, ms_pong = False, ms_winsize = ResizeShell 0 0\<rparr>
        in (Inr r, s\<lparr>sr_heap := (sr_heap s)(r \<mapsto> x), sr_next := Suc r,
              sr_map := (sr_map s)(sessionId \<mapsto> r),
              sr_by_user := (sr_by_user s)(userId \<mapsto> users @ [r]),
              sr_idleTimeout := idle\<rparr>))"

definition MenderShellSessionGetById :: "registry \<Rightarrow> string \<Rightarrow> ref option" where
  "MenderShellSessionGetById s k = sr_map s k"

definition MenderShellSessionGetCount :: "registry \<Rightarrow> nat" where
  "MenderShellSessionGetCount s = card (dom (sr_map s))"

definition MenderShellSessionsGetByUserId :: "registry \<Rightarrow> string \<Rightarrow> ref list option" where
  "MenderShellSessionsGetByUserId s u = sr_by_user s u"

text \<open>\<open>menderShellDeleteByIdLocked\<close>: the first session of the user with this id leaves the
  user's list.\<close>

definition has_id :: "registry \<Rightarrow> string \<Rightarrow> ref \<Rightarrow> bool" where
  "has_id s k r = (case sr_heap s r of None \<Rightarrow> False | Some x \<Rightarrow> ms_id x = k)"

definition MenderShellDeleteById :: "string \<Rightarrow> registry \<Rightarrow> gerror option \<times> registry" where
  "MenderShellDeleteById k s =
     (case Option.bind (sr_map s k) (sr_heap s) of
        None \<Rightarrow> (Some (Sentinel ErrSessionNotFound), s)
      | Some v \<Rightarrow>
          let userSessions = (case sr_by_user s (ms_userId v) of None \<Rightarrow> [] | Some rs \<Rightarrow> rs);
              by_user = (if list_ex (has_id s k) userSessions
                         then (sr_by_user s)(ms_userId v \<mapsto> remove_first (has_id s k) userSessions)
                         else sr_by_user s)
          in (None, s\<lparr>sr_by_user := by_user, sr_map := (sr_map s)(k := None)\<rparr>))"

section \<open>Sessions\<close>

definition StartShell ::
  "proc_os \<Rightarrow> int \<Rightarrow> terminal_settings \<Rightarrow> ref \<Rightarrow> registry \<Rightarrow> gerror option \<times> registry" where
  "StartShell po now terminal r s =
     (case sr_heap s r of
        None \<Rightarrow> (None, s)
      | Some x \<Rightarrow>
          if ms_status x = ActiveSession \<or> ms_status x = HangedSession
          then (Some (Sentinel ErrSessionShellAlreadyRunning), s)
          else case ExecuteShell po (sr_starts s) terminal of
            Inl e \<Rightarrow> (Some e, s\<lparr>sr_starts := Suc (sr_starts s)\<rparr>)
          | Inr pid \<Rightarrow>
              (None, modify r (\<lambda>x. x\<lparr>ms_shell := Some True, ms_pid := pid, ms_status := ActiveSession,
                 ms_terminal := terminal, ms_tty_open := True, ms_command := ts_Shell terminal,
                 ms_activeAt := now,
                 ms_winsize := ResizeShell (ts_Height terminal) (ts_Width terminal)\<rparr>) (s\<lparr>sr_starts := Suc (sr_starts s)\<rparr>)))"

definition log_calls :: "proc_call list \<Rightarrow> registry \<Rightarrow> registry" where
  "log_calls cs s = s\<lparr>sr_calls := sr_calls s @ cs\<rparr>"

text \<open>\<open>StopShell\<close>: the session is marked empty before anything is done to the process. It gives up when
  the process is not found or the first signal is refused.\<close>

definition StopShell :: "proc_os \<Rightarrow> ref \<Rightarrow> registry \<Rightarrow> gerror option \<times> registry" where
  "StopShell po r s =
     (case sr_heap s r of
        None \<Rightarrow> (None, s)
      | Some x \<Rightarrow>
          if ms_status x \<noteq> ActiveSession \<and> ms_status x \<noteq> HangedSession
          then (Some (Sentinel ErrSessionShellNotRunning), s)
          else
            let s = modify r (\<lambda>x. x\<lparr>ms_stopped := True, ms_shell := map_option (\<lambda>_. False) (ms_shell x),
                       ms_terminal := zero_terminal, ms_status := EmptySession\<rparr>) s;
                s = log_calls [FindProc (ms_pid x)] s
            in case po_FindProcess po (ms_pid x) of
                 Some e \<Rightarrow> (Some e, s)
               | None \<Rightarrow>
                   let s = log_calls [SendInt (ms_pid x)] s
                   in case po_Signal po (ms_pid x) of
                        Some e \<Rightarrow> (Some e, s)
                      | None \<Rightarrow>
                          (TerminateAndWait po (ms_pid x),
                           log_calls (TerminateAndWait_calls (ms_pid x)) (modify r (\<lambda>x. x\<lparr>ms_tty_open := False\<rparr>) s)))"

definition IsExpired :: "int \<Rightarrow> registry \<Rightarrow> shell_session \<Rightarrow> bool" where
  "IsExpired now s x =
     (if sr_idleTimeout s \<noteq> NoExpirationTimeout then now > ms_activeAt x + sr_idleTimeout s
      else now > ms_expiresAt x)"

text \<open>The writer of a session whose shell has never been started is nil, and so is its
  terminal: using them is a panic, \<open>None\<close>. \<open>wr\<close> is the result of writing to the terminal.\<close>

definition ShellCommand ::
  "int \<Rightarrow> (bytes \<Rightarrow> nat \<times> gerror option) \<Rightarrow> bytes \<Rightarrow> ref \<Rightarrow> registry \<Rightarrow> (gerror option \<times> registry) option"
where
  "ShellCommand now wr data r s =
     (let s = modify r (\<lambda>x. x\<lparr>ms_activeAt := now\<rparr>) s in
      case Option.bind (sr_heap s r) ms_shell of
        None \<Rightarrow> None
      | Some _ \<Rightarrow>
          (case wr data of
             (n, Some e) \<Rightarrow>
               Some (Some (if n \<noteq> length data then Sentinel ErrExecWriteBytesShort else e), s)
           | (n, None) \<Rightarrow> Some (None, s)))"

text \<open>A terminal whose file is closed is not told its size; that is logged.\<close>

definition SessionResizeShell :: "u16 \<Rightarrow> u16 \<Rightarrow> ref \<Rightarrow> registry \<Rightarrow> registry option" where
  "SessionResizeShell height width r s =
     (case Option.bind (sr_heap s r) ms_shell of
        None \<Rightarrow> None
      | Some _ \<Rightarrow> Some (modify r (\<lambda>x. if ms_tty_open x then x\<lparr>ms_winsize := ResizeShell height width\<rparr> else x) s))"

definition HealthcheckPong :: "ref \<Rightarrow> registry \<Rightarrow> registry" where
  "HealthcheckPong r s = modify r (\<lambda>x. x\<lparr>ms_pong := True\<rparr>) s"

section \<open>Ending sessions\<close>

definition MenderShellStopById :: "proc_os \<Rightarrow> string \<Rightarrow> registry \<Rightarrow> gerror option \<times> registry" where
  "MenderShellStopById po k s =
     (case sr_map s k of
        None \<Rightarrow> (Some (Sentinel ErrSessionNotFound), s)
      | Some r \<Rightarrow> (case sr_heap s r of
          None \<Rightarrow> (Some (Sentinel ErrSessionNotFound), s)
        | Some x \<Rightarrow>
            if ms_shell x = None then (Some (Sentinel ErrSessionNotFound), s)
            else case StopShell po r s of
              (Some e, s') \<Rightarrow>
                if ProcessExists po (ms_pid x) then (Some e, s') else MenderShellDeleteById k s'
            | (None, s') \<Rightarrow> MenderShellDeleteById k s'))"

text \<open>The loop of \<open>MenderShellStopByUserId\<close>: the sessions stopped and the last error.\<close>

fun stop_sessions ::
  "proc_os \<Rightarrow> ref list \<Rightarrow> gerror option \<Rightarrow> registry \<Rightarrow> (ref list \<times> gerror option) \<times> registry" where
  "stop_sessions po [] err s = (([], err), s)"
| "stop_sessions po (r # rs) err s =
     (if Option.bind (sr_heap s r) ms_shell = None then stop_sessions po rs err s
      else case StopShell po r s of
        (Some e, s') \<Rightarrow>
          if ProcessExists po (case sr_heap s' r of None \<Rightarrow> 0 | Some x \<Rightarrow> ms_pid x)
          then stop_sessions po rs (Some e) s'
          else (case stop_sessions po rs err s' of ((st, err), s) \<Rightarrow> ((r # st, err), s))
      | (None, s') \<Rightarrow> (case stop_sessions po rs err s' of ((st, err), s) \<Rightarrow> ((r # st, err), s)))"

definition id_of :: "registry \<Rightarrow> ref \<Rightarrow> string" where
  "id_of s r = (case sr_heap s r of None \<Rightarrow> [] | Some x \<Rightarrow> ms_id x)"

definition del_ref :: "ref \<Rightarrow> registry \<Rightarrow> registry" where
  "del_ref r s = snd (MenderShellDeleteById (id_of s r) s)"

definition MenderShellStopByUserId ::
  "proc_os \<Rightarrow> string \<Rightarrow> registry \<Rightarrow> (nat \<times> gerror option) \<times> registry" where
  "MenderShellStopByUserId po userId s =
     (let sessions = (case sr_by_user s userId of None \<Rightarrow> [] | Some rs \<Rightarrow> rs)
      in if sessions = [] then ((0, Some (Sentinel ErrSessionNotFound)), s)
         else case stop_sessions po sessions None s of
           ((stopped, err), s) \<Rightarrow> ((length stopped, err), fold del_ref stopped s))"

text \<open>The two loops \<open>MenderSessionTerminateAll\<close> and \<open>MenderSessionTerminateExpired\<close> share:
  how many shells were stopped, how many sessions removed and not removed, the last error.\<close>

fun stop_all ::
  "proc_os \<Rightarrow> ref list \<Rightarrow> nat \<Rightarrow> gerror option \<Rightarrow> registry \<Rightarrow> (nat \<times> gerror option) \<times> registry" where
  "stop_all po [] n err s = ((n, err), s)"
| "stop_all po (r # rs) n err s =
     (case StopShell po r s of
        (None, s) \<Rightarrow> stop_all po rs (Suc n) err s
      | (Some e, s) \<Rightarrow> stop_all po rs n (Some e) s)"

fun delete_all ::
  "ref list \<Rightarrow> nat \<Rightarrow> nat \<Rightarrow> gerror option \<Rightarrow> registry \<Rightarrow> (nat \<times> nat \<times> gerror option) \<times> registry" where
  "delete_all [] n left err s = ((n, left, err), s)"
| "delete_all (r # rs) n left err s =
     (case MenderShellDeleteById (id_of s r) s of
        (None, s) \<Rightarrow> delete_all rs (Suc n) left err s
      | (Some e, s) \<Rightarrow> delete_all rs n (Suc left) (Some e) s)"

text \<open>A Go map is walked in any order: the order is an argument. \<open>walks s rs\<close> says that \<open>rs\<close> is
  one in which the sessions of the table can come.\<close>

definition walks :: "registry \<Rightarrow> ref list \<Rightarrow> bool" where
  "walks s rs \<longleftrightarrow> distinct rs \<and> set rs = ran (sr_map s)"

definition MenderSessionTerminateAll ::
  "proc_os \<Rightarrow> ref list \<Rightarrow> registry \<Rightarrow> (nat \<times> nat \<times> gerror option) \<times> registry" where
  "MenderSessionTerminateAll po order s =
     (case stop_all po order 0 None s of
        ((shellCount, err), s) \<Rightarrow>
          (case delete_all order 0 0 err s of
             ((sessionCount, _, err), s) \<Rightarrow> ((shellCount, sessionCount, err), s)))"

definition MenderSessionTerminateExpired ::
  "proc_os \<Rightarrow> int \<Rightarrow> ref list \<Rightarrow> registry \<Rightarrow> (nat \<times> nat \<times> nat \<times> gerror option) \<times> registry" where
  "MenderSessionTerminateExpired po now order s =
     (let expired = filter (\<lambda>r. case sr_heap s r of None \<Rightarrow> False | Some x \<Rightarrow> IsExpired now s x) order
      in case stop_all po expired 0 None s of
           ((shellCount, err), s) \<Rightarrow>
             (case delete_all expired 0 0 err s of
                ((sessionCount, left, err), s) \<Rightarrow> ((shellCount, sessionCount, left, err), s)))"

section \<open>The health check\<close>

definition healthcheckInterval :: int where "healthcheckInterval = 60 * 1000000000"
definition healthcheckTimeout :: int where "healthcheckTimeout = 5 * 1000000000"

definition healthcheck_ping :: "string \<Rightarrow> ProtoMsg" where
  "healthcheck_ping sid = mk_msg ProtoTypeShell MessageTypePingShell sid
     (Some [''timeout'' \<mapsto> IfInt (word_of_int ((healthcheckInterval + healthcheckTimeout) div 1000000000)),
            ''status'' \<mapsto> IfStatus ControlMessage]) []"

text \<open>
  What the routine \<open>healthcheck\<close> wakes up for, with the time: the stop channel, a pong, the
  ticker. The timer fires when the next of these comes after its deadline, or when there is
  no next one. The result tells whether the session timed out, and the pings sent.
\<close>

datatype hc_ev = HcStop | HcPong | HcTick

fun healthcheck :: "string \<Rightarrow> int \<Rightarrow> (int \<times> hc_ev) list \<Rightarrow> bool \<times> ProtoMsg list" where
  "healthcheck sid deadline [] = (True, [])"
| "healthcheck sid deadline ((t, ev) # evs) =
     (if t > deadline then (True, [])
      else case ev of
        HcStop \<Rightarrow> (False, [])
      | HcPong \<Rightarrow> healthcheck sid (t + (healthcheckInterval + healthcheckTimeout)) evs
      | HcTick \<Rightarrow> (case healthcheck sid deadline evs of (b, ps) \<Rightarrow> (b, healthcheck_ping sid # ps)))"

text \<open>What it does when the timer fires.\<close>

definition healthcheck_timeout :: "proc_os \<Rightarrow> int \<Rightarrow> ref \<Rightarrow> registry \<Rightarrow> gerror option \<times> registry" where
  "healthcheck_timeout po now r s =
     MenderShellStopById po (id_of s r) (modify r (\<lambda>x. x\<lparr>ms_expiresAt := now\<rparr>) s)"

section \<open>The index\<close>

text \<open>What the tables depend on: the id and the user of each session, which never change.\<close>

definition idx :: "registry \<Rightarrow> ref \<Rightarrow> (string \<times> string) option" where
  "idx s r = map_option (\<lambda>x. (ms_id x, ms_userId x)) (sr_heap s r)"

definition same_index :: "registry \<Rightarrow> registry \<Rightarrow> bool" where
  "same_index s s' \<longleftrightarrow> idx s' = idx s \<and> sr_map s' = sr_map s \<and> sr_by_user s' = sr_by_user s \<and>
     sr_next s' = sr_next s \<and> sr_MaxUserSessions s' = sr_MaxUserSessions s \<and>
     sr_idleTimeout s' = sr_idleTimeout s"

lemma same_index_refl [simp]: "same_index s s"
  by (simp add: same_index_def)

lemma same_index_trans: "same_index s1 s2 \<Longrightarrow> same_index s2 s3 \<Longrightarrow> same_index s1 s3"
  by (simp add: same_index_def)

lemma modify_index:
  "(\<And>x. ms_id (f x) = ms_id x \<and> ms_userId (f x) = ms_userId x) \<Longrightarrow> same_index s (modify r f s)"
  by (simp add: same_index_def idx_def modify_def fun_eq_iff option.map_comp comp_def)

lemma same_index_starts [simp]:
  "same_index s (s'\<lparr>sr_starts := n\<rparr>) = same_index s s'"
  "same_index (s\<lparr>sr_starts := n\<rparr>) s' = same_index s s'"
  by (simp_all add: same_index_def idx_def fun_eq_iff)

lemma log_calls_sel [simp]:
  "sr_heap (log_calls cs s) = sr_heap s" "sr_map (log_calls cs s) = sr_map s" "sr_by_user (log_calls cs s) = sr_by_user s"
  "sr_next (log_calls cs s) = sr_next s" "sr_MaxUserSessions (log_calls cs s) = sr_MaxUserSessions s"
  "sr_idleTimeout (log_calls cs s) = sr_idleTimeout s" "sr_starts (log_calls cs s) = sr_starts s"
  "sr_calls (log_calls cs s) = sr_calls s @ cs"
  by (simp_all add: log_calls_def)

lemma log_calls_index [simp]:
  "same_index s (log_calls cs s') = same_index s s'" "same_index (log_calls cs s) s' = same_index s s'"
  by (simp_all add: same_index_def idx_def fun_eq_iff)

lemma modify_sel [simp]:
  "sr_calls (modify r f s) = sr_calls s" "sr_starts (modify r f s) = sr_starts s"
  by (simp_all add: modify_def)

lemma StartShell_index: "StartShell po now t r s = (e, s') \<Longrightarrow> same_index s s'"
  by (auto simp: StartShell_def split: option.splits sum.splits if_splits
        intro!: same_index_trans [OF _ modify_index])

lemma StopShell_index: "StopShell po r s = (e, s') \<Longrightarrow> same_index s s'"
  by (auto simp: StopShell_def Let_def split: option.splits if_splits
        intro!: same_index_trans [OF _ modify_index])

lemma ShellCommand_index: "ShellCommand now wr data r s = Some (e, s') \<Longrightarrow> same_index s s'"
  by (auto simp: ShellCommand_def Let_def modify_index split: option.splits prod.splits if_splits)

lemma SessionResizeShell_index: "SessionResizeShell h w r s = Some s' \<Longrightarrow> same_index s s'"
  by (auto simp: SessionResizeShell_def intro!: modify_index split: option.splits)

lemma stop_sessions_index: "stop_sessions po rs err s = (x, s') \<Longrightarrow> same_index s s'"
proof (induction po rs err s arbitrary: x rule: stop_sessions.induct)
  case (2 po r rs err s)
  obtain e s1 where st: "StopShell po r s = (e, s1)" by fastforce
  note i = StopShell_index [OF st]
  from 2 st i show ?case
    by (cases e) (fastforce split: if_splits prod.splits intro: same_index_trans)+
qed simp

lemma stop_all_index: "stop_all po rs n err s = (x, s') \<Longrightarrow> same_index s s'"
proof (induction rs arbitrary: n err s)
  case (Cons r rs)
  obtain e s1 where st: "StopShell po r s = (e, s1)" by fastforce
  with Cons.prems have "\<exists>n err. stop_all po rs n err s1 = (x, s')" by (cases e) auto
  with Cons.IH have "same_index s1 s'" by blast
  with StopShell_index [OF st] show ?case by (rule same_index_trans)
qed simp

lemma remove_first_remove1: "\<forall>x \<in> set xs. P x = (x = r) \<Longrightarrow> remove_first P xs = remove1 r xs"
  by (induction xs) auto

section \<open>Well-formed registries\<close>

text \<open>
  Every id of the table is that of a session on its user's list, and every session on a list
  is in the table under its own id and belongs to the user of the list. No user is over the
  limit.
\<close>

definition wf_reg :: "registry \<Rightarrow> bool" where
  "wf_reg s \<longleftrightarrow>
     (\<forall>k r. sr_map s k = Some r \<longrightarrow>
        (\<exists>u rs. idx s r = Some (k, u) \<and> sr_by_user s u = Some rs \<and> r \<in> set rs)) \<and>
     (\<forall>u rs. sr_by_user s u = Some rs \<longrightarrow> distinct rs \<and>
        (rs = [] \<or> int (length rs) \<le> sr_MaxUserSessions s) \<and>
        (\<forall>r \<in> set rs. \<exists>k. idx s r = Some (k, u) \<and> sr_map s k = Some r)) \<and>
     (\<forall>r. idx s r \<noteq> None \<longrightarrow> r < sr_next s)"

lemma wf_same_index: "same_index s s' \<Longrightarrow> wf_reg s' = wf_reg s"
  by (simp add: same_index_def wf_reg_def)

lemma wf_empty [simp]: "wf_reg empty_registry"
  by (simp add: wf_reg_def empty_registry_def idx_def)

lemma wf_map: "wf_reg s \<Longrightarrow> sr_map s k = Some r \<Longrightarrow>
   \<exists>u rs. idx s r = Some (k, u) \<and> sr_by_user s u = Some rs \<and> r \<in> set rs"
  unfolding wf_reg_def by blast

lemma wf_user: "wf_reg s \<Longrightarrow> sr_by_user s u = Some rs \<Longrightarrow> distinct rs \<and>
   (rs = [] \<or> int (length rs) \<le> sr_MaxUserSessions s) \<and>
   (\<forall>r \<in> set rs. \<exists>k. idx s r = Some (k, u) \<and> sr_map s k = Some r)"
  unfolding wf_reg_def by blast

lemma has_id_idx: "has_id s k r \<longleftrightarrow> (\<exists>u. idx s r = Some (k, u))"
  by (auto simp: has_id_def idx_def split: option.splits)

lemma id_of_idx: "idx s r = Some (k, u) \<Longrightarrow> id_of s r = k"
  by (auto simp: id_of_def idx_def)

text \<open>Deleting a session takes it off the table and off its user's list, and nothing else.\<close>

lemma delete_wf:
  assumes wf: "wf_reg s" and k: "sr_map s k = Some r"
  obtains u rs s' where "idx s r = Some (k, u)" "sr_by_user s u = Some rs" "r \<in> set rs"
    "MenderShellDeleteById k s = (None, s')" "idx s' = idx s" "sr_heap s' = sr_heap s"
    "sr_map s' = (sr_map s)(k := None)" "sr_by_user s' = (sr_by_user s)(u \<mapsto> remove1 r rs)"
    "sr_next s' = sr_next s" "sr_MaxUserSessions s' = sr_MaxUserSessions s"
    "sr_idleTimeout s' = sr_idleTimeout s"
proof -
  from wf_map [OF wf k] obtain u rs where u: "idx s r = Some (k, u)" "sr_by_user s u = Some rs" "r \<in> set rs"
    by blast
  then obtain x where x: "sr_heap s r = Some x" "ms_id x = k" "ms_userId x = u"
    by (auto simp: idx_def)
  have "has_id s k r' \<longleftrightarrow> r' = r" if "r' \<in> set rs" for r'
    using wf_user [OF wf u(2)] that u(1) k by (fastforce simp: has_id_idx)
  then have rm: "remove_first (has_id s k) rs = remove1 r rs" and ex: "list_ex (has_id s k) rs"
    using u(3) by (auto simp: list_ex_iff intro!: remove_first_remove1)
  let ?s = "s\<lparr>sr_by_user := (sr_by_user s)(u \<mapsto> remove1 r rs), sr_map := (sr_map s)(k := None)\<rparr>"
  have "MenderShellDeleteById k s = (None, ?s)"
    using k x u(2) rm ex by (simp add: MenderShellDeleteById_def)
  from that [OF u this] show thesis by (simp add: idx_def fun_eq_iff)
qed

lemma delete_missing:
  "wf_reg s \<Longrightarrow> sr_map s k = None \<Longrightarrow>
   MenderShellDeleteById k s = (Some (Sentinel ErrSessionNotFound), s)"
  by (simp add: MenderShellDeleteById_def)

lemma delete_preserves:
  assumes "wf_reg s"
  shows "wf_reg (snd (MenderShellDeleteById k s))"
proof (cases "sr_map s k")
  case None
  with assms delete_missing show ?thesis by simp
next
  case (Some r)
  from delete_wf [OF assms Some] obtain u rs s' where d: "idx s r = Some (k, u)"
    "sr_by_user s u = Some rs" "MenderShellDeleteById k s = (None, s')" "idx s' = idx s"
    "sr_map s' = (sr_map s)(k := None)" "sr_by_user s' = (sr_by_user s)(u \<mapsto> remove1 r rs)"
    "sr_next s' = sr_next s" "sr_MaxUserSessions s' = sr_MaxUserSessions s" by metis
  note wu = wf_user [OF assms d(2)]
  have "\<exists>v ss. idx s' r' = Some (k', v) \<and> sr_by_user s' v = Some ss \<and> r' \<in> set ss"
    if k': "sr_map s' k' = Some r'" for k' r'
  proof -
    from k' d(5) have "k' \<noteq> k" "sr_map s k' = Some r'" by (auto split: if_splits)
    moreover from this(2) wf_map [OF assms] obtain v ss where
      "idx s r' = Some (k', v)" "sr_by_user s v = Some ss" "r' \<in> set ss" by blast
    ultimately show ?thesis using d wu by (cases "v = u") auto
  qed
  moreover have "distinct ss \<and> (ss = [] \<or> int (length ss) \<le> sr_MaxUserSessions s') \<and>
      (\<forall>q \<in> set ss. \<exists>j. idx s' q = Some (j, v) \<and> sr_map s' j = Some q)"
    if v: "sr_by_user s' v = Some ss" for v ss
  proof (cases "v = u")
    case True
    with v d(6) have ss: "ss = remove1 r rs" by simp
    with wu have "distinct ss" "set ss = set rs - {r}" by simp_all
    moreover have "ss = [] \<or> int (length ss) \<le> sr_MaxUserSessions s"
      using wu ss by (cases "r \<in> set rs") (auto simp: length_remove1)
    moreover have "\<exists>j. idx s q = Some (j, u) \<and> sr_map s j = Some q \<and> j \<noteq> k" if "q \<in> set rs" "q \<noteq> r" for q
      using wu that Some by fastforce
    ultimately show ?thesis unfolding d(4,5,8) True by auto
  next
    case False
    with v d(6) have ss: "sr_by_user s v = Some ss" by simp
    have "\<exists>j. idx s q = Some (j, v) \<and> sr_map s j = Some q \<and> j \<noteq> k" if "q \<in> set ss" for q
      using wf_user [OF assms ss] that d(1) False Some by fastforce
    with wf_user [OF assms ss] show ?thesis unfolding d(4,5,8) by auto
  qed
  moreover have "idx s' q \<noteq> None \<longrightarrow> q < sr_next s'" for q
    using assms d(4,7) by (simp add: wf_reg_def)
  ultimately show ?thesis using d(3) by (simp add: wf_reg_def)
qed


section \<open>Creation\<close>

lemma new_session:
  assumes "NewMenderShellSession k u a i now s = (Inr r, s')"
  shows "r = sr_next s \<and> idx s' = (idx s)(r \<mapsto> (k, u)) \<and> sr_map s' = (sr_map s)(k \<mapsto> r) \<and>
     (\<exists>rs. (sr_by_user s u = Some rs \<or> sr_by_user s u = None \<and> rs = []) \<and>
        (sr_by_user s u \<noteq> None \<longrightarrow> int (length rs) < sr_MaxUserSessions s) \<and>
        sr_by_user s' = (sr_by_user s)(u \<mapsto> rs @ [r])) \<and>
     sr_next s' = Suc r \<and> sr_MaxUserSessions s' = sr_MaxUserSessions s"
  using assms
  by (auto simp: NewMenderShellSession_def Let_def idx_def fun_eq_iff split: if_splits option.splits)

lemma new_refused:
  "NewMenderShellSession k u a i now s = (Inl e, s') \<Longrightarrow>
     s' = s \<and> e = Sentinel ErrSessionShellTooManySessionsPerUser"
  by (auto simp: NewMenderShellSession_def Let_def split: if_splits option.splits)

text \<open>The limit is a positive number: one, or what the configuration gives.\<close>

definition ok_reg :: "registry \<Rightarrow> bool" where
  "ok_reg s \<longleftrightarrow> wf_reg s \<and> 0 < sr_MaxUserSessions s"

lemma ok_same_index: "same_index s s' \<Longrightarrow> ok_reg s' = ok_reg s"
  using wf_same_index [of s s'] by (simp add: ok_reg_def same_index_def)

lemma wf_fresh: "wf_reg s \<Longrightarrow> idx s (sr_next s) = None"
  unfolding wf_reg_def by (metis less_irrefl)

lemma new_preserves:
  assumes ok: "ok_reg s" and free: "sr_map s k = None"
    and new: "NewMenderShellSession k u a i now s = (Inr r, s')"
  shows "ok_reg s'"
proof -
  from ok have wf: "wf_reg s" and mx: "0 < sr_MaxUserSessions s" by (simp_all add: ok_reg_def)
  from new_session [OF new] obtain rs where n: "r = sr_next s" "idx s' = (idx s)(r \<mapsto> (k, u))"
    "sr_map s' = (sr_map s)(k \<mapsto> r)" "sr_by_user s u = Some rs \<or> sr_by_user s u = None \<and> rs = []"
    "sr_by_user s u \<noteq> None \<longrightarrow> int (length rs) < sr_MaxUserSessions s"
    "sr_by_user s' = (sr_by_user s)(u \<mapsto> rs @ [r])" "sr_next s' = Suc r"
    "sr_MaxUserSessions s' = sr_MaxUserSessions s" by blast
  have fresh: "idx s r = None" using wf_fresh [OF wf] n(1) by simp
  have rs: "distinct rs" "\<forall>q \<in> set rs. \<exists>j. idx s q = Some (j, u) \<and> sr_map s j = Some q" "r \<notin> set rs"
    using n(4) wf_user [OF wf, of u rs] fresh by fastforce+
  have "\<exists>v ss. idx s' q = Some (j, v) \<and> sr_by_user s' v = Some ss \<and> q \<in> set ss"
    if j: "sr_map s' j = Some q" for j q
  proof (cases "j = k")
    case True
    with j n show ?thesis by auto
  next
    case False
    with j n(3) wf_map [OF wf] obtain v ss where "idx s q = Some (j, v)" "sr_by_user s v = Some ss" "q \<in> set ss"
      by fastforce
    with n fresh show ?thesis by (cases "v = u") auto
  qed
  moreover have "distinct ss \<and> (ss = [] \<or> int (length ss) \<le> sr_MaxUserSessions s') \<and>
      (\<forall>q \<in> set ss. \<exists>j. idx s' q = Some (j, v) \<and> sr_map s' j = Some q)"
    if v: "sr_by_user s' v = Some ss" for v ss
  proof (cases "v = u")
    case True
    with v n(6) have ss: "ss = rs @ [r]" by simp
    have "int (length ss) \<le> sr_MaxUserSessions s" using n(4,5) mx ss by auto
    moreover have "\<exists>j. idx s' q = Some (j, u) \<and> sr_map s' j = Some q" if "q \<in> set rs" for q
      using that rs(2,3) n(2,3) free by fastforce
    ultimately show ?thesis using rs n(2,3,8) ss True by auto
  next
    case False
    with v n(6) have ss: "sr_by_user s v = Some ss" by simp
    have "\<exists>j. idx s' q = Some (j, v) \<and> sr_map s' j = Some q" if "q \<in> set ss" for q
    proof -
      from wf_user [OF wf ss] that obtain j where "idx s q = Some (j, v)" "sr_map s j = Some q" by blast
      with n(2,3) fresh free show ?thesis by auto
    qed
    with wf_user [OF wf ss] n(8) show ?thesis by auto
  qed
  moreover have "idx s' q \<noteq> None \<longrightarrow> q < sr_next s'" for q
    using wf n(1,2,7) by (auto simp: wf_reg_def less_Suc_eq)
  ultimately show ?thesis using mx n(8) by (simp add: ok_reg_def wf_reg_def)
qed

lemma delete_ok: "ok_reg s \<Longrightarrow> ok_reg (snd (MenderShellDeleteById k s))"
  using delete_preserves [of s k]
  by (auto simp: ok_reg_def MenderShellDeleteById_def Let_def split: option.splits)

text \<open>The registry is a table of sessions by id, with creation under a limit.\<close>

interpretation reg: growing_store MenderShellSessionGetById
  "\<lambda>k s. snd (MenderShellDeleteById k s)" ok_reg
  "\<lambda>k (u, a, i, now) s. NewMenderShellSession k u a i now s"
proof unfold_locales
  fix s k
  assume ok: "ok_reg s"
  then have wf: "wf_reg s" by (simp add: ok_reg_def)
  show "ok_reg (snd (MenderShellDeleteById k s))" using ok by (rule delete_ok)
  show "MenderShellSessionGetById (snd (MenderShellDeleteById k s)) = (MenderShellSessionGetById s)(k := None)"
  proof (cases "sr_map s k")
    case None
    with delete_missing [OF wf] show ?thesis by (auto simp: MenderShellSessionGetById_def)
  next
    case (Some r)
    then show ?thesis
      by (rule delete_wf [OF wf]) (simp add: MenderShellSessionGetById_def fun_eq_iff)
  qed
next
  fix s k and x :: "string \<times> int \<times> int \<times> int" and v s'
  obtain u a i now where x: "x = (u, a, i, now)" by (rule prod_cases4)
  assume "ok_reg s" "MenderShellSessionGetById s k = None"
    "(case x of (u, a, i, now) \<Rightarrow> NewMenderShellSession k u a i now) s = (Inr v, s')"
  then show "ok_reg s' \<and> MenderShellSessionGetById s' = (MenderShellSessionGetById s)(k \<mapsto> v)"
    using new_preserves [of s k u a i now v s'] new_session [of k u a i now s v s']
    by (auto simp: x MenderShellSessionGetById_def fun_eq_iff)
next
  fix s k and x :: "string \<times> int \<times> int \<times> int" and e s'
  obtain u a i now where x: "x = (u, a, i, now)" by (rule prod_cases4)
  assume "ok_reg s" "(case x of (u, a, i, now) \<Rightarrow> NewMenderShellSession k u a i now) s = (Inl e, s')"
  then show "ok_reg s' \<and> MenderShellSessionGetById s' = MenderShellSessionGetById s"
    using new_refused [of k u a i now s e s'] by (auto simp: x)
qed

section \<open>Ending sessions\<close>

text \<open>A session that is not marked as having a shell. The mark says nothing of the process.\<close>

definition quiet :: "registry \<Rightarrow> ref \<Rightarrow> bool" where
  "quiet s r \<longleftrightarrow> (case sr_heap s r of None \<Rightarrow> True
     | Some x \<Rightarrow> ms_status x \<noteq> ActiveSession \<and> ms_status x \<noteq> HangedSession)"

lemma StopShell_quiet:
  "StopShell po r s = (e, s') \<Longrightarrow> quiet s' r \<and> (quiet s q \<longrightarrow> quiet s' q)"
  by (auto simp: StopShell_def quiet_def modify_def Let_def split: option.splits if_splits)

lemma stop_all_quiet:
  "stop_all po rs n err s = (x, s') \<Longrightarrow> (\<forall>r \<in> set rs. quiet s' r) \<and> (quiet s q \<longrightarrow> quiet s' q)"
proof (induction rs arbitrary: n err s q)
  case (Cons r rs)
  obtain e s1 where st: "StopShell po r s = (e, s1)" by fastforce
  with Cons.prems obtain n err where run: "stop_all po rs n err s1 = (x, s')" by (cases e) auto
  show ?case
    using Cons.IH [OF run, of r] Cons.IH [OF run, of q] StopShell_quiet [OF st] by auto
qed simp

text \<open>What stopping a session's shell does to its process: it is looked up, told to end, told again,
  killed and waited for, unless it is not found or refuses the first signal; and nothing when the
  session is not marked as having a shell.\<close>

definition stop_calls :: "proc_os \<Rightarrow> int \<Rightarrow> proc_call list" where
  "stop_calls po pid =
     (if po_FindProcess po pid \<noteq> None then [FindProc pid]
      else if po_Signal po pid \<noteq> None then [FindProc pid, SendInt pid]
      else [FindProc pid, SendInt pid, SendTerm pid, SendKill pid, AwaitProc pid])"

definition calls_to_stop :: "proc_os \<Rightarrow> registry \<Rightarrow> ref \<Rightarrow> proc_call list" where
  "calls_to_stop po s r =
     (case sr_heap s r of
        None \<Rightarrow> []
      | Some x \<Rightarrow> if ms_status x = ActiveSession \<or> ms_status x = HangedSession then stop_calls po (ms_pid x) else [])"

lemma StopShell_other: "StopShell po r s = (e, s') \<Longrightarrow> q \<noteq> r \<Longrightarrow> sr_heap s' q = sr_heap s q"
  by (auto simp: StopShell_def modify_def Let_def split: option.splits if_splits)

lemma StopShell_calls:
  assumes "StopShell po r s = (e, s')"
  shows "sr_calls s' = sr_calls s @ calls_to_stop po s r"
proof (cases "sr_heap s r")
  case (Some x)
  show ?thesis
  proof (cases "ms_status x = ActiveSession \<or> ms_status x = HangedSession")
    case True
    with Some assms show ?thesis
      by (cases "po_FindProcess po (ms_pid x)"; cases "po_Signal po (ms_pid x)")
         (auto simp: StopShell_def calls_to_stop_def stop_calls_def TerminateAndWait_calls_def Let_def)
  qed (use Some assms in \<open>simp add: StopShell_def calls_to_stop_def\<close>)
qed (use assms in \<open>simp add: StopShell_def calls_to_stop_def\<close>)

lemma StopShell_calls_other:
  "StopShell po r s = (e, s') \<Longrightarrow> q \<noteq> r \<Longrightarrow> calls_to_stop po s' q = calls_to_stop po s q"
  by (simp add: calls_to_stop_def StopShell_other)

lemma stop_all_calls:
  "stop_all po rs n err s = (x, s') \<Longrightarrow> distinct rs \<Longrightarrow> sr_calls s' = sr_calls s @ concat (map (calls_to_stop po s) rs)"
proof (induction rs arbitrary: n err s)
  case (Cons r rs)
  obtain e s1 where st: "StopShell po r s = (e, s1)" by fastforce
  with Cons.prems(1) obtain n err where run: "stop_all po rs n err s1 = (x, s')" by (cases e) auto
  have "map (calls_to_stop po s1) rs = map (calls_to_stop po s) rs"
    using Cons.prems(2) by (intro map_cong StopShell_calls_other [OF st]) auto
  with Cons.IH [OF run] Cons.prems(2) StopShell_calls [OF st] show ?case by simp
qed simp

lemma delete_all_calls: "delete_all rs n left err s = (x, s') \<Longrightarrow> sr_calls s' = sr_calls s"
proof (induction rs arbitrary: n left err s)
  case (Cons r rs)
  obtain e s1 where d: "MenderShellDeleteById (id_of s r) s = (e, s1)" by fastforce
  then have "sr_calls s1 = sr_calls s" by (auto simp: MenderShellDeleteById_def Let_def split: option.splits)
  with Cons d show ?case by (cases e) auto
qed simp

text \<open>Removing sessions of the table one after the other.\<close>

definition without :: "ref list \<Rightarrow> registry \<Rightarrow> string \<Rightarrow> ref option" where
  "without rs s k = (case sr_map s k of None \<Rightarrow> None | Some r \<Rightarrow> if r \<in> set rs then None else Some r)"

lemma delete_all_ok:
  assumes "ok_reg s" "distinct rs" "set rs \<subseteq> ran (sr_map s)"
  shows "\<exists>s'. delete_all rs n left err s = ((n + length rs, left, err), s') \<and> ok_reg s' \<and>
     sr_map s' = without rs s \<and> sr_heap s' = sr_heap s"
  using assms
proof (induction rs arbitrary: n s)
  case Nil
  then show ?case by (auto simp: without_def fun_eq_iff split: option.splits)
next
  case (Cons r rs)
  from Cons.prems(3) obtain k where k: "sr_map s k = Some r" by (auto simp: ran_def)
  have wf: "wf_reg s" using Cons.prems(1) by (simp add: ok_reg_def)
  from delete_wf [OF wf k] obtain u s1 where d: "idx s r = Some (k, u)"
    "MenderShellDeleteById k s = (None, s1)" "sr_map s1 = (sr_map s)(k := None)" "sr_heap s1 = sr_heap s"
    by metis
  have uniq: "j = k" if "sr_map s j = Some r" for j
    using wf_map [OF wf that] d(1) by auto
  have ok1: "ok_reg s1" using delete_ok [OF Cons.prems(1), of k] d(2) by simp
  have sub: "set rs \<subseteq> ran (sr_map s1)"
  proof
    fix q assume q: "q \<in> set rs"
    then have "q \<in> ran (sr_map s)" using Cons.prems(3) by auto
    then obtain j where j: "sr_map s j = Some q" by (auto simp: ran_def)
    moreover have "j \<noteq> k" using j q Cons.prems(2) k by auto
    ultimately have "sr_map s1 j = Some q" using d(3) by simp
    then show "q \<in> ran (sr_map s1)" by (rule ranI)
  qed
  from Cons.prems(2) have "distinct rs" by simp
  from Cons.IH [OF ok1 this sub, of "Suc n"] obtain s' where ih: "delete_all rs (Suc n) left err s1 = ((Suc n + length rs, left, err), s')"
    "ok_reg s'" "sr_map s' = without rs s1" "sr_heap s' = sr_heap s1"
    by blast
  have "without rs s1 = without (r # rs) s"
  proof (rule ext)
    fix j
    have "sr_map s j = Some r \<longleftrightarrow> j = k" using uniq k by blast
    then show "without rs s1 j = without (r # rs) s j"
      by (cases "sr_map s j") (auto simp: without_def d(3))
  qed
  moreover have "delete_all (r # rs) n left err s = ((n + length (r # rs), left, err), s')"
    using ih(1) d(2) id_of_idx [OF d(1)] by simp
  ultimately show ?case using ih(2-4) d(4) by (intro exI [of _ s']) simp
qed


section \<open>The life of the registry\<close>

text \<open>
  One operation of the registry, by whichever goroutine: the mutex makes each an atomic step.
  A session is created only under an id that is not in the table, as the daemon does.
\<close>

inductive reg_step :: "proc_os \<Rightarrow> registry \<Rightarrow> registry \<Rightarrow> bool" for po :: proc_os where
  create: "sr_map s k = None \<Longrightarrow> reg_step po s (snd (NewMenderShellSession k u a i now s))"
| start: "reg_step po s (snd (StartShell po now t r s))"
| command: "ShellCommand now wr b r s = Some (e, s') \<Longrightarrow> reg_step po s s'"
| pong: "reg_step po s (HealthcheckPong r s)"
| resize: "SessionResizeShell h w r s = Some s' \<Longrightarrow> reg_step po s s'"
| stop: "reg_step po s (snd (StopShell po r s))"
| delete: "reg_step po s (snd (MenderShellDeleteById k s))"
| stop_by_id: "reg_step po s (snd (MenderShellStopById po k s))"
| stop_by_user: "reg_step po s (snd (MenderShellStopByUserId po u s))"
| terminate_all: "walks s order \<Longrightarrow> reg_step po s (snd (MenderSessionTerminateAll po order s))"
| terminate_expired:
    "walks s order \<Longrightarrow> reg_step po s (snd (MenderSessionTerminateExpired po now order s))"
| timeout: "reg_step po s (snd (healthcheck_timeout po now r s))"

inductive_simps reg_step_simps: "reg_step po s s'"

lemma ok_modify:
  "(\<And>x. ms_id (f x) = ms_id x \<and> ms_userId (f x) = ms_userId x) \<Longrightarrow> ok_reg (modify r f s) = ok_reg s"
  by (rule ok_same_index [OF modify_index])

lemma walks_ran: "walks s order \<Longrightarrow> distinct order \<and> set order \<subseteq> ran (sr_map s)"
  by (simp add: walks_def)

lemma same_ran: "same_index s s' \<Longrightarrow> sr_map s' = sr_map s"
  by (simp add: same_index_def)

lemma stop_by_id_ok: "ok_reg s \<Longrightarrow> ok_reg (snd (MenderShellStopById po k s))"
proof (cases "sr_map s k")
  case (Some r)
  assume ok: "ok_reg s"
  obtain e s1 where st: "StopShell po r s = (e, s1)" by fastforce
  have ok1: "ok_reg s1" using ok ok_same_index [OF StopShell_index [OF st]] by simp
  then show ?thesis
    using Some st ok delete_ok [OF ok1, of k]
    by (cases e) (simp_all add: MenderShellStopById_def split: option.splits)
qed (simp add: MenderShellStopById_def)

lemma fold_del_ref_ok: "ok_reg s \<Longrightarrow> ok_reg (fold del_ref rs s)"
  by (induction rs arbitrary: s) (simp_all add: del_ref_def delete_ok)

lemma stop_by_user_ok: "ok_reg s \<Longrightarrow> ok_reg (snd (MenderShellStopByUserId po u s))"
proof -
  assume ok: "ok_reg s"
  have "ok_reg (fold del_ref st s1)" if "stop_sessions po rs None s = ((st, err), s1)" for rs st err s1
    using ok ok_same_index [OF stop_sessions_index [OF that]] by (simp add: fold_del_ref_ok)
  with ok show ?thesis
    by (auto simp: MenderShellStopByUserId_def Let_def split: prod.splits)
qed

lemma delete_all_indep: "snd (delete_all rs n l err s) = snd (delete_all rs n' l' err' s)"
proof (induction rs arbitrary: n l err s n' l' err')
  case (Cons r rs)
  obtain e s1 where d: "MenderShellDeleteById (id_of s r) s = (e, s1)" by fastforce
  show ?case
  proof (cases e)
    case None
    with d show ?thesis using Cons [of "Suc n" l err s1 "Suc n'" l' err'] by simp
  next
    case (Some x)
    with d show ?thesis using Cons [of n "Suc l" e s1 n' "Suc l'" e] by simp
  qed
qed simp

text \<open>Both ways of ending many sessions: the shells of the given ones are stopped, then the
  sessions themselves are removed.\<close>

lemma end_sessions:
  assumes ok: "ok_reg s" and rs: "distinct rs" "set rs \<subseteq> ran (sr_map s)"
  obtains n err s1 s2 where "stop_all po rs 0 None s = ((n, err), s1)" "same_index s s1"
    "\<And>l. delete_all rs 0 l err s1 = ((length rs, l, err), s2)" "ok_reg s2" "sr_map s2 = without rs s"
    "sr_heap s2 = sr_heap s1" "\<forall>r \<in> set rs. quiet s2 r"
proof -
  obtain x s1 where "stop_all po rs 0 None s = (x, s1)" by (rule prod.exhaust)
  moreover obtain n err where "x = (n, err)" by (rule prod.exhaust)
  ultimately have st: "stop_all po rs 0 None s = ((n, err), s1)" by simp
  have i: "same_index s s1" using stop_all_index [OF st] .
  have ok1: "ok_reg s1" and rs1: "set rs \<subseteq> ran (sr_map s1)"
    using ok_same_index [OF i] same_ran [OF i] ok rs(2) by simp_all
  have w: "without rs s1 = without rs s"
    by (simp add: fun_eq_iff without_def same_ran [OF i])
  let ?s2 = "snd (delete_all rs 0 0 err s1)"
  have d: "delete_all rs 0 l err s1 = ((length rs, l, err), snd (delete_all rs 0 l err s1)) \<and>
      ok_reg (snd (delete_all rs 0 l err s1)) \<and> sr_map (snd (delete_all rs 0 l err s1)) = without rs s1 \<and>
      sr_heap (snd (delete_all rs 0 l err s1)) = sr_heap s1" for l
    using delete_all_ok [OF ok1 rs(1) rs1, of 0 l err] by auto
  have q: "\<forall>r \<in> set rs. quiet ?s2 r"
    using stop_all_quiet [OF st] d [of 0] by (simp add: quiet_def)
  have dd: "delete_all rs 0 l err s1 = ((length rs, l, err), ?s2)" for l
    using d [of l] delete_all_indep [of rs 0 l err s1 0 0 err] by metis
  show thesis
    by (rule that [OF st i dd]) (use d [of 0] w q in simp_all)
qed

lemma walks_filter: "walks s order \<Longrightarrow> distinct (filter P order) \<and> set (filter P order) \<subseteq> ran (sr_map s)"
  by (auto simp: walks_def)

lemma terminate_all_ok: "ok_reg s \<Longrightarrow> walks s order \<Longrightarrow> ok_reg (snd (MenderSessionTerminateAll po order s))"
  using walks_ran [of s order]
  by (auto elim!: end_sessions [of s order po] simp: MenderSessionTerminateAll_def)

lemma terminate_expired_ok:
  assumes ok: "ok_reg s" and w: "walks s order"
  shows "ok_reg (snd (MenderSessionTerminateExpired po now order s))"
proof -
  let ?P = "\<lambda>r. case sr_heap s r of None \<Rightarrow> False | Some x \<Rightarrow> IsExpired now s x"
  show ?thesis
    by (rule end_sessions [OF ok conjunct1 [OF walks_filter [OF w, of ?P]] conjunct2 [OF walks_filter [OF w, of ?P]], of po])
       (simp add: MenderSessionTerminateExpired_def)
qed

lemma reg_step_ok: "reg_step po s s' \<Longrightarrow> ok_reg s \<Longrightarrow> ok_reg s'"
proof (induction rule: reg_step.induct)
  case (create s k u a i now)
  show ?case
    using reg.put_inv [OF create(2), of k "(u, a, i, now)"] create(1)
    by (simp add: MenderShellSessionGetById_def)
next
  case (start s now t r)
  then show ?case using ok_same_index [OF StartShell_index [OF prod.collapse [symmetric]]] by blast
next
  case (command now wr b r s e s')
  then show ?case using ok_same_index [OF ShellCommand_index] by blast
next
  case (pong s r)
  then show ?case
    using ok_modify [of "\<lambda>x. x\<lparr>ms_pong := True\<rparr>" r s] by (simp add: HealthcheckPong_def)
next
  case (resize h w r s s')
  then show ?case using ok_same_index [OF SessionResizeShell_index] by blast
next
  case (stop s r)
  then show ?case using ok_same_index [OF StopShell_index [OF prod.collapse [symmetric]]] by blast
next
  case (timeout s now r)
  then have "ok_reg (modify r (\<lambda>x. x\<lparr>ms_expiresAt := now\<rparr>) s)"
    using ok_modify [of "\<lambda>x. x\<lparr>ms_expiresAt := now\<rparr>" r s] by simp
  then show ?case unfolding healthcheck_timeout_def by (rule stop_by_id_ok)
qed (simp_all add: delete_ok stop_by_id_ok stop_by_user_ok terminate_all_ok terminate_expired_ok)

text \<open>The ids under which a user has a session.\<close>

definition user_sessions :: "registry \<Rightarrow> string \<Rightarrow> string set" where
  "user_sessions s u = {k. \<exists>r. sr_map s k = Some r \<and> idx s r = Some (k, u)}"

lemma user_sessions_limit:
  assumes "ok_reg s"
  shows "int (card (user_sessions s u)) \<le> sr_MaxUserSessions s"
proof -
  have wf: "wf_reg s" and mx: "0 < sr_MaxUserSessions s" using assms by (simp_all add: ok_reg_def)
  show ?thesis
  proof (cases "user_sessions s u = {}")
    case False
    then obtain k r where "sr_map s k = Some r" "idx s r = Some (k, u)" by (auto simp: user_sessions_def)
    with wf_map [OF wf, of k r] obtain rs where rs: "sr_by_user s u = Some rs" "r \<in> set rs" by auto
    have "user_sessions s u \<subseteq> id_of s ` set rs"
    proof
      fix j assume "j \<in> user_sessions s u"
      then obtain q where q: "sr_map s j = Some q" "idx s q = Some (j, u)" by (auto simp: user_sessions_def)
      with wf_map [OF wf, of j q] rs(1) have "q \<in> set rs" by auto
      then show "j \<in> id_of s ` set rs" using id_of_idx [OF q(2)] by blast
    qed
    then have "card (user_sessions s u) \<le> length rs"
      using card_mono [OF finite_imageI [OF finite_set]] card_image_le [OF finite_set, of "id_of s" rs]
        card_length [of rs] by (meson le_trans)
    moreover have "rs \<noteq> []" using rs(2) by auto
    ultimately show ?thesis using wf_user [OF wf rs(1)] by auto
  qed (use mx in simp)
qed


section \<open>Properties of the registry\<close>

lemma reg_reach_ok: "(reg_step po)\<^sup>*\<^sup>* s s' \<Longrightarrow> ok_reg s \<Longrightarrow> ok_reg s'"
  by (induction rule: rtranclp_induct) (auto intro: reg_step_ok)

text \<open>
  C16. The tables always agree, and no user gets past the limit. Whatever sequence of
  operations the daemon's goroutines perform from the start, every id is that of a session on
  its user's list, every session on a list is in the table under its own id, and no user has
  more sessions than configured.
\<close>

theorem registry_invariant:
  assumes "(reg_step po)\<^sup>*\<^sup>* (empty_registry\<lparr>sr_MaxUserSessions := mx\<rparr>) s" and "0 < mx"
  shows "wf_reg s \<and> int (card (user_sessions s u)) \<le> sr_MaxUserSessions s"
proof -
  have "ok_reg (empty_registry\<lparr>sr_MaxUserSessions := mx\<rparr>)"
    using assms(2) by (simp add: ok_reg_def wf_reg_def empty_registry_def idx_def)
  with reg_reach_ok [OF assms(1)] have "ok_reg s" .
  with user_sessions_limit [OF this, of u] show ?thesis by (simp add: ok_reg_def)
qed

text \<open>
  Creating a session and deleting it by its id leaves the table of sessions as it was,
  whether or not the creation was refused.
\<close>

theorem create_delete_roundtrip:
  assumes "ok_reg s" and "MenderShellSessionGetById s k = None"
  shows "MenderShellSessionGetById (snd (MenderShellDeleteById k
           (snd (NewMenderShellSession k u a i now s)))) = MenderShellSessionGetById s"
  using reg.put_del [OF assms, of "(u, a, i, now)"] by simp

lemma walks_card: "wf_reg s \<Longrightarrow> walks s order \<Longrightarrow> length order = card (dom (sr_map s))"
proof -
  assume wf: "wf_reg s" and w: "walks s order"
  have "inj_on (\<lambda>k. the (sr_map s k)) (dom (sr_map s))"
  proof (rule inj_onI)
    fix j k assume "j \<in> dom (sr_map s)" "k \<in> dom (sr_map s)" "the (sr_map s j) = the (sr_map s k)"
    then obtain r where "sr_map s j = Some r" "sr_map s k = Some r" by auto
    with wf_map [OF wf, of j r] wf_map [OF wf, of k r] show "j = k" by auto
  qed
  moreover have "(\<lambda>k. the (sr_map s k)) ` dom (sr_map s) = ran (sr_map s)"
    by (force simp: ran_def dom_def image_iff)
  ultimately have "card (dom (sr_map s)) = card (ran (sr_map s))" by (metis card_image)
  with w distinct_card [of order] show ?thesis by (simp add: walks_def)
qed

text \<open>Whatever the host answers about the processes, terminating all sessions empties the table,
  counts each of its sessions, leaves none of them marked as having a shell, and does to the
  processes of those that were what stopping a shell does.\<close>

lemma end_all_sessions:
  assumes "ok_reg s" and "walks s order"
    and "MenderSessionTerminateAll po order s = ((shells, sessions, err), s')"
  shows "MenderShellSessionGetCount s' = 0 \<and> (\<forall>k. MenderShellSessionGetById s' k = None) \<and>
     sessions = MenderShellSessionGetCount s \<and> (\<forall>r \<in> set order. quiet s' r) \<and>
     sr_calls s' = sr_calls s @ concat (map (calls_to_stop po s) order)"
proof -
  obtain x s1 where st: "stop_all po order 0 None s = (x, s1)" by fastforce
  have calls: "sr_calls s' = sr_calls s @ concat (map (calls_to_stop po s) order)"
    using assms(3) st stop_all_calls [OF st] assms(2)
    by (cases x) (auto simp: MenderSessionTerminateAll_def walks_def split: prod.splits dest!: delete_all_calls)
  have w: "without order s = Map.empty"
    using assms(2) by (auto simp: without_def walks_def ran_def fun_eq_iff split: option.splits)
  obtain n e s1 s2 where t: "stop_all po order 0 None s = ((n, e), s1)"
    "\<And>l. delete_all order 0 l e s1 = ((length order, l, e), s2)"
    "sr_map s2 = without order s" "\<forall>r \<in> set order. quiet s2 r"
    by (rule end_sessions [OF assms(1), of order po]) (use walks_ran [OF assms(2)] in auto)
  then have "s' = s2" "sessions = length order"
    using assms(3) by (simp_all add: MenderSessionTerminateAll_def)
  moreover have "wf_reg s" using assms(1) by (simp add: ok_reg_def)
  ultimately show ?thesis
    using t w walks_card [OF _ assms(2)] calls
    by (simp add: MenderShellSessionGetById_def MenderShellSessionGetCount_def)
qed

lemma stop_all_other:
  "stop_all po rs n err s = (x, s') \<Longrightarrow> q \<notin> set rs \<Longrightarrow> sr_heap s' q = sr_heap s q"
proof (induction rs arbitrary: n err s)
  case (Cons r rs)
  obtain e s1 where st: "StopShell po r s = (e, s1)" by fastforce
  with Cons.prems(1) obtain n err where run: "stop_all po rs n err s1 = (x, s')" by (cases e) auto
  show ?case using Cons.IH [OF run] StopShell_other [OF st] Cons.prems(2) by simp
qed simp

text \<open>
  C34. The sweep removes exactly the expired sessions: afterwards the table holds those that
  had not expired, each with its state untouched, none of the expired is left, and the count
  is theirs.
\<close>

theorem sweep_exact:
  assumes "ok_reg s" and "walks s order"
    and "MenderSessionTerminateExpired po now order s = ((shells, sessions, left, err), s')"
  shows "(\<forall>k. MenderShellSessionGetById s' k =
       (case Option.bind (MenderShellSessionGetById s k) (sr_heap s) of
          None \<Rightarrow> None | Some x \<Rightarrow> if IsExpired now s x then None else MenderShellSessionGetById s k)) \<and>
     left = 0 \<and> (\<forall>k r. MenderShellSessionGetById s' k = Some r \<longrightarrow> sr_heap s' r = sr_heap s r) \<and>
     sessions = length (filter (\<lambda>r. case sr_heap s r of None \<Rightarrow> False | Some x \<Rightarrow> IsExpired now s x) order)"
proof -
  define rs where "rs = filter (\<lambda>r. case sr_heap s r of None \<Rightarrow> False | Some x \<Rightarrow> IsExpired now s x) order"
  have rs: "distinct rs" "set rs \<subseteq> ran (sr_map s)"
    using walks_filter [OF assms(2)] by (simp_all add: rs_def)
  have wf: "wf_reg s" using assms(1) by (simp add: ok_reg_def)
  obtain n e s1 s2 where t: "stop_all po rs 0 None s = ((n, e), s1)"
    "\<And>l. delete_all rs 0 l e s1 = ((length rs, l, e), s2)"
    "sr_map s2 = without rs s" "sr_heap s2 = sr_heap s1"
    by (rule end_sessions [OF assms(1) rs, of po]) auto
  then have s': "s' = s2" "sessions = length rs" "left = 0"
    using assms(3) by (simp_all add: MenderSessionTerminateExpired_def rs_def)
  have live: "\<exists>x. sr_heap s r = Some x \<and> (r \<in> set rs \<longleftrightarrow> IsExpired now s x)" if "sr_map s k = Some r" for k r
    using that wf_map [OF wf that] assms(2)
    by (auto simp: rs_def idx_def walks_def ran_def split: option.splits)
  have "without rs s k = (case Option.bind (sr_map s k) (sr_heap s) of
      None \<Rightarrow> None | Some x \<Rightarrow> if IsExpired now s x then None else sr_map s k)" for k
    using live [of k] by (cases "sr_map s k") (auto simp: without_def)
  moreover have "sr_heap s' r = sr_heap s r" if "without rs s k = Some r" for k r
    using stop_all_other [OF t(1), of r] that t(4) s'(1)
    by (simp add: without_def split: option.splits if_splits)
  ultimately show ?thesis
    unfolding MenderShellSessionGetById_def using t(3) s' by (simp add: rs_def)
qed

text \<open>A client that answers every ping: the routine's ticker fires every 60 seconds, and the
  pong follows after \<open>d\<close>.\<close>

fun answered :: "int \<Rightarrow> int list \<Rightarrow> (int \<times> hc_ev) list" where
  "answered t [] = [(t + healthcheckInterval, HcStop)]"
| "answered t (d # ds) = (t + healthcheckInterval, HcTick) # (t + healthcheckInterval + d, HcPong)
     # answered (t + healthcheckInterval) ds"

lemmas hc_defs = healthcheckInterval_def healthcheckTimeout_def

lemma healthcheck_answered:
  "\<forall>d \<in> set ds. 0 \<le> d \<and> d \<le> healthcheckTimeout \<Longrightarrow>
   t + (healthcheckInterval + healthcheckTimeout) \<le> deadline \<Longrightarrow>
   healthcheck sid deadline (answered t ds) = (False, replicate (length ds) (healthcheck_ping sid))"
proof (induction ds arbitrary: t deadline)
  case (Cons d ds)
  have "healthcheck sid (t + healthcheckInterval + d + (healthcheckInterval + healthcheckTimeout))
      (answered (t + healthcheckInterval) ds) = (False, replicate (length ds) (healthcheck_ping sid))"
    by (rule Cons.IH) (use Cons.prems in simp_all)
  with Cons.prems show ?case by (simp add: hc_defs)
qed (simp add: hc_defs)

lemma healthcheck_silent:
  "list_all (\<lambda>(t, ev). ev = HcTick \<and> t \<le> deadline) xs \<Longrightarrow> deadline < t' \<Longrightarrow>
   healthcheck sid deadline (xs @ (t', ev) # ys) = (True, replicate (length xs) (healthcheck_ping sid))"
  by (induction xs) auto


section \<open>The properties at concrete inputs\<close>

text \<open>A host on which every call on a process succeeds.\<close>

definition sample_po :: proc_os where
  "sample_po = \<lparr>po_CurrentUid = Inr ''1000'', po_Stat = (\<lambda>_. None), po_Start = (\<lambda>k c. Inr (int k + 100)),
     po_FindProcess = (\<lambda>_. None), po_Signal = (\<lambda>_. None), po_SignalZero = (\<lambda>_. None),
     po_Wait = (\<lambda>_. Some None)\<rparr>"

definition one_session :: registry where
  "one_session = snd (NewMenderShellSession ''s1'' ''u1'' 0 0 1000 empty_registry)"

lemma one_session_step: "reg_step sample_po empty_registry one_session"
  unfolding one_session_def by (rule reg_step.create) (simp add: empty_registry_def)

lemma one_session_map: "sr_map one_session = [''s1'' \<mapsto> 0]"
  by (simp add: one_session_def NewMenderShellSession_def empty_registry_def Let_def)

lemma one_session_ok: "ok_reg one_session"
  by (rule reg_step_ok [OF one_session_step]) (simp add: ok_reg_def, simp add: empty_registry_def)

lemma one_session_walk: "walks one_session [0]"
  by (simp add: walks_def one_session_map)

theorem registry_invariant_witness:
  "wf_reg one_session \<and> int (card (user_sessions one_session ''u1'')) \<le> 1"
proof -
  have "(reg_step sample_po)\<^sup>*\<^sup>* (empty_registry\<lparr>sr_MaxUserSessions := 1\<rparr>) one_session"
    using one_session_step by (simp add: empty_registry_def)
  from registry_invariant [OF this, of "''u1''"] show ?thesis
    by (simp add: one_session_def NewMenderShellSession_def empty_registry_def Let_def)
qed

theorem create_delete_roundtrip_witness:
  "MenderShellSessionGetById (snd (MenderShellDeleteById ''s2''
     (snd (NewMenderShellSession ''s2'' ''u2'' 0 0 5 one_session)))) = MenderShellSessionGetById one_session"
  by (rule create_delete_roundtrip [OF one_session_ok])
     (simp add: MenderShellSessionGetById_def one_session_map)

theorem sweep_exact_witness:
  "\<exists>shells sessions left err s'.
     MenderSessionTerminateExpired sample_po (2000 * 1000000000) [0] one_session =
       ((shells, sessions, left, err), s') \<and> left = 0 \<and> MenderShellSessionGetById s' ''s1'' = None"
proof -
  obtain shells sessions left err s' where r:
    "MenderSessionTerminateExpired sample_po (2000 * 1000000000) [0] one_session =
       ((shells, sessions, left, err), s')" by (metis prod.exhaust)
  have "sr_heap one_session 0 \<noteq> None" "IsExpired (2000 * 1000000000) one_session (the (sr_heap one_session 0))"
    by (simp_all add: one_session_def NewMenderShellSession_def empty_registry_def Let_def IsExpired_def
        NoExpirationTimeout_def defaultSessionExpiredTimeout_def)
  with sweep_exact [OF one_session_ok one_session_walk r] r show ?thesis
    by (auto simp: MenderShellSessionGetById_def [abs_def] one_session_map)
qed



end
