(* ===== verification/Utils.thy ===== *)
theory Utils
  imports WsProtocol "HOL-Library.Sublist"
begin

text \<open>
  Package \<open>utils\<close> (\<open>numbers.go\<close>, \<open>fs.go\<close>) and the part of Go's \<open>path\<close> package the code
  calls. What the operating system answers to a query (\<open>os.Stat\<close>, \<open>user.LookupId\<close>, ...)
  is an argument: a record of functions, so that every theorem holds for every host.
\<close>

unbundle bit_operations_syntax

section \<open>Numbers of unknown type (utils/numbers.go)\<close>

text \<open>The conversions \<open>int64(n)\<close>: signed types extend the sign, unsigned ones are
  reinterpreted; anything that is not an integer gives \<open>(0, false)\<close>.\<close>

fun Num64 :: "iface \<Rightarrow> int \<times> bool" where
  "Num64 (IfInt n) = (sint n, True)"
| "Num64 (IfInt8 n) = (sint n, True)"
| "Num64 (IfInt16 n) = (sint n, True)"
| "Num64 (IfInt32 n) = (sint n, True)"
| "Num64 (IfInt64 n) = (sint n, True)"
| "Num64 (IfUint n) = (i64 (uint n), True)"
| "Num64 (IfUintptr n) = (i64 (uint n), True)"
| "Num64 (IfUint8 n) = (i64 (uint n), True)"
| "Num64 (IfUint16 n) = (i64 (uint n), True)"
| "Num64 (IfUint32 n) = (i64 (uint n), True)"
| "Num64 (IfUint64 n) = (i64 (uint n), True)"
| "Num64 _ = (0, False)"

text \<open>The mathematical value of an integer of any dynamic type.\<close>

fun iface_int :: "iface \<Rightarrow> int option" where
  "iface_int (IfInt n) = Some (sint n)"
| "iface_int (IfInt8 n) = Some (sint n)"
| "iface_int (IfInt16 n) = Some (sint n)"
| "iface_int (IfInt32 n) = Some (sint n)"
| "iface_int (IfInt64 n) = Some (sint n)"
| "iface_int (IfUint n) = Some (uint n)"
| "iface_int (IfUintptr n) = Some (uint n)"
| "iface_int (IfUint8 n) = Some (uint n)"
| "iface_int (IfUint16 n) = Some (uint n)"
| "iface_int (IfUint32 n) = Some (uint n)"
| "iface_int (IfUint64 n) = Some (uint n)"
| "iface_int _ = None"

lemma sint64_range: "- (2 ^ 63) \<le> sint (n :: 64 word)" "sint (n :: 64 word) < 2 ^ 63"
  using sint_ge [of n] sint_lt [of n] by simp_all

lemma sint8_range: "- (2 ^ 63) \<le> sint (n :: 8 word)" "sint (n :: 8 word) < 2 ^ 63"
  using sint_ge [of n] sint_lt [of n] by simp_all

lemma sint16_range: "- (2 ^ 63) \<le> sint (n :: 16 word)" "sint (n :: 16 word) < 2 ^ 63"
  using sint_ge [of n] sint_lt [of n] by simp_all

lemma sint32_range: "- (2 ^ 63) \<le> sint (n :: 32 word)" "sint (n :: 32 word) < 2 ^ 63"
  using sint_ge [of n] sint_lt [of n] by simp_all

lemmas sint_ranges = sint64_range sint8_range sint16_range sint32_range

lemma Num64_range: "Num64 v = (n, ok) \<Longrightarrow> - (2 ^ 63) \<le> n \<and> n < 2 ^ 63"
  by (cases v) (use sint_ranges i64_range in auto)

lemma i64_sint [simp]: "i64 (sint (a :: 64 word)) = sint a" "i64 (sint (b :: 8 word)) = sint b"
  "i64 (sint (c :: 16 word)) = sint c" "i64 (sint (d :: 32 word)) = sint d"
  by (intro i64_id sint_ranges)+

lemma Num64_eq:
  "Num64 v = (case iface_int v of None \<Rightarrow> (0, False) | Some n \<Rightarrow> (i64 n, True))"
  by (cases v) simp_all

section \<open>File modes\<close>

text \<open>\<open>os.FileMode\<close>: Go's own bit layout, not the Unix one.\<close>

definition ModeDir :: u32 where "ModeDir = push_bit 31 1"
definition ModeSymlink :: u32 where "ModeSymlink = push_bit 27 1"
definition ModeSetuid :: u32 where "ModeSetuid = push_bit 23 1"
definition ModeType :: u32 where
  "ModeType = push_bit 31 1 OR push_bit 27 1 OR push_bit 26 1 OR push_bit 25 1
     OR push_bit 24 1 OR push_bit 21 1 OR push_bit 19 1"
definition ModePerm :: u32 where "ModePerm = 0x1FF"

definition mode_IsRegular :: "u32 \<Rightarrow> bool" where
  "mode_IsRegular m \<longleftrightarrow> m AND ModeType = 0"

definition mode_IsDir :: "u32 \<Rightarrow> bool" where
  "mode_IsDir m \<longleftrightarrow> m AND ModeDir \<noteq> 0"

section \<open>The operating system as the code queries it\<close>

text \<open>\<open>os.FileInfo\<close>; \<open>st_Sys\<close> is \<open>Some (uid, gid)\<close> when \<open>Sys()\<close> is a \<open>*syscall.Stat_t\<close>.\<close>

record stat_info =
  st_Mode :: u32
  st_Size :: int
  st_ModTime :: int
  st_Sys :: "(u32 \<times> u32) option"

record os_env =
  os_Stat :: "string \<Rightarrow> gerror + stat_info"
  os_Lstat :: "string \<Rightarrow> gerror + stat_info"
  EvalSymlinks :: "string \<Rightarrow> gerror + string"
  user_LookupId :: "string \<Rightarrow> gerror + string \<times> string"
  user_LookupGroupId :: "string \<Rightarrow> gerror + string \<times> string"
  user_Lookup :: "string \<Rightarrow> gerror + string"
  user_LookupGroup :: "string \<Rightarrow> gerror + string"

section \<open>Paths\<close>

text \<open>
  Go's \<open>path\<close> package, as far as the code uses it. \<open>Clean\<close> resolves a path lexically:
  empty and \<open>.\<close> components go, \<open>..\<close> removes the component before it, and a rooted path
  never climbs above its root.
\<close>

fun split_slash :: "string \<Rightarrow> string list" where
  "split_slash [] = [[]]"
| "split_slash (c # cs) =
     (if c = CHR ''/'' then [] # split_slash cs
      else case split_slash cs of [] \<Rightarrow> [[c]] | p # ps \<Rightarrow> (c # p) # ps)"

fun join_slash :: "string list \<Rightarrow> string" where
  "join_slash [] = []"
| "join_slash [p] = p"
| "join_slash (p # ps) = p @ ''/'' @ join_slash ps"

text \<open>One component against the stack of those kept so far, innermost first.\<close>

fun clean_push :: "bool \<Rightarrow> string list \<Rightarrow> string \<Rightarrow> string list" where
  "clean_push rooted stack p =
     (if p = [] \<or> p = ''.'' then stack
      else if p = ''..'' then
        (case stack of
           [] \<Rightarrow> if rooted then [] else [''..'']
         | q # qs \<Rightarrow> if q = ''..'' then ''..'' # stack else qs)
      else p # stack)"

definition path_Clean :: "string \<Rightarrow> string" where
  "path_Clean p =
     (let rooted = (p \<noteq> [] \<and> hd p = CHR ''/'');
          body = join_slash (rev (foldl (clean_push rooted) [] (split_slash p)))
      in if rooted then CHR ''/'' # body else if body = [] then ''.'' else body)"

text \<open>What stands before and after the last slash.\<close>

definition split_last :: "string \<Rightarrow> string \<times> string" where
  "split_last p = (let ps = split_slash p in
     (if length ps = 1 then [] else join_slash (butlast ps) @ ''/'', last ps))"

definition path_Dir :: "string \<Rightarrow> string" where
  "path_Dir p = path_Clean (fst (split_last p))"

fun strip_trailing :: "string \<Rightarrow> string" where
  "strip_trailing p = rev (dropWhile (\<lambda>c. c = CHR ''/'') (rev p))"

definition path_Base :: "string \<Rightarrow> string" where
  "path_Base p =
     (if p = [] then ''.''
      else let q = snd (split_last (strip_trailing p)) in if q = [] then ''/'' else q)"

definition path_Join :: "string \<Rightarrow> string \<Rightarrow> string" where
  "path_Join a b =
     (let ps = filter (\<lambda>p. p \<noteq> []) [a, b] in if ps = [] then [] else path_Clean (join_slash ps))"

lemma split_slash_not_Nil [simp]: "split_slash p \<noteq> []"
  by (induction p) (auto split: list.splits)

lemma split_slash_no_slash: "q \<in> set (split_slash p) \<Longrightarrow> CHR ''/'' \<notin> set q"
proof (induction p arbitrary: q)
  case (Cons c cs)
  then show ?case
    by (cases "split_slash cs") (auto split: if_splits)
qed simp

text \<open>A rooted path resolves to one without empty, \<open>.\<close> or \<open>..\<close> components.\<close>

definition proper_component :: "string \<Rightarrow> bool" where
  "proper_component p \<longleftrightarrow> p \<noteq> [] \<and> p \<noteq> ''.'' \<and> p \<noteq> ''..''"

lemma clean_push_proper:
  "list_all proper_component stack \<Longrightarrow> list_all proper_component (clean_push True stack p)"
  by (auto simp: proper_component_def split: list.splits)

lemma clean_rooted_proper:
  "list_all proper_component stack \<Longrightarrow>
   list_all proper_component (foldl (clean_push True) stack ps)"
proof (induction ps arbitrary: stack)
  case (Cons p ps)
  then have "list_all proper_component (clean_push True stack p)"
    by (intro clean_push_proper)
  then show ?case using Cons.IH by simp
qed simp

lemma path_Base_no_slash: "path_Base p = ''/'' \<or> CHR ''/'' \<notin> set (path_Base p)"
proof -
  have "CHR ''/'' \<notin> set (last (split_slash q))" for q
    by (rule split_slash_no_slash [of _ q]) simp
  then show ?thesis
    by (auto simp: path_Base_def split_last_def Let_def)
qed

section \<open>File checks (utils/fs.go)\<close>

definition IsInChroot :: "string \<Rightarrow> string \<Rightarrow> bool" where
  "IsInChroot p chroot = (if chroot = [] then True else prefix chroot p)"

definition IsRegularFile :: "os_env \<Rightarrow> string \<Rightarrow> bool" where
  "IsRegularFile os p =
     (case os_Lstat os p of Inr s \<Rightarrow> mode_IsRegular (st_Mode s) | Inl e \<Rightarrow> False)"

definition FileGetUidGid :: "os_env \<Rightarrow> string \<Rightarrow> (u32 \<times> u32) \<times> gerror option" where
  "FileGetUidGid os p =
     (case os_Stat os p of
        Inl e \<Rightarrow> ((0, 0), Some e)
      | Inr s \<Rightarrow> (case st_Sys s of
          Some (u, g) \<Rightarrow> ((u, g), None)
        | None \<Rightarrow> ((0, 0), Some (Sentinel ErrUnsupported))))"

definition FileOwnerMatches :: "os_env \<Rightarrow> string \<Rightarrow> string \<Rightarrow> bool" where
  "FileOwnerMatches os p username =
     (if username = [] then True
      else case FileGetUidGid os p of
        (_, Some e) \<Rightarrow> False
      | ((uid, _), None) \<Rightarrow>
          (let uidString = itoa (uint uid)
           in case user_LookupId os uidString of
                Inl e \<Rightarrow> False
              | Inr (fu_Username, fu_Uid) \<Rightarrow> fu_Username = username \<and> fu_Uid = uidString))"

definition FileGroupMatches :: "os_env \<Rightarrow> string \<Rightarrow> string \<Rightarrow> bool" where
  "FileGroupMatches os p groupName =
     (if groupName = [] then True
      else case FileGetUidGid os p of
        (_, Some e) \<Rightarrow> False
      | ((_, gid), None) \<Rightarrow>
          (let gidString = itoa (uint gid)
           in case user_LookupGroupId os gidString of
                Inl e \<Rightarrow> False
              | Inr (fg_Name, fg_Gid) \<Rightarrow> fg_Name = groupName \<and> fg_Gid = gidString))"

definition FileExists :: "os_env \<Rightarrow> string \<Rightarrow> bool" where
  "FileExists os p = (case os_Stat os p of Inr _ \<Rightarrow> True | Inl _ \<Rightarrow> False)"

definition FileSize :: "os_env \<Rightarrow> string \<Rightarrow> int" where
  "FileSize os p = (case os_Stat os p of Inr s \<Rightarrow> st_Size s | Inl _ \<Rightarrow> -1)"

definition FileModes :: "os_env \<Rightarrow> string \<Rightarrow> u32" where
  "FileModes os p = (case os_Stat os p of Inr s \<Rightarrow> st_Mode s | Inl _ \<Rightarrow> 0)"

lemma FileOwnerMatches_exists:
  "FileOwnerMatches os p u \<Longrightarrow> u \<noteq> [] \<Longrightarrow> FileExists os p"
  by (auto simp: FileOwnerMatches_def FileGetUidGid_def FileExists_def split: sum.splits)

lemma FileGroupMatches_exists:
  "FileGroupMatches os p g \<Longrightarrow> g \<noteq> [] \<Longrightarrow> FileExists os p"
  by (auto simp: FileGroupMatches_def FileGetUidGid_def FileExists_def split: sum.splits)

lemma FileSize_exists: "0 \<le> FileSize os p \<Longrightarrow> FileExists os p"
  by (auto simp: FileSize_def FileExists_def split: sum.splits)

section \<open>A sample host\<close>

text \<open>For the closed examples: a host on which every path is a regular file of user 0.\<close>

definition sample_os :: os_env where
  "sample_os = \<lparr>
     os_Stat = (\<lambda>p. Inr \<lparr>st_Mode = 0x1A4, st_Size = 3, st_ModTime = 0, st_Sys = Some (0, 0)\<rparr>),
     os_Lstat = (\<lambda>p. Inr \<lparr>st_Mode = 0x1A4, st_Size = 3, st_ModTime = 0, st_Sys = Some (0, 0)\<rparr>),
     EvalSymlinks = (\<lambda>p. Inr p),
     user_LookupId = (\<lambda>u. Inr (''root'', u)), user_LookupGroupId = (\<lambda>g. Inr (''root'', g)),
     user_Lookup = (\<lambda>u. Inr ''0''), user_LookupGroup = (\<lambda>g. Inr ''0'')\<rparr>"

end
