(* ===== verification/Config.thy ===== *)
theory Config
  imports Utils
begin

text \<open>
  Package \<open>config\<close>: the settings the daemon runs with, their defaults
  (\<open>NewMenderShellConfig\<close>, \<open>applyDefaults\<close>), the checks of \<open>Validate\<close> and the loading
  of the two configuration files by \<open>LoadConfig\<close>. Reading a file and decoding its JSON into
  a structure that already holds values are arguments.
\<close>

section \<open>The settings (config/config.go)\<close>

record TerminalConfig =
  tc_Width :: u16
  tc_Height :: u16
  tc_Disable :: bool

record SessionsConfig =
  sc_StopExpired :: bool
  sc_ExpireAfter :: u32
  sc_ExpireAfterIdle :: u32
  sc_MaxPerUser :: u32

record RateLimits =
  MaxBytesTxPerMinute :: u64
  MaxBytesRxPerMinute :: u64

record FileTransferLimits =
  Chroot :: string
  FollowSymLinks :: bool
  AllowOverwrite :: bool
  OwnerPut :: string
  GroupPut :: string
  OwnerGet :: "string list"
  GroupGet :: "string list"
  Umask :: string
  MaxFileSize :: u64
  rate_limits :: RateLimits
  AllowSuid :: bool
  RegularFilesOnly :: bool
  PreserveMode :: bool
  PreserveOwner :: bool

record Limits =
  Enabled :: bool
  lim_ft :: FileTransferLimits

text \<open>\<open>MenderShellConfig\<close>, with the embedded \<open>MenderShellConfigFromFile\<close>. A nil slice of
  shell arguments is \<open>None\<close>; the four \<open>Disable\<close> structures are their flags.\<close>

record MenderShellConfig =
  ShellCommand :: string
  ShellArguments :: "string list option"
  cfg_User :: string
  Terminal :: TerminalConfig
  Sessions :: SessionsConfig
  cfg_Limits :: Limits
  ReconnectIntervalSeconds :: int
  FileTransferDisable :: bool
  PortForwardDisable :: bool
  MenderClientDisable :: bool
  cfg_Debug :: bool
  cfg_Trace :: bool

section \<open>Default values (config/paths.go)\<close>

definition DefaultShellCommand :: string where "DefaultShellCommand = ''/bin/sh''"
definition DefaultShellArguments :: "string list" where "DefaultShellArguments = [''--login'']"
definition DefaultDeviceConnectPath :: string where
  "DefaultDeviceConnectPath = ''/api/devices/v1/deviceconnect/connect''"
definition DefaultTerminalString :: string where "DefaultTerminalString = ''xterm-256color''"
definition DefaultTerminalHeight :: u16 where "DefaultTerminalHeight = 40"
definition DefaultTerminalWidth :: u16 where "DefaultTerminalWidth = 80"
definition DefaultReconnectIntervalsSeconds :: int where "DefaultReconnectIntervalsSeconds = 5"
definition MaxShellsSpawned :: u64 where "MaxShellsSpawned = 16"
definition DefaultStopExpired :: bool where "DefaultStopExpired = True"
definition DefaultExpireAfterIdle :: u32 where "DefaultExpireAfterIdle = 600"

lemmas default_defs = DefaultShellCommand_def DefaultShellArguments_def
  DefaultTerminalHeight_def DefaultTerminalWidth_def DefaultReconnectIntervalsSeconds_def
  DefaultStopExpired_def DefaultExpireAfterIdle_def

definition zero_FileTransferLimits :: FileTransferLimits where
  "zero_FileTransferLimits = \<lparr>Chroot = [], FollowSymLinks = False, AllowOverwrite = False,
     OwnerPut = [], GroupPut = [], OwnerGet = [], GroupGet = [], Umask = [], MaxFileSize = 0,
     rate_limits = \<lparr>MaxBytesTxPerMinute = 0, MaxBytesRxPerMinute = 0\<rparr>, AllowSuid = False,
     RegularFilesOnly = False, PreserveMode = False, PreserveOwner = False\<rparr>"

definition NewMenderShellConfig :: MenderShellConfig where
  "NewMenderShellConfig = \<lparr>ShellCommand = [], ShellArguments = None, cfg_User = [],
     Terminal = \<lparr>tc_Width = 0, tc_Height = 0, tc_Disable = False\<rparr>,
     Sessions = \<lparr>sc_StopExpired = DefaultStopExpired, sc_ExpireAfter = 0,
                 sc_ExpireAfterIdle = 0, sc_MaxPerUser = 0\<rparr>,
     cfg_Limits = \<lparr>Enabled = False, lim_ft = zero_FileTransferLimits\<rparr>,
     ReconnectIntervalSeconds = 0, FileTransferDisable = False, PortForwardDisable = False,
     MenderClientDisable = False, cfg_Debug = False, cfg_Trace = False\<rparr>"

definition session_defaults :: "SessionsConfig \<Rightarrow> SessionsConfig" where
  "session_defaults sc =
     (if \<not> sc_StopExpired sc then sc\<lparr>sc_ExpireAfter := 0, sc_ExpireAfterIdle := 0\<rparr>
      else if sc_ExpireAfter sc = 0 \<and> sc_ExpireAfterIdle sc = 0
      then sc\<lparr>sc_ExpireAfterIdle := DefaultExpireAfterIdle\<rparr>
      else sc)"

definition terminal_defaults :: "TerminalConfig \<Rightarrow> TerminalConfig" where
  "terminal_defaults t =
     t\<lparr>tc_Width := (if tc_Width t = 0 then DefaultTerminalWidth else tc_Width t),
       tc_Height := (if tc_Height t = 0 then DefaultTerminalHeight else tc_Height t)\<rparr>"

text \<open>The last step of \<open>applyDefaults\<close>: both preservation flags are switched on.\<close>

definition permit_preserve :: "Limits \<Rightarrow> Limits" where
  "permit_preserve l = l\<lparr>lim_ft := (lim_ft l)\<lparr>PreserveMode := True, PreserveOwner := True\<rparr>\<rparr>"

definition applyDefaults :: "MenderShellConfig \<Rightarrow> MenderShellConfig" where
  "applyDefaults c =
     c\<lparr>ShellCommand := (if ShellCommand c = [] then DefaultShellCommand else ShellCommand c),
       ShellArguments := (case ShellArguments c of
          None \<Rightarrow> Some DefaultShellArguments | Some args \<Rightarrow> Some args),
       Terminal := terminal_defaults (Terminal c),
       Sessions := session_defaults (Sessions c),
       ReconnectIntervalSeconds :=
         (if ReconnectIntervalSeconds c = 0 then DefaultReconnectIntervalsSeconds
          else ReconnectIntervalSeconds c),
       cfg_Limits := permit_preserve (cfg_Limits c)\<rparr>"

section \<open>Validation\<close>

text \<open>\<open>log.Fatal\<close> ends the process.\<close>

datatype 'a outcome = Fatal gerror | Ret 'a

definition isExecutable :: "os_env \<Rightarrow> string \<Rightarrow> bool" where
  "isExecutable os p =
     (case os_Stat os p of Inl _ \<Rightarrow> False | Inr info \<Rightarrow> st_Mode info AND 0x49 \<noteq> 0)"

text \<open>\<open>shells\<close> is the result of opening and scanning \<open>/etc/shells\<close>: its lines.\<close>

definition isInShells :: "(gerror + string list) \<Rightarrow> string \<Rightarrow> bool outcome" where
  "isInShells shells p =
     (case shells of
        Inl e \<Rightarrow> if p = DefaultShellCommand then Ret True else Fatal e
      | Inr ls \<Rightarrow> Ret (list_ex (\<lambda>l. l = p) ls))"

definition validateUser :: "os_env \<Rightarrow> MenderShellConfig \<Rightarrow> gerror option" where
  "validateUser os c =
     (if cfg_User c = [] then Some (ErrText ''please provide a user to run the shell as'')
      else case user_Lookup os (cfg_User c) of Inl e \<Rightarrow> Some e | Inr _ \<Rightarrow> None)"

definition filepath_IsAbs :: "string \<Rightarrow> bool" where
  "filepath_IsAbs p \<longleftrightarrow> p \<noteq> [] \<and> hd p = CHR ''/''"

definition Validate ::
  "os_env \<Rightarrow> (gerror + string list) \<Rightarrow> MenderShellConfig \<Rightarrow> (gerror option \<times> MenderShellConfig) outcome"
  where
  "Validate os shells c0 =
     (let c = applyDefaults c0; sh = ShellCommand c
      in if \<not> filepath_IsAbs sh
         then Ret (Some (ErrText (''given shell ('' @ sh @ '') is not an absolute path'')), c)
         else if \<not> isExecutable os sh
         then Ret (Some (ErrText (''given shell ('' @ sh @ '') is not executable'')), c)
         else case validateUser os c of
           Some e \<Rightarrow> Ret (Some e, c)
         | None \<Rightarrow> (case isInShells shells sh of
             Fatal e \<Rightarrow> Fatal e
           | Ret found \<Rightarrow>
               if \<not> found
               then Ret (Some (ErrText (''ShellCommand '' @ sh @ '' is not present in /etc/shells'')), c)
               else Ret (None, c)))"

section \<open>Loading\<close>

text \<open>
  A configuration file as the loader meets it. \<open>cf_stat\<close> is the error of \<open>os.Stat\<close>;
  \<open>cf_read\<close> the result of reading the file and decoding it over the configuration built so
  far, with the value left in the target; \<open>cf_deprecated\<close> the error of decoding it a second
  time into the structure of deprecated fields (which only produces log lines).
\<close>

record config_file =
  cf_stat :: "gerror option"
  cf_read :: "MenderShellConfig \<Rightarrow> MenderShellConfig \<times> gerror option"
  cf_deprecated :: "gerror option"

definition checkforDeprecatedFields :: "config_file \<Rightarrow> gerror option" where
  "checkforDeprecatedFields f = cf_deprecated f"

definition loadConfigFile ::
  "config_file \<Rightarrow> MenderShellConfig \<Rightarrow> nat \<Rightarrow> gerror option \<times> MenderShellConfig \<times> nat" where
  "loadConfigFile f config filesLoadedCount =
     (if case cf_stat f of None \<Rightarrow> False | Some e \<Rightarrow> is_not_exist e
      then (None, config, filesLoadedCount)
      else case cf_read f config of
        (c, Some e) \<Rightarrow> (Some e, c, filesLoadedCount)
      | (c, None) \<Rightarrow> (case checkforDeprecatedFields f of
          Some e \<Rightarrow> (Some e, c, filesLoadedCount)
        | None \<Rightarrow> (None, c, Suc filesLoadedCount)))"

definition LoadConfig :: "config_file \<Rightarrow> config_file \<Rightarrow> gerror + MenderShellConfig" where
  "LoadConfig mainConfigFile fallbackConfigFile =
     (case loadConfigFile fallbackConfigFile NewMenderShellConfig 0 of
        (Some e, _, _) \<Rightarrow> Inl e
      | (None, c, n) \<Rightarrow> (case loadConfigFile mainConfigFile c n of
          (Some e, _, _) \<Rightarrow> Inl e
        | (None, c, n) \<Rightarrow> Inr c))"

section \<open>What the configuration guarantees\<close>

text \<open>The defaults never undo each other: applying them again changes nothing.\<close>

lemma session_defaults_idem: "session_defaults (session_defaults sc) = session_defaults sc"
  by (auto simp: session_defaults_def default_defs)

lemma terminal_defaults_idem: "terminal_defaults (terminal_defaults t) = terminal_defaults t"
  by (simp add: terminal_defaults_def)

lemma permit_preserve_idem: "permit_preserve (permit_preserve l) = permit_preserve l"
  by (simp add: permit_preserve_def)

lemma applyDefaults_idem: "applyDefaults (applyDefaults c) = applyDefaults c"
  by (simp add: applyDefaults_def session_defaults_idem terminal_defaults_idem
        permit_preserve_idem option.case_eq_if)

text \<open>What the daemon relies on after \<open>Validate\<close> returned no error.\<close>

definition complete_config :: "MenderShellConfig \<Rightarrow> bool" where
  "complete_config c \<longleftrightarrow>
     ShellCommand c \<noteq> [] \<and> ShellArguments c \<noteq> None \<and>
     tc_Width (Terminal c) \<noteq> 0 \<and> tc_Height (Terminal c) \<noteq> 0 \<and>
     ReconnectIntervalSeconds c \<noteq> 0 \<and>
     (sc_StopExpired (Sessions c) \<longleftrightarrow>
        sc_ExpireAfter (Sessions c) \<noteq> 0 \<or> sc_ExpireAfterIdle (Sessions c) \<noteq> 0) \<and>
     PreserveMode (lim_ft (cfg_Limits c)) \<and> PreserveOwner (lim_ft (cfg_Limits c))"

lemma session_defaults_expiry:
  "sc_StopExpired (session_defaults sc) \<longleftrightarrow>
     sc_ExpireAfter (session_defaults sc) \<noteq> 0 \<or> sc_ExpireAfterIdle (session_defaults sc) \<noteq> 0"
  by (auto simp: session_defaults_def default_defs)

lemma applyDefaults_complete: "complete_config (applyDefaults c)"
  using session_defaults_expiry [of "Sessions c"]
  by (simp add: complete_config_def applyDefaults_def terminal_defaults_def permit_preserve_def
        default_defs split: option.splits)

lemma Validate_config: "Validate os shells c = Ret (r, c') \<Longrightarrow> c' = applyDefaults c"
  by (auto simp: Validate_def Let_def split: if_splits option.splits outcome.splits)

lemma Validate_ok_iff:
  "Validate os shells c0 = Ret (None, c) \<longleftrightarrow>
     c = applyDefaults c0 \<and> filepath_IsAbs (ShellCommand c) \<and> isExecutable os (ShellCommand c) \<and>
     validateUser os c = None \<and> isInShells shells (ShellCommand c) = Ret True"
  by (auto simp: Validate_def Let_def split: option.splits outcome.splits)

lemma loadConfigFile_missing:
  "cf_stat f = Some e \<Longrightarrow> is_not_exist e \<Longrightarrow> loadConfigFile f c n = (None, c, n)"
  by (simp add: loadConfigFile_def)

lemma loadConfigFile_present:
  "cf_stat f = None \<Longrightarrow> cf_read f c = (c', None) \<Longrightarrow> cf_deprecated f = None \<Longrightarrow>
   loadConfigFile f c n = (None, c', Suc n)"
  by (simp add: loadConfigFile_def checkforDeprecatedFields_def)

end
