(* ===== verification/DaemonShell.thy ===== *)
theory DaemonShell
  imports ShellSessions Config
begin

text \<open>
  The daemon's state (\<open>app/daemon.go\<close>) and its handling of the remote terminal's messages
  (\<open>app/daemon_shell.go\<close>): spawning and stopping shells, passing commands, resizing, and the
  answers to the health check.
\<close>

section \<open>The daemon\<close>

text \<open>
  The fields of \<open>MenderShellDaemon\<close> that change or that its operations read, with the
  session registry (package variables of \<open>session\<close>) and the connection it answers on.
  The configuration's durations are in nanoseconds.
\<close>

record daemon =
  d_wire :: wire
  d_reg :: registry
  d_shellsSpawned :: u64
  d_authorized :: bool
  d_serverJwt :: string
  d_serverUrl :: string
  d_shell :: string
  d_shellArguments :: "string list"
  d_expireAfter :: int
  d_expireAfterIdle :: int
  d_terminalString :: string
  d_uid :: u64
  d_gid :: u64
  d_gids :: "u32 list"
  d_homeDir :: string
  d_Terminal :: TerminalConfig

definition responseMessage :: "ProtoMsg \<Rightarrow> daemon \<Rightarrow> gerror option \<times> daemon" where
  "responseMessage m d = (let (r, w) = WriteProtoMsg m (d_wire d) in (r, d\<lparr>d_wire := w\<rparr>))"

text \<open>\<open>routeMessageResponse\<close>: an error replaces the status and the body. The response is
  never nil, and has its properties.\<close>

definition with_status :: "nat \<Rightarrow> ProtoMsg \<Rightarrow> ProtoMsg" where
  "with_status st m = m\<lparr>Header := (Header m)\<lparr>Properties :=
     map_option (\<lambda>ps. ps(''status'' \<mapsto> IfStatus st)) (Properties (Header m))\<rparr>\<rparr>"

definition routeMessageResponse :: "ProtoMsg \<Rightarrow> gerror option \<Rightarrow> daemon \<Rightarrow> daemon" where
  "routeMessageResponse rsp err d =
     (let rsp = (case err of None \<Rightarrow> rsp
                  | Some e \<Rightarrow> (with_status ErrorMessage rsp)\<lparr>Body := err_msg e\<rparr>)
      in snd (responseMessage rsp d))"

text \<open>The response every handler prepares.\<close>

definition response_to :: "ProtoMsg \<Rightarrow> ProtoMsg" where
  "response_to m = mk_msg (Proto (Header m)) (MsgType (Header m)) (SessionID (Header m))
     (Some [''status'' \<mapsto> IfStatus NormalMessage]) []"

definition getUserIdFromMessage :: "ProtoMsg \<Rightarrow> string" where
  "getUserIdFromMessage m = prop_string (Properties (Header m)) ''user_id''"

definition DecreaseSpawnedShellsCount :: "u64 \<Rightarrow> daemon \<Rightarrow> daemon" where
  "DecreaseSpawnedShellsCount n d =
     (if d_shellsSpawned d = 0 then d
      else if n \<ge> d_shellsSpawned d then d\<lparr>d_shellsSpawned := 0\<rparr>
      else d\<lparr>d_shellsSpawned := d_shellsSpawned d - n\<rparr>)"

text \<open>A number is converted to \<open>uint16\<close> only when it is positive; the conversion keeps the low
  bits.\<close>

definition mapPropertiesToTerminalHeightAndWidth :: "properties \<Rightarrow> u16 \<times> u16" where
  "mapPropertiesToTerminalHeightAndWidth ps =
     (case (prop_get ps ''terminal_height'', prop_get ps ''terminal_width'') of
        (Some h, Some w) \<Rightarrow>
          (let hv = fst (Num64 h); wv = fst (Num64 w)
           in (if hv > 0 then word_of_int hv else 0, if wv > 0 then word_of_int wv else 0))
      | _ \<Rightarrow> (0, 0))"

section \<open>Messages of the remote terminal\<close>

text \<open>How routing a message ends: with its error, or in a panic that ends the process, since
  the daemon's message loop does not recover.\<close>

datatype routed = Routed "gerror option" | RoutePanic

definition spawn_settings :: "daemon \<Rightarrow> u16 \<Rightarrow> u16 \<Rightarrow> terminal_settings" where
  "spawn_settings d h w =
     \<lparr>ts_Uid = ucast (d_uid d), ts_Gid = ucast (d_gid d), ts_Gids = d_gids d, ts_Shell = d_shell d,
      ts_HomeDir = d_homeDir d, ts_TerminalString = d_terminalString d, ts_Height = h, ts_Width = w,
      ts_ShellArguments = d_shellArguments d\<rparr>"

text \<open>The size of the new terminal: what the message asks for, if it gives both, or the
  configuration's.\<close>

definition terminal_size :: "daemon \<Rightarrow> ProtoMsg \<Rightarrow> u16 \<times> u16" where
  "terminal_size d m =
     (let (h, w) = mapPropertiesToTerminalHeightAndWidth (Properties (Header m))
      in if h > 0 \<and> w > 0 then (h, w) else (tc_Height (d_Terminal d), tc_Width (d_Terminal d)))"

text \<open>The session of the message: the one in the table, or a new one.\<close>

definition spawn_session :: "int \<Rightarrow> ProtoMsg \<Rightarrow> daemon \<Rightarrow> (gerror + ref) \<times> daemon" where
  "spawn_session now m d =
     (case MenderShellSessionGetById (d_reg d) (SessionID (Header m)) of
        Some r \<Rightarrow> (Inr r, d)
      | None \<Rightarrow>
          (let (x, reg) = NewMenderShellSession (SessionID (Header m)) (getUserIdFromMessage m)
                            (d_expireAfter d) (d_expireAfterIdle d) now (d_reg d)
           in (x, d\<lparr>d_reg := reg\<rparr>)))"

definition routeMessageSpawnShell :: "proc_os \<Rightarrow> int \<Rightarrow> ProtoMsg \<Rightarrow> daemon \<Rightarrow> routed \<times> daemon" where
  "routeMessageSpawnShell po now m d =
     (let rsp = response_to m in
      if d_shellsSpawned d \<ge> MaxShellsSpawned
      then let e = Some (Sentinel ErrSessionTooManyShellsAlreadyRunning)
           in (Routed e, routeMessageResponse rsp e d)
      else case spawn_session now m d of
        (Inl e, d) \<Rightarrow> (Routed (Some e), routeMessageResponse rsp (Some e) d)
      | (Inr r, d) \<Rightarrow>
          let rsp = rsp\<lparr>Header := (Header rsp)\<lparr>SessionID := id_of (d_reg d) r\<rparr>\<rparr>;
              (h, w) = terminal_size d m;
              (res, reg) = StartShell po now (spawn_settings d h w) r (d_reg d);
              d = d\<lparr>d_reg := reg\<rparr>
          in case res of
               Some e \<Rightarrow>
                 let e = Some (Wrapped ''failed to start shell'' e)
                 in (Routed e, routeMessageResponse rsp e d)
             | None \<Rightarrow>
                 (Routed None, routeMessageResponse (rsp\<lparr>Body := ''Shell started''\<rparr>) None
                    (d\<lparr>d_shellsSpawned := d_shellsSpawned d + 1\<rparr>)))"

text \<open>Stopping by user: the count the message reports has been reset by then.\<close>

definition stop_user_shells :: "proc_os \<Rightarrow> ProtoMsg \<Rightarrow> daemon \<Rightarrow> routed \<times> daemon" where
  "stop_user_shells po m d =
     (let rsp = response_to m; userId = getUserIdFromMessage m in
      if userId = []
      then let e = Some (ErrText ''StopShellMessage: sessionId not given and userId empty'')
           in (Routed e, routeMessageResponse rsp e d)
      else case MenderShellStopByUserId po userId (d_reg d) of
        ((n, Some e), reg) \<Rightarrow>
          (Routed (Some e), routeMessageResponse rsp (Some e) (d\<lparr>d_reg := reg\<rparr>))
      | ((n, None), reg) \<Rightarrow>
          let d = d\<lparr>d_reg := reg\<rparr>; k = of_nat n :: u64 in
          if k > d_shellsSpawned d
          then let e = Some (ErrText (''StopByUserId: the shells stopped count ('' @ itoa (uint k)
                       @ '') greater than total shells spawned (0). resetting shells spawned to 0.''))
               in (Routed e, routeMessageResponse rsp e (d\<lparr>d_shellsSpawned := 0\<rparr>))
          else (Routed None, routeMessageResponse rsp None (DecreaseSpawnedShellsCount k d)))"

text \<open>The end of \<open>routeMessageStopShell\<close>: the count goes down and the session is removed.\<close>

definition stop_done :: "ProtoMsg \<Rightarrow> ref \<Rightarrow> daemon \<Rightarrow> routed \<times> daemon" where
  "stop_done rsp r d =
     (let d = (if d_shellsSpawned d = 0 then d else d\<lparr>d_shellsSpawned := d_shellsSpawned d - 1\<rparr>);
          (e, reg) = MenderShellDeleteById (id_of (d_reg d) r) (d_reg d)
      in (Routed e, routeMessageResponse rsp e (d\<lparr>d_reg := reg\<rparr>)))"

definition routeMessageStopShell :: "proc_os \<Rightarrow> ProtoMsg \<Rightarrow> daemon \<Rightarrow> routed \<times> daemon" where
  "routeMessageStopShell po m d =
     (let rsp = response_to m; k = SessionID (Header m) in
      if k = [] then stop_user_shells po m d
      else case MenderShellSessionGetById (d_reg d) k of
        None \<Rightarrow>
          let e = Some (ErrText (''routeMessage: StopShellMessage: session not found for id '' @ k))
          in (Routed e, routeMessageResponse rsp e d)
      | Some r \<Rightarrow>
          let (res, reg) = StopShell po r (d_reg d);
              d = d\<lparr>d_reg := reg\<rparr>;
              pid = (case sr_heap reg r of None \<Rightarrow> 0 | Some x \<Rightarrow> ms_pid x)
          in case res of
               Some e \<Rightarrow>
                 if ProcessExists po pid
                 then let e = Some (ErrText (''could not terminate shell: '' @ err_msg e @ ''.''))
                      in (Routed e, routeMessageResponse rsp e d)
                 else stop_done rsp r d
             | None \<Rightarrow> stop_done rsp r d)"


text \<open>\<open>wr\<close> is what writing to the terminal of a session gives.\<close>

definition routeMessageShellCommand ::
  "(ref \<Rightarrow> bytes \<Rightarrow> nat \<times> gerror option) \<Rightarrow> int \<Rightarrow> ProtoMsg \<Rightarrow> daemon \<Rightarrow> routed \<times> daemon" where
  "routeMessageShellCommand wr now m d =
     (let rsp = response_to m in
      case MenderShellSessionGetById (d_reg d) (SessionID (Header m)) of
        None \<Rightarrow>
          let e = Some (Sentinel ErrSessionNotFound) in (Routed e, routeMessageResponse rsp e d)
      | Some r \<Rightarrow> (case ShellSessions.ShellCommand now (wr r) (Body m) r (d_reg d) of
          None \<Rightarrow> (RoutePanic, d)
        | Some (None, reg) \<Rightarrow> (Routed None, d\<lparr>d_reg := reg\<rparr>)
        | Some (Some e, reg) \<Rightarrow>
            let e = Some (Wrapped (''routeMessage: shell command execution error, session_id=''
                      @ SessionID (Header m)) e)
            in (Routed e, routeMessageResponse rsp e (d\<lparr>d_reg := reg\<rparr>))))"

definition routeMessageShellResize :: "ProtoMsg \<Rightarrow> daemon \<Rightarrow> routed \<times> daemon" where
  "routeMessageShellResize m d =
     (case MenderShellSessionGetById (d_reg d) (SessionID (Header m)) of
        None \<Rightarrow> (Routed (Some (Sentinel ErrSessionNotFound)), d)
      | Some r \<Rightarrow>
          let (h, w) = mapPropertiesToTerminalHeightAndWidth (Properties (Header m))
          in if h > 0 \<and> w > 0
             then (case SessionResizeShell h w r (d_reg d) of
                     None \<Rightarrow> (RoutePanic, d) | Some reg \<Rightarrow> (Routed None, d\<lparr>d_reg := reg\<rparr>))
             else (Routed None, d))"

definition routeMessagePongShell :: "ProtoMsg \<Rightarrow> daemon \<Rightarrow> routed \<times> daemon" where
  "routeMessagePongShell m d =
     (case MenderShellSessionGetById (d_reg d) (SessionID (Header m)) of
        None \<Rightarrow> (Routed (Some (Sentinel ErrSessionNotFound)), d)
      | Some r \<Rightarrow> (Routed None, d\<lparr>d_reg := HealthcheckPong r (d_reg d)\<rparr>))"

text \<open>The inner \<open>switch\<close> of \<open>routeMessage\<close>: \<open>None\<close> for a type that is not the terminal's.\<close>

definition route_shell ::
  "proc_os \<Rightarrow> (ref \<Rightarrow> bytes \<Rightarrow> nat \<times> gerror option) \<Rightarrow> int \<Rightarrow> ProtoMsg \<Rightarrow> daemon \<Rightarrow> (routed \<times> daemon) option"
where
  "route_shell po wr now m d =
     (let t = MsgType (Header m) in
      if t = MessageTypeSpawnShell then Some (routeMessageSpawnShell po now m d)
      else if t = MessageTypeStopShell then Some (routeMessageStopShell po m d)
      else if t = MessageTypeShellCommand then Some (routeMessageShellCommand wr now m d)
      else if t = MessageTypeResizeShell then Some (routeMessageShellResize m d)
      else if t = MessageTypePongShell then Some (routeMessagePongShell m d)
      else None)"

section \<open>What routing leaves alone\<close>

lemma routeMessageResponse_frame [simp]:
  "d_reg (routeMessageResponse rsp e d) = d_reg d"
  "d_shellsSpawned (routeMessageResponse rsp e d) = d_shellsSpawned d"
  by (simp_all add: routeMessageResponse_def responseMessage_def Let_def split: prod.splits)

lemma routeMessageResponse_reliable [simp]:
  "reliable (d_wire (routeMessageResponse rsp e d)) = reliable (d_wire d)"
  by (simp add: routeMessageResponse_def responseMessage_def Let_def split: prod.splits)
     (metis reliable_write snd_conv)

text \<open>The answer a terminal message gets: the prepared response, or the error in its place.\<close>

definition answer :: "ProtoMsg \<Rightarrow> gerror option \<Rightarrow> ProtoMsg" where
  "answer rsp e = (case e of None \<Rightarrow> rsp
     | Some e \<Rightarrow> (with_status ErrorMessage rsp)\<lparr>Body := err_msg e\<rparr>)"

lemma routeMessageResponse_out [simp]:
  "reliable (d_wire d) \<Longrightarrow>
     wire_out (d_wire (routeMessageResponse rsp e d)) = wire_out (d_wire d) @ [answer rsp e]"
  by (simp add: routeMessageResponse_def responseMessage_def answer_def Let_def)

lemma DecreaseSpawnedShellsCount_frame [simp]:
  "d_reg (DecreaseSpawnedShellsCount n d) = d_reg d" "d_wire (DecreaseSpawnedShellsCount n d) = d_wire d"
  by (simp_all add: DecreaseSpawnedShellsCount_def)

lemma DecreaseSpawnedShellsCount_count:
  "unat (d_shellsSpawned (DecreaseSpawnedShellsCount n d)) = unat (d_shellsSpawned d) - unat n"
  by (auto simp: DecreaseSpawnedShellsCount_def unat_sub_if_size word_le_nat_alt)

lemma spawn_session_other:
  "spawn_session now m d = (x, d') \<Longrightarrow>
     d_shellsSpawned d' = d_shellsSpawned d \<and> d_wire d' = d_wire d"
  by (auto simp: spawn_session_def split: option.splits prod.splits)

lemma spawn_session_ok:
  assumes "spawn_session now m d = (x, d')" and "ok_reg (d_reg d)"
  shows "ok_reg (d_reg d')"
proof (cases "MenderShellSessionGetById (d_reg d) (SessionID (Header m))")
  case None
  with assms reg.put_inv [OF assms(2) None,
      of "(getUserIdFromMessage m, d_expireAfter d, d_expireAfterIdle d, now)"]
  show ?thesis by (auto simp: spawn_session_def split: prod.splits)
qed (use assms in \<open>simp add: spawn_session_def\<close>)

lemma spawn_session_id:
  assumes "spawn_session now m d = (Inr r, d')" and "ok_reg (d_reg d)"
  shows "MenderShellSessionGetById (d_reg d') (SessionID (Header m)) = Some r \<and>
     id_of (d_reg d') r = SessionID (Header m)"
proof -
  let ?k = "SessionID (Header m)"
  have get: "MenderShellSessionGetById (d_reg d') ?k = Some r"
  proof (cases "MenderShellSessionGetById (d_reg d) ?k")
    case None
    with assms(1) obtain reg where n: "NewMenderShellSession ?k (getUserIdFromMessage m) (d_expireAfter d)
        (d_expireAfterIdle d) now (d_reg d) = (Inr r, reg)" "d' = d\<lparr>d_reg := reg\<rparr>"
      by (auto simp: spawn_session_def split: prod.splits)
    from reg.put_ok [OF assms(2) None, of "(getUserIdFromMessage m, d_expireAfter d, d_expireAfterIdle d, now)"] n
    show ?thesis by simp
  qed (use assms(1) in \<open>simp add: spawn_session_def\<close>)
  moreover have "wf_reg (d_reg d')" using spawn_session_ok [OF assms] by (simp add: ok_reg_def)
  ultimately show ?thesis
    by (auto simp: MenderShellSessionGetById_def dest!: wf_map intro: id_of_idx)
qed

text \<open>Spawning, by its four outcomes.\<close>

lemma routeMessageSpawnShell_cases:
  assumes run: "routeMessageSpawnShell po now m d = (x, d')"
  obtains
    (full) "d_shellsSpawned d \<ge> MaxShellsSpawned"
      "x = Routed (Some (Sentinel ErrSessionTooManyShellsAlreadyRunning))"
      "d' = routeMessageResponse (response_to m) (Some (Sentinel ErrSessionTooManyShellsAlreadyRunning)) d"
  | (refused) e d1 where "d_shellsSpawned d < MaxShellsSpawned" "spawn_session now m d = (Inl e, d1)"
      "x = Routed (Some e)" "d' = routeMessageResponse (response_to m) (Some e) d1"
  | (failed) r d1 e reg rsp where "d_shellsSpawned d < MaxShellsSpawned" "spawn_session now m d = (Inr r, d1)"
      "rsp = (response_to m)\<lparr>Header := (Header (response_to m))\<lparr>SessionID := id_of (d_reg d1) r\<rparr>\<rparr>"
      "StartShell po now (spawn_settings d1 (fst (terminal_size d1 m)) (snd (terminal_size d1 m))) r (d_reg d1) = (Some e, reg)"
      "x = Routed (Some (Wrapped ''failed to start shell'' e))"
      "d' = routeMessageResponse rsp (Some (Wrapped ''failed to start shell'' e)) (d1\<lparr>d_reg := reg\<rparr>)"
  | (started) r d1 reg rsp where "d_shellsSpawned d < MaxShellsSpawned" "spawn_session now m d = (Inr r, d1)"
      "rsp = (response_to m)\<lparr>Header := (Header (response_to m))\<lparr>SessionID := id_of (d_reg d1) r\<rparr>\<rparr>"
      "StartShell po now (spawn_settings d1 (fst (terminal_size d1 m)) (snd (terminal_size d1 m))) r (d_reg d1) = (None, reg)"
      "x = Routed None"
      "d' = routeMessageResponse (rsp\<lparr>Body := ''Shell started''\<rparr>) None
         (d1\<lparr>d_reg := reg, d_shellsSpawned := d_shellsSpawned d1 + 1\<rparr>)"
proof (cases "d_shellsSpawned d \<ge> MaxShellsSpawned")
  case True
  with run show thesis by (intro full) (simp_all add: routeMessageSpawnShell_def Let_def)
next
  case False
  then have lt: "d_shellsSpawned d < MaxShellsSpawned" by simp
  obtain y d1 where s: "spawn_session now m d = (y, d1)" by fastforce
  show thesis
  proof (cases y)
    case (Inl e)
    with run s lt False show thesis by (intro refused) (auto simp: routeMessageSpawnShell_def Let_def)
  next
    case (Inr r)
    obtain res reg where st: "StartShell po now (spawn_settings d1 (fst (terminal_size d1 m))
        (snd (terminal_size d1 m))) r (d_reg d1) = (res, reg)" by fastforce
    show thesis
      by (cases res) (rule started failed; use run s lt False Inr st in
        \<open>auto simp: routeMessageSpawnShell_def Let_def split: prod.splits\<close>)+
  qed
qed

lemma stop_done_ok: "ok_reg (d_reg d) \<Longrightarrow> ok_reg (d_reg (snd (stop_done rsp r d)))"
  using delete_ok [of "d_reg d" "id_of (d_reg d) r"]
  by (cases "MenderShellDeleteById (id_of (d_reg d) r) (d_reg d)") (auto simp: stop_done_def Let_def)

lemma stop_done_count:
  "unat (d_shellsSpawned (snd (stop_done rsp r d))) = unat (d_shellsSpawned d) - 1"
  by (auto simp: stop_done_def Let_def unat_sub_if_size word_le_nat_alt unat_gt_0 split: prod.splits)
     (metis Suc_leI unat_gt_0 One_nat_def)+

lemma stop_user_shells_frame:
  assumes "stop_user_shells po m d = (x, d')"
  shows "unat (d_shellsSpawned d') \<le> unat (d_shellsSpawned d)"
    and "ok_reg (d_reg d) \<Longrightarrow> ok_reg (d_reg d')"
proof -
  let ?u = "getUserIdFromMessage m"
  obtain n err reg where st: "MenderShellStopByUserId po ?u (d_reg d) = ((n, err), reg)"
    by (metis prod.exhaust)
  have "ok_reg (d_reg d) \<Longrightarrow> ok_reg reg" using stop_by_user_ok [of "d_reg d" po ?u] st by simp
  with assms st show "ok_reg (d_reg d) \<Longrightarrow> ok_reg (d_reg d')"
    by (auto simp: stop_user_shells_def Let_def split: if_splits option.splits)
  from assms st show "unat (d_shellsSpawned d') \<le> unat (d_shellsSpawned d)"
    by (auto simp: stop_user_shells_def Let_def DecreaseSpawnedShellsCount_count
          split: if_splits option.splits)
qed

text \<open>Stopping the shell of a session, by its outcomes.\<close>

lemma routeMessageStopShell_cases:
  assumes run: "routeMessageStopShell po m d = (x, d')"
  obtains
    (user) "SessionID (Header m) = []" "stop_user_shells po m d = (x, d')"
  | (unknown) e where "SessionID (Header m) \<noteq> []" "sr_map (d_reg d) (SessionID (Header m)) = None"
      "x = Routed (Some e)" "d' = routeMessageResponse (response_to m) (Some e) d"
  | (alive) r e e' reg where "SessionID (Header m) \<noteq> []" "sr_map (d_reg d) (SessionID (Header m)) = Some r"
      "StopShell po r (d_reg d) = (Some e', reg)"
      "ProcessExists po (case sr_heap reg r of None \<Rightarrow> 0 | Some x \<Rightarrow> ms_pid x)"
      "x = Routed (Some e)" "d' = routeMessageResponse (response_to m) (Some e) (d\<lparr>d_reg := reg\<rparr>)"
  | (stopped) r res reg where "SessionID (Header m) \<noteq> []" "sr_map (d_reg d) (SessionID (Header m)) = Some r"
      "StopShell po r (d_reg d) = (res, reg)" "(x, d') = stop_done (response_to m) r (d\<lparr>d_reg := reg\<rparr>)"
proof (cases "SessionID (Header m) = []")
  case True
  with run show thesis by (intro user) (simp_all add: routeMessageStopShell_def Let_def)
next
  case False
  show thesis
  proof (cases "sr_map (d_reg d) (SessionID (Header m))")
    case None
    from run False None show thesis
      by (intro unknown) (auto simp: routeMessageStopShell_def MenderShellSessionGetById_def Let_def)
  next
    case (Some r)
    obtain res reg where st: "StopShell po r (d_reg d) = (res, reg)" by fastforce
    show thesis
    proof (cases "(\<exists>e. res = Some e) \<and> ProcessExists po (case sr_heap reg r of None \<Rightarrow> 0 | Some x \<Rightarrow> ms_pid x)")
      case True
      then obtain e where e: "res = Some e" by blast
      from run False Some st True e show thesis
        by (intro alive [of r e reg]) (auto simp: routeMessageStopShell_def MenderShellSessionGetById_def Let_def)
    next
      case no: False
      from run False Some st no show thesis
        by (intro stopped [of r res reg])
          (auto simp: routeMessageStopShell_def MenderShellSessionGetById_def Let_def split: option.splits if_splits)
    qed
  qed
qed

lemmas route_defs = routeMessageShellCommand_def routeMessageShellResize_def routeMessagePongShell_def

lemma other_messages_count:
  "d_shellsSpawned (snd (routeMessageShellCommand wr now m d)) = d_shellsSpawned d"
  "d_shellsSpawned (snd (routeMessageShellResize m d)) = d_shellsSpawned d"
  "d_shellsSpawned (snd (routeMessagePongShell m d)) = d_shellsSpawned d"
  by (auto simp: route_defs Let_def split: option.splits prod.splits)

lemma other_messages_ok:
  "ok_reg (d_reg d) \<Longrightarrow> ok_reg (d_reg (snd (routeMessageShellCommand wr now m d)))"
  "ok_reg (d_reg d) \<Longrightarrow> ok_reg (d_reg (snd (routeMessageShellResize m d)))"
  "ok_reg (d_reg d) \<Longrightarrow> ok_reg (d_reg (snd (routeMessagePongShell m d)))"
  by (auto simp: route_defs Let_def HealthcheckPong_def ok_modify split: option.splits prod.splits
        dest!: ShellCommand_index SessionResizeShell_index ok_same_index)

text \<open>The count never passes the limit, and the registry stays consistent.\<close>

definition ok_daemon :: "daemon \<Rightarrow> bool" where
  "ok_daemon d \<longleftrightarrow> d_shellsSpawned d \<le> MaxShellsSpawned \<and> ok_reg (d_reg d)"

lemma routeMessageSpawnShell_ok:
  assumes "routeMessageSpawnShell po now m d = (x, d')" and ok: "ok_daemon d"
  shows "ok_daemon d'"
  using assms(1)
proof (cases rule: routeMessageSpawnShell_cases)
  case full
  with ok show ?thesis by (simp add: ok_daemon_def)
next
  case (refused e d1)
  with ok spawn_session_other [OF refused(2)] spawn_session_ok [OF refused(2)]
  show ?thesis by (simp add: ok_daemon_def)
next
  case (failed r d1 e reg rsp)
  with ok spawn_session_other [OF failed(2)] spawn_session_ok [OF failed(2)]
    ok_same_index [OF StartShell_index [OF failed(4)]]
  show ?thesis by (simp add: ok_daemon_def)
next
  case (started r d1 reg rsp)
  have "d_shellsSpawned d + 1 \<le> MaxShellsSpawned" using started(1) by (rule inc_le)
  with ok spawn_session_other [OF started(2)] spawn_session_ok [OF started(2)]
    ok_same_index [OF StartShell_index [OF started(4)]] started
  show ?thesis by (simp add: ok_daemon_def)
qed

lemma le_count: "unat (d_shellsSpawned d') \<le> unat (d_shellsSpawned d) \<Longrightarrow>
    d_shellsSpawned d \<le> MaxShellsSpawned \<Longrightarrow> d_shellsSpawned d' \<le> MaxShellsSpawned"
  by (simp add: word_le_nat_alt)

lemma stop_done_daemon: "ok_daemon d \<Longrightarrow> ok_daemon (snd (stop_done rsp r d))"
  using stop_done_ok [of d rsp r] le_count [of "snd (stop_done rsp r d)" d]
  by (simp add: ok_daemon_def stop_done_count)

lemma routeMessageStopShell_ok:
  assumes "routeMessageStopShell po m d = (x, d')" and ok: "ok_daemon d"
  shows "ok_daemon d'"
  using assms(1)
proof (cases rule: routeMessageStopShell_cases)
  case user
  with ok stop_user_shells_frame [OF user(2)] show ?thesis by (auto simp: ok_daemon_def intro: le_count)
next
  case (unknown e)
  with ok show ?thesis by (simp add: ok_daemon_def)
next
  case (alive r e e' reg)
  with ok ok_same_index [OF StopShell_index [OF alive(3)]] show ?thesis by (simp add: ok_daemon_def)
next
  case (stopped r res reg)
  with ok ok_same_index [OF StopShell_index [OF stopped(3)]]
    stop_done_daemon [of "d\<lparr>d_reg := reg\<rparr>" "response_to m" r]
  show ?thesis by (simp add: ok_daemon_def) (metis snd_conv)
qed

lemma route_shell_cases:
  assumes "route_shell po wr now m d = Some (x, d')"
  obtains "MsgType (Header m) = MessageTypeSpawnShell" "routeMessageSpawnShell po now m d = (x, d')"
    | "MsgType (Header m) = MessageTypeStopShell" "routeMessageStopShell po m d = (x, d')"
    | "MsgType (Header m) = MessageTypeShellCommand" "routeMessageShellCommand wr now m d = (x, d')"
    | "MsgType (Header m) = MessageTypeResizeShell" "routeMessageShellResize m d = (x, d')"
    | "MsgType (Header m) = MessageTypePongShell" "routeMessagePongShell m d = (x, d')"
  using assms by (auto simp: route_shell_def Let_def split: if_splits)

lemma route_shell_ok:
  assumes "route_shell po wr now m d = Some (x, d')" and ok: "ok_daemon d"
  shows "ok_daemon d'"
  using assms(1)
proof (cases rule: route_shell_cases)
  case 3
  with ok other_messages_count(1) [of wr now m d] other_messages_ok(1) [of d wr now m]
  show ?thesis by (simp add: ok_daemon_def)
next
  case 4
  with ok other_messages_count(2) [of m d] other_messages_ok(2) [of d m]
  show ?thesis by (simp add: ok_daemon_def)
next
  case 5
  with ok other_messages_count(3) [of m d] other_messages_ok(3) [of d m]
  show ?thesis by (simp add: ok_daemon_def)
qed (use ok routeMessageSpawnShell_ok routeMessageStopShell_ok in blast)+

text \<open>
  What happens to the daemon's terminals: messages are routed one after the other, while
  other goroutines (the health checks, the sweep, the loss of the authorization) end sessions
  and lower the count.
\<close>

inductive terminal_step ::
  "proc_os \<Rightarrow> (ref \<Rightarrow> bytes \<Rightarrow> nat \<times> gerror option) \<Rightarrow> daemon \<Rightarrow> daemon \<Rightarrow> bool"
  for po :: proc_os and wr :: "ref \<Rightarrow> bytes \<Rightarrow> nat \<times> gerror option" where
  message: "route_shell po wr now m d = Some (Routed e, d') \<Longrightarrow> terminal_step po wr d d'"
| decrease: "terminal_step po wr d (DecreaseSpawnedShellsCount n d)"
| sessions: "reg_step po (d_reg d) reg \<Longrightarrow> terminal_step po wr d (d\<lparr>d_reg := reg\<rparr>)"

lemma terminal_step_ok: "terminal_step po wr d d' \<Longrightarrow> ok_daemon d \<Longrightarrow> ok_daemon d'"
proof (induction rule: terminal_step.induct)
  case (message now m d e d')
  then show ?case by (blast intro: route_shell_ok)
next
  case (decrease d n)
  with le_count [of "DecreaseSpawnedShellsCount n d" d] show ?case
    by (simp add: ok_daemon_def DecreaseSpawnedShellsCount_count)
next
  case (sessions d reg)
  with reg_step_ok [OF sessions(1)] show ?case by (simp add: ok_daemon_def)
qed

lemma terminal_reach_ok: "(terminal_step po wr)\<^sup>*\<^sup>* d d' \<Longrightarrow> ok_daemon d \<Longrightarrow> ok_daemon d'"
  by (induction rule: rtranclp_induct) (auto intro: terminal_step_ok)

text \<open>
  C14. At most sixteen shells are counted, whatever the order of messages and of the other
  goroutines' work: from a start below the limit the count stays within it, the session
  tables stay consistent, and at the limit every request for a shell is refused without
  touching them.
\<close>

theorem shells_bounded:
  assumes "(terminal_step po wr)\<^sup>*\<^sup>* d d'" and "d_shellsSpawned d \<le> MaxShellsSpawned" and "ok_reg (d_reg d)"
  shows "unat (d_shellsSpawned d') \<le> 16 \<and> wf_reg (d_reg d') \<and>
     (unat (d_shellsSpawned d') = 16 \<longrightarrow> (\<exists>d''. routeMessageSpawnShell po now m d' =
        (Routed (Some (Sentinel ErrSessionTooManyShellsAlreadyRunning)), d'') \<and> d_reg d'' = d_reg d'))"
proof -
  have ok: "ok_daemon d'" using terminal_reach_ok [OF assms(1)] assms(2,3) by (simp add: ok_daemon_def)
  then have le: "unat (d_shellsSpawned d') \<le> 16" and wf: "wf_reg (d_reg d')"
    by (simp_all add: ok_daemon_def ok_reg_def word_le_nat_alt MaxShellsSpawned_def)
  have "\<exists>d''. routeMessageSpawnShell po now m d' =
        (Routed (Some (Sentinel ErrSessionTooManyShellsAlreadyRunning)), d'') \<and> d_reg d'' = d_reg d'"
    if "unat (d_shellsSpawned d') = 16"
    using that by (simp add: routeMessageSpawnShell_def MaxShellsSpawned_def word_le_nat_alt Let_def)
  with le wf show ?thesis by blast
qed

section \<open>Answers\<close>

definition terminal_reply :: "ProtoMsg \<Rightarrow> gerror option \<Rightarrow> ProtoMsg list" where
  "terminal_reply m e =
     (let t = MsgType (Header m); ok = response_to m in
      if t = MessageTypeSpawnShell
      then [answer (case e of None \<Rightarrow> ok\<lparr>Body := ''Shell started''\<rparr> | Some _ \<Rightarrow> ok) e]
      else if t = MessageTypeStopShell then [answer ok e]
      else if t = MessageTypeShellCommand then (if e = None then [] else [answer ok e])
      else [])"

lemma with_id_of:
  "id_of reg r = SessionID (Header m) \<Longrightarrow>
     (response_to m)\<lparr>Header := (Header (response_to m))\<lparr>SessionID := id_of reg r\<rparr>\<rparr> = response_to m"
  by (simp add: response_to_def mk_msg_def)

lemma answer_some_body: "answer (rsp\<lparr>Body := b\<rparr>) (Some e) = answer rsp (Some e)"
  by (simp add: answer_def with_status_def)

lemma routeMessageSpawnShell_answer:
  assumes "routeMessageSpawnShell po now m d = (Routed e, d')" and "reliable (d_wire d)" "ok_reg (d_reg d)"
  shows "wire_out (d_wire d') = wire_out (d_wire d) @
     [answer (case e of None \<Rightarrow> (response_to m)\<lparr>Body := ''Shell started''\<rparr> | Some _ \<Rightarrow> response_to m) e]"
  using assms(1)
proof (cases rule: routeMessageSpawnShell_cases)
  case full
  with assms(2) show ?thesis by simp
next
  case (refused e d1)
  with assms(2) spawn_session_other [OF refused(2)] show ?thesis by simp
next
  case (failed r d1 e reg rsp)
  with assms(2) spawn_session_other [OF failed(2)] with_id_of [of "d_reg d1" r m]
    spawn_session_id [OF failed(2) assms(3)]
  show ?thesis by simp
next
  case (started r d1 reg rsp)
  with assms(2) spawn_session_other [OF started(2)] with_id_of [of "d_reg d1" r m]
    spawn_session_id [OF started(2) assms(3)]
  show ?thesis by simp
qed

lemma stop_user_shells_answer:
  assumes "stop_user_shells po m d = (Routed e, d')" and "reliable (d_wire d)"
  shows "wire_out (d_wire d') = wire_out (d_wire d) @ [answer (response_to m) e]"
  using assms by (auto simp: stop_user_shells_def Let_def split: if_splits prod.splits option.splits)

lemma routeMessageStopShell_answer:
  assumes "routeMessageStopShell po m d = (Routed e, d')" and "reliable (d_wire d)"
  shows "wire_out (d_wire d') = wire_out (d_wire d) @ [answer (response_to m) e]"
  using assms(1)
proof (cases rule: routeMessageStopShell_cases)
  case user
  with assms(2) stop_user_shells_answer show ?thesis by blast
next
  case (stopped r res reg)
  from stopped(4) assms(2) show ?thesis by (auto simp: stop_done_def Let_def split: prod.splits if_splits)
qed (use assms(2) in simp_all)

text \<open>
  C29. Every request is answered as it ended. Over a working connection a request to start or
  stop a shell gets exactly one response of its own kind, protocol and session, with the
  status and text of the outcome; a command is answered only when it failed, a change of size
  and an answer to the health check never.
\<close>

theorem terminal_answers:
  assumes "route_shell po wr now m d = Some (Routed e, d')" and "reliable (d_wire d)" and "ok_reg (d_reg d)"
  shows "wire_out (d_wire d') = wire_out (d_wire d) @ terminal_reply m e \<and>
     (\<forall>rsp \<in> set (terminal_reply m e). Proto (Header rsp) = Proto (Header m) \<and>
        MsgType (Header rsp) = MsgType (Header m) \<and> SessionID (Header rsp) = SessionID (Header m) \<and>
        prop_get (Properties (Header rsp)) ''status'' =
          Some (IfStatus (if e = None then NormalMessage else ErrorMessage)) \<and>
        (\<forall>x. e = Some x \<longrightarrow> Body rsp = err_msg x))"
proof
  show "wire_out (d_wire d') = wire_out (d_wire d) @ terminal_reply m e"
    using assms(1)
  proof (cases rule: route_shell_cases)
    case 1
    with routeMessageSpawnShell_answer [OF 1(2) assms(2,3)] show ?thesis by (simp add: terminal_reply_def Let_def)
  next
    case 2
    with routeMessageStopShell_answer [OF 2(2) assms(2)] show ?thesis by (simp add: terminal_reply_def)
  qed (use assms(2) in \<open>auto simp: route_defs terminal_reply_def Let_def split: option.splits prod.splits if_splits\<close>)
next
  show "\<forall>rsp \<in> set (terminal_reply m e). Proto (Header rsp) = Proto (Header m) \<and>
        MsgType (Header rsp) = MsgType (Header m) \<and> SessionID (Header rsp) = SessionID (Header m) \<and>
        prop_get (Properties (Header rsp)) ''status'' =
          Some (IfStatus (if e = None then NormalMessage else ErrorMessage)) \<and>
        (\<forall>x. e = Some x \<longrightarrow> Body rsp = err_msg x)"
    by (auto simp: terminal_reply_def Let_def answer_def response_to_def with_status_def mk_msg_def
          prop_get_def split: option.splits)
qed

section \<open>A shell's life\<close>

lemma started_count:
  assumes "d_shellsSpawned d < MaxShellsSpawned"
  shows "unat (d_shellsSpawned d + 1) = Suc (unat (d_shellsSpawned d))" "d_shellsSpawned d + 1 \<noteq> 0"
proof -
  have "unat (d_shellsSpawned d) < 16" using assms by (simp add: word_less_nat_alt MaxShellsSpawned_def)
  then show u: "unat (d_shellsSpawned d + 1) = Suc (unat (d_shellsSpawned d))" by (simp add: unat_word_ariths)
  show "d_shellsSpawned d + 1 \<noteq> 0"
  proof
    assume "d_shellsSpawned d + 1 = 0"
    with u show False by simp
  qed
qed

text \<open>The session a request without one under its id creates.\<close>

lemma spawn_session_new:
  assumes "spawn_session now m d = (Inr r, d')" and "sr_map (d_reg d) (SessionID (Header m)) = None"
  shows "r = sr_next (d_reg d) \<and> sr_map (d_reg d') = (sr_map (d_reg d))(SessionID (Header m) \<mapsto> r) \<and>
     (\<exists>x. sr_heap (d_reg d') r = Some x \<and> ms_shell x = None \<and> ms_status x = NewSession)"
  using assms
  by (auto simp: spawn_session_def MenderShellSessionGetById_def NewMenderShellSession_def Let_def
        split: if_splits option.splits)

lemma spawn_session_refused:
  "spawn_session now m d = (Inl e, d') \<Longrightarrow> e = Sentinel ErrSessionShellTooManySessionsPerUser"
  by (auto simp: spawn_session_def NewMenderShellSession_def Let_def split: if_splits option.splits)


text \<open>
  A shell that could not be started takes the daemon down with the next command. The
  session it was for stays in the table without a terminal: a command, or a change of size,
  for it dereferences a missing writer in the message loop, which does not recover.
\<close>

theorem failed_shell_crashes:
  assumes ok: "ok_reg (d_reg d)" and new: "MenderShellSessionGetById (d_reg d) (SessionID (Header m)) = None"
    and run: "routeMessageSpawnShell po now m d = (Routed (Some (Wrapped ''failed to start shell'' e)), d1)"
    and sid: "SessionID (Header m') = SessionID (Header m)"
  shows "routeMessageShellCommand wr now' m' d1 = (RoutePanic, d1) \<and>
     (mapPropertiesToTerminalHeightAndWidth (Properties (Header m')) = (h, w) \<longrightarrow> 0 < h \<longrightarrow> 0 < w \<longrightarrow>
        routeMessageShellResize m' d1 = (RoutePanic, d1))"
  using run
proof (cases rule: routeMessageSpawnShell_cases)
  case (refused e1 d0)
  with spawn_session_refused [OF refused(2)] show ?thesis by simp
next
  case (failed r d0 e1 reg rsp)
  let ?k = "SessionID (Header m)"
  from new spawn_session_new [OF failed(2)] obtain x where
    x: "sr_map (d_reg d0) = (sr_map (d_reg d))(?k \<mapsto> r)" "sr_heap (d_reg d0) r = Some x"
       "ms_shell x = None" "ms_status x = NewSession" by (auto simp: MenderShellSessionGetById_def)
  with failed(4) have "sr_map reg ?k = Some r" "sr_heap reg r = Some x"
    by (auto simp: StartShell_def split: sum.splits)
  with failed(6) sid x show ?thesis
    by (auto simp: routeMessageShellCommand_def routeMessageShellResize_def MenderShellSessionGetById_def
          ShellSessions.ShellCommand_def SessionResizeShell_def modify_def Let_def)
qed simp_all

text \<open>A client that starts a shell and is then never heard of again: the health check of the
  new session ends it.\<close>

definition lost_client :: "proc_os \<Rightarrow> int \<Rightarrow> ProtoMsg \<Rightarrow> daemon \<Rightarrow> daemon" where
  "lost_client po now m d =
     (let d = snd (routeMessageSpawnShell po now m d)
      in case MenderShellSessionGetById (d_reg d) (SessionID (Header m)) of
           None \<Rightarrow> d
         | Some r \<Rightarrow> d\<lparr>d_reg := snd (healthcheck_timeout po now r (d_reg d))\<rparr>)"

text \<open>A host on which shells start, and end when they are told to.\<close>

definition obedient :: "proc_os \<Rightarrow> bool" where
  "obedient po \<longleftrightarrow> (\<forall>k t. \<not> isl (ExecuteShell po k t)) \<and> (\<forall>pid. po_FindProcess po pid = None) \<and>
     (\<forall>pid. po_Signal po pid = None) \<and> (\<forall>pid. TerminateAndWait po pid = None)"

lemma spawn_first:
  assumes ok: "ok_reg (d_reg d)" and none: "sr_map (d_reg d) = Map.empty"
  shows "\<exists>r d1. spawn_session now m d = (Inr r, d1)"
proof -
  let ?u = "getUserIdFromMessage m"
  from ok have wf: "wf_reg (d_reg d)" and mx: "0 < sr_MaxUserSessions (d_reg d)" by (simp_all add: ok_reg_def)
  have "rs = []" if "sr_by_user (d_reg d) ?u = Some rs" for rs
    using wf_user [OF wf that] none by (cases rs) auto
  with mx none show ?thesis
    by (auto simp: spawn_session_def MenderShellSessionGetById_def NewMenderShellSession_def Let_def
          split: option.splits)
qed

lemma StartShell_fresh:
  assumes "StartShell po now t r s = (e, s')" "obedient po" "sr_heap s r = Some x" "ms_status x = NewSession"
  shows "e = None \<and> (\<exists>y. sr_heap s' r = Some y \<and> ms_shell y = Some True \<and> ms_status y = ActiveSession \<and>
    ms_id y = ms_id x)"
proof -
  have "\<not> isl (ExecuteShell po (sr_starts s) t)" using assms(2) by (simp add: obedient_def)
  then obtain pid where "ExecuteShell po (sr_starts s) t = Inr pid" by (cases "ExecuteShell po (sr_starts s) t") auto
  with assms(1,3,4) show ?thesis by (auto simp: StartShell_def modify_def)
qed

lemma stop_by_id_obedient:
  assumes "obedient po" "ok_reg s" "sr_map s k = Some r" "sr_heap s r = Some x"
    "ms_shell x = Some b" "ms_status x = ActiveSession"
  shows "\<exists>s'. MenderShellStopById po k s = (None, s') \<and> ok_reg s' \<and> sr_map s' = (sr_map s)(k := None)"
proof -
  obtain res s1 where st: "StopShell po r s = (res, s1)" by fastforce
  have res: "res = None" using st assms by (auto simp: StopShell_def obedient_def Let_def)
  note i = StopShell_index [OF st]
  have k1: "sr_map s1 k = Some r" using i assms(3) by (simp add: same_index_def)
  have ok1: "ok_reg s1" using ok_same_index [OF i] assms(2) by simp
  then have "wf_reg s1" by (simp add: ok_reg_def)
  then obtain u rs s2 where d: "MenderShellDeleteById k s1 = (None, s2)" "sr_map s2 = (sr_map s1)(k := None)"
    using delete_wf [OF _ k1] by metis
  have "ok_reg s2" using delete_ok [OF ok1, of k] d by simp
  moreover have "MenderShellStopById po k s = (None, s2)"
    using assms st res d by (simp add: MenderShellStopById_def)
  ultimately show ?thesis using d i by (simp add: same_index_def)
qed

lemma lost_client_round:
  assumes po: "obedient po" and ok: "ok_reg (d_reg d)" and none: "sr_map (d_reg d) = Map.empty"
    and lt: "d_shellsSpawned d < MaxShellsSpawned"
  shows "ok_reg (d_reg (lost_client po now m d)) \<and> sr_map (d_reg (lost_client po now m d)) = Map.empty \<and>
     unat (d_shellsSpawned (lost_client po now m d)) = Suc (unat (d_shellsSpawned d))"
proof -
  let ?k = "SessionID (Header m)"
  obtain x d1 where run: "routeMessageSpawnShell po now m d = (x, d1)" by fastforce
  obtain r0 d0 where sp: "spawn_session now m d = (Inr r0, d0)" using spawn_first [OF ok none] by blast
  from spawn_session_new [OF sp] none obtain y where
    y: "sr_map (d_reg d0) = [?k \<mapsto> r0]" "sr_heap (d_reg d0) r0 = Some y" "ms_status y = NewSession" by auto
  from run show ?thesis
  proof (cases rule: routeMessageSpawnShell_cases)
    case (started r d' reg rsp)
    then have same: "r = r0" "d' = d0" using sp by simp_all
    note i = StartShell_index [OF started(4)]
    have ok0: "ok_reg (d_reg d0)" using spawn_session_ok [OF sp ok] .
    from StartShell_fresh [OF started(4) po] y same obtain z where
      z: "sr_heap reg r0 = Some z" "ms_shell z = Some True" "ms_status z = ActiveSession" "ms_id z = ms_id y" by auto
    have mp: "sr_map reg = [?k \<mapsto> r0]" using i same y by (simp add: same_index_def)
    have okr: "ok_reg reg" using ok_same_index [OF i] ok0 same by simp
    then have id: "id_of reg r0 = ?k" using wf_map [of reg ?k r0] mp by (auto simp: ok_reg_def intro: id_of_idx)
    let ?s = "modify r0 (\<lambda>x. x\<lparr>ms_expiresAt := now\<rparr>) reg"
    have "ok_reg ?s" using okr by (simp add: ok_modify)
    moreover have "sr_map ?s ?k = Some r0" "sr_heap ?s r0 = Some (z\<lparr>ms_expiresAt := now\<rparr>)"
      using mp z by (simp_all add: modify_def)
    ultimately obtain s' where s': "MenderShellStopById po ?k ?s = (None, s')" "ok_reg s'"
        "sr_map s' = (sr_map ?s)(?k := None)"
      using stop_by_id_obedient [OF po, of ?s ?k r0 "z\<lparr>ms_expiresAt := now\<rparr>" True] z by auto
    have d1: "d_reg d1 = reg" "d_shellsSpawned d1 = d_shellsSpawned d + 1"
      using started(6) spawn_session_other [OF sp] same by simp_all
    have "lost_client po now m d = d1\<lparr>d_reg := s'\<rparr>"
      using run d1 mp id s'(1) by (simp add: lost_client_def Let_def MenderShellSessionGetById_def healthcheck_timeout_def)
    with s' mp d1 started_count(1) [OF lt] show ?thesis by (simp add: modify_def)
  next
    case (failed r d' e reg rsp)
    with sp StartShell_fresh [OF failed(4) po] y show ?thesis by simp
  qed (use lt sp in simp_all)
qed

lemma lost_client_rounds:
  assumes "obedient po" "ok_reg (d_reg d)" "sr_map (d_reg d) = Map.empty" "d_shellsSpawned d = 0" "n \<le> 16"
  shows "ok_reg (d_reg ((lost_client po now m ^^ n) d)) \<and> sr_map (d_reg ((lost_client po now m ^^ n) d)) = Map.empty \<and>
     unat (d_shellsSpawned ((lost_client po now m ^^ n) d)) = n"
  using assms(5)
proof (induction n)
  case (Suc n)
  let ?d = "(lost_client po now m ^^ n) d"
  from Suc have "d_shellsSpawned ?d < MaxShellsSpawned" by (simp add: word_less_nat_alt MaxShellsSpawned_def)
  with Suc lost_client_round [OF assms(1), of ?d now m] show ?case by simp
qed (use assms in simp)

text \<open>
  Clients that vanish use the device up. The health check ends a session without giving
  its place back to the daemon's count: on a host where everything works, after sixteen
  clients that were lost one after the other no session exists, and every further request for
  a shell is refused as one too many.
\<close>

theorem lost_clients_exhaust:
  assumes "obedient po" and "ok_reg (d_reg d)" and "\<forall>k. MenderShellSessionGetById (d_reg d) k = None"
    and "d_shellsSpawned d = 0" and "d16 = (lost_client po now m ^^ 16) d"
  shows "MenderShellSessionGetCount (d_reg d16) = 0 \<and>
     fst (routeMessageSpawnShell po now' m' d16) = Routed (Some (Sentinel ErrSessionTooManyShellsAlreadyRunning))"
proof -
  have "sr_map (d_reg d) = Map.empty" using assms(3) by (auto simp: MenderShellSessionGetById_def)
  from lost_client_rounds [OF assms(1,2) this assms(4), of 16] assms(5)
  have "sr_map (d_reg d16) = Map.empty" "unat (d_shellsSpawned d16) = 16" by simp_all
  then show ?thesis
    by (simp add: MenderShellSessionGetCount_def routeMessageSpawnShell_def MaxShellsSpawned_def word_le_nat_alt Let_def)
qed

section \<open>Examples\<close>

definition sample_daemon :: daemon where
  "sample_daemon = \<lparr>d_wire = good_wire, d_reg = empty_registry, d_shellsSpawned = 0, d_authorized = True,
     d_serverJwt = ''t'', d_serverUrl = ''u'', d_shell = ''/bin/sh'', d_shellArguments = [], d_expireAfter = 0,
     d_expireAfterIdle = 0, d_terminalString = ''xterm'', d_uid = 0, d_gid = 0, d_gids = [], d_homeDir = ''/'',
     d_Terminal = \<lparr>tc_Width = 80, tc_Height = 40, tc_Disable = False\<rparr>\<rparr>"

definition shell_request :: "string \<Rightarrow> ProtoMsg" where
  "shell_request t = mk_msg ProtoTypeShell t ''s1'' (Some [''user_id'' \<mapsto> IfString ''u1'']) []"

lemma sample_daemon_ok: "ok_reg (d_reg sample_daemon)"
  by (simp add: sample_daemon_def ok_reg_def empty_registry_def wf_reg_def idx_def)

lemma sample_daemon_none: "MenderShellSessionGetById (d_reg sample_daemon) k = None"
  by (simp add: sample_daemon_def MenderShellSessionGetById_def empty_registry_def)

lemma sample_po_obedient: "obedient sample_po"
  by (simp add: obedient_def sample_po_def ExecuteShell_def TerminateAndWait_def)

lemma sample_spawn:
  "routeMessageSpawnShell sample_po 5 (shell_request ''new'') sample_daemon =
     (Routed None, snd (routeMessageSpawnShell sample_po 5 (shell_request ''new'') sample_daemon))"
proof -
  have "fst (routeMessageSpawnShell sample_po 5 (shell_request ''new'') sample_daemon) = Routed None"
    by code_simp
  then show ?thesis by (metis prod.collapse)
qed

theorem shells_bounded_witness:
  "unat (d_shellsSpawned (snd (routeMessageSpawnShell sample_po 5 (shell_request ''new'') sample_daemon))) \<le> 16"
proof -
  have "route_shell sample_po (\<lambda>_ _. (0, None)) 5 (shell_request ''new'') sample_daemon =
      Some (Routed None, snd (routeMessageSpawnShell sample_po 5 (shell_request ''new'') sample_daemon))"
    using sample_spawn by (simp add: route_shell_def shell_request_def)
  then have "(terminal_step sample_po (\<lambda>_ _. (0, None)))\<^sup>*\<^sup>* sample_daemon
      (snd (routeMessageSpawnShell sample_po 5 (shell_request ''new'') sample_daemon))"
    by (blast intro: terminal_step.message)
  from shells_bounded [OF this _ sample_daemon_ok] show ?thesis by (simp add: sample_daemon_def)
qed

theorem terminal_answers_witness:
  "wire_out (d_wire (snd (routeMessageSpawnShell sample_po 5 (shell_request ''new'') sample_daemon))) =
     [(response_to (shell_request ''new''))\<lparr>Body := ''Shell started''\<rparr>]"
proof -
  have "route_shell sample_po (\<lambda>_ _. (0, None)) 5 (shell_request ''new'') sample_daemon =
      Some (Routed None, snd (routeMessageSpawnShell sample_po 5 (shell_request ''new'') sample_daemon))"
    using sample_spawn by (simp add: route_shell_def shell_request_def)
  from terminal_answers [OF this _ sample_daemon_ok] show ?thesis
    by (simp add: terminal_reply_def answer_def shell_request_def sample_daemon_def Let_def)
       (simp add: good_wire_def)
qed


theorem failed_shell_crashes_witness:
  "\<exists>d1. routeMessageSpawnShell (sample_po\<lparr>po_CurrentUid := Inl (ErrText ''no user'')\<rparr>) 5
       (shell_request ''new'') sample_daemon = (Routed (Some (Wrapped ''failed to start shell''
          (ErrText (''unknown error with exec.Command('' @ ''/bin/sh'' @ '')'')))), d1) \<and>
     routeMessageShellCommand (\<lambda>_ _. (0, None)) 6 (shell_request ''shell'') d1 = (RoutePanic, d1)"
proof -
  let ?po = "sample_po\<lparr>po_CurrentUid := Inl (ErrText ''no user'')\<rparr>"
  let ?e = "ErrText (''unknown error with exec.Command('' @ ''/bin/sh'' @ '')'')"
  have "fst (routeMessageSpawnShell ?po 5 (shell_request ''new'') sample_daemon) =
      Routed (Some (Wrapped ''failed to start shell'' ?e))" by code_simp
  then obtain d1 where run: "routeMessageSpawnShell ?po 5 (shell_request ''new'') sample_daemon =
      (Routed (Some (Wrapped ''failed to start shell'' ?e)), d1)" by (metis prod.collapse)
  have "routeMessageShellCommand (\<lambda>_ _. (0, None)) 6 (shell_request ''shell'') d1 = (RoutePanic, d1)"
    using failed_shell_crashes [OF sample_daemon_ok sample_daemon_none run, of "shell_request ''shell''"]
    by (simp add: shell_request_def)
  with run show ?thesis by blast
qed

theorem lost_clients_exhaust_witness:
  "fst (routeMessageSpawnShell sample_po 0 (shell_request ''new'')
     ((lost_client sample_po 5 (shell_request ''new'') ^^ 16) sample_daemon)) =
   Routed (Some (Sentinel ErrSessionTooManyShellsAlreadyRunning))"
  using lost_clients_exhaust [OF sample_po_obedient sample_daemon_ok _ _ refl, of 5 "shell_request ''new''" 0
      "shell_request ''new''"] sample_daemon_none
  by (simp add: sample_daemon_def del: funpow.simps)


end
