(* ===== verification/Timers.thy ===== *)
theory Timers
  imports Prelude
begin

text \<open>
  \<open>time.Timer\<close> as Go has it up to version 1.22, the one of \<open>go.mod\<close>: its channel holds one value, and
  \<open>Reset\<close> sets a new time without taking out a value that is there already. So a loop can meet a
  tick that is older than the last \<open>Reset\<close>. Used by the idle time-out of sessions and by the health
  check of shells. Instants are nanoseconds.
\<close>

text \<open>When the timer fires, if it runs, and whether its channel holds a value.\<close>

record go_timer =
  tm_due :: "int option"
  tm_full :: bool

definition NewTimer :: "int \<Rightarrow> int \<Rightarrow> go_timer" where
  "NewTimer now d = \<lparr>tm_due = Some (now + d), tm_full = False\<rparr>"

definition timer_Reset :: "int \<Rightarrow> int \<Rightarrow> go_timer \<Rightarrow> go_timer" where
  "timer_Reset now d tm = tm\<lparr>tm_due := Some (now + d)\<rparr>"

text \<open>The runtime may fire it when it is due, at once or later; the value sent to a full channel is
  dropped. A loop that receives takes the value.\<close>

definition may_fire :: "int \<Rightarrow> go_timer \<Rightarrow> bool" where
  "may_fire now tm = (case tm_due tm of None \<Rightarrow> False | Some t \<Rightarrow> t \<le> now)"

definition timer_fire :: "go_timer \<Rightarrow> go_timer" where
  "timer_fire tm = \<lparr>tm_due = None, tm_full = True\<rparr>"

definition timer_receive :: "go_timer \<Rightarrow> go_timer" where
  "timer_receive tm = tm\<lparr>tm_full := False\<rparr>"

text \<open>A timer whose loop will hear from it: it runs, or its channel holds a value.\<close>

definition ticking :: "go_timer \<Rightarrow> bool" where
  "ticking tm \<longleftrightarrow> tm_due tm \<noteq> None \<or> tm_full tm"

lemma timer_sel [simp]:
  "tm_due (NewTimer now d) = Some (now + d)" "\<not> tm_full (NewTimer now d)"
  "tm_due (timer_Reset now d tm) = Some (now + d)" "tm_full (timer_Reset now d tm) = tm_full tm"
  "tm_due (timer_fire tm) = None" "tm_full (timer_fire tm)"
  "tm_due (timer_receive tm) = tm_due tm" "\<not> tm_full (timer_receive tm)"
  by (simp_all add: NewTimer_def timer_Reset_def timer_fire_def timer_receive_def)

lemma ticking_simps [simp]:
  "ticking (NewTimer now d)" "ticking (timer_Reset now d tm)" "ticking (timer_fire tm)"
  by (simp_all add: ticking_def)

lemma may_fireD: "may_fire now tm \<Longrightarrow> \<exists>t. tm_due tm = Some t \<and> t \<le> now"
  by (simp add: may_fire_def split: option.splits)

text \<open>Times that follow each other by less than a limit, the first one a start.\<close>

fun spaced :: "int \<Rightarrow> int \<Rightarrow> int list \<Rightarrow> bool" where
  "spaced limit prev [] = True"
| "spaced limit prev (t # ts) \<longleftrightarrow> t - prev < limit \<and> spaced limit t ts"

end
