(* ===== verification/Sessions.thy ===== *)
theory Sessions
  imports Stores Timers
begin

text \<open>
  A client's session (\<open>session/session.go\<close>): control messages, the handlers of the
  application protocols, created when their first message arrives and closed when the session
  ends, the ping after a silence, the time-out after a second one, and the recovery from
  panics in handlers.
\<close>

section \<open>State\<close>

text \<open>
  What a session is built with. The handlers' states are of a type of their own; a route is
  missing, or holds a constructor, which may be nil (\<open>Some None\<close>) and otherwise gives a new
  handler. \<open>se_order\<close> is the order in which Go happens to walk the map of routes.
  \<open>se_serve\<close> is the handlers' \<open>ServeProtoMsg\<close>, and \<open>se_close\<close> their \<open>Close\<close>, whose error
  nobody looks at. Durations are in nanoseconds. A handler returns, panics, never returns, or
  makes a fatal error, which ends the process and which no deferred function sees.
\<close>

datatype handler_end = SrvReturn | SrvPanic | SrvHang | SrvFatal

record 'h sess_env =
  se_codec :: codec
  se_Routes :: "ProtoType \<rightharpoonup> 'h option"
  se_order :: "ProtoType list"
  se_IdleTimeout :: int
  se_serve :: "ProtoMsg \<Rightarrow> 'h \<Rightarrow> wire \<Rightarrow> handler_end \<times> 'h \<times> wire"
  se_close :: "'h \<Rightarrow> wire \<Rightarrow> 'h \<times> wire"

text \<open>\<open>Session\<close>, with the loop's local \<open>sessIdle\<close>. \<open>ss_defers\<close> lists the protocols whose
  handlers have a deferred \<open>Close\<close>, the last one first; \<open>ss_done\<close> tells whether the channel
  \<open>done\<close> is closed.\<close>

record 'h session =
  ss_ID :: string
  ss_handlers :: "ProtoType \<rightharpoonup> 'h"
  ss_defers :: "ProtoType list"
  ss_idle :: bool
  ss_done :: bool

definition SessionNew :: "string \<Rightarrow> 'h session" where
  "SessionNew sid = \<lparr>ss_ID = sid, ss_handlers = Map.empty, ss_defers = [], ss_idle = False, ss_done = False\<rparr>"

section \<open>Control messages\<close>

definition control_msg :: "string \<Rightarrow> string \<Rightarrow> bytes \<Rightarrow> ProtoMsg" where
  "control_msg t sid b = mk_msg ProtoTypeControl t sid None b"

definition session_error :: "codec \<Rightarrow> string \<Rightarrow> ProtoMsg \<Rightarrow> bool \<Rightarrow> string \<Rightarrow> ProtoMsg" where
  "session_error cd sid msg cls errMessage =
     control_msg MessageTypeError sid (mar_ws_Error cd
       \<lparr>wse_Error = errMessage, wse_Close = cls, wse_Code = 0, wse_MessageProto = Proto (Header msg),
        wse_MessageType = MsgType (Header msg), wse_MessageID = prop_string (Properties (Header msg)) ''msgid''\<rparr>)"

definition SessionError :: "codec \<Rightarrow> string \<Rightarrow> ProtoMsg \<Rightarrow> bool \<Rightarrow> string \<Rightarrow> wire \<Rightarrow> wire" where
  "SessionError cd sid msg cls errMessage w = snd (WriteProtoMsg (session_error cd sid msg cls errMessage) w)"

text \<open>The result tells whether the session is to be closed.\<close>

definition HandleControl :: "'h sess_env \<Rightarrow> string \<Rightarrow> ProtoMsg \<Rightarrow> wire \<Rightarrow> bool \<times> wire" where
  "HandleControl E sid msg w =
     (let cd = se_codec E; t = MsgType (Header msg); err = SessionError cd sid msg in
      if t = MessageTypePing then
        (let (r, w) = WriteProtoMsg (control_msg MessageTypePong (SessionID (Header msg)) []) w
         in (r \<noteq> None, w))
      else if t = MessageTypePong then (False, w)
      else if t = MessageTypeOpen then
        (case unm_ws_Open cd (Body msg) of
           (_, Some e) \<Rightarrow> (True, err True (''failed to decode handshake request: '' @ err_msg e) w)
         | (versions, None) \<Rightarrow>
             if ProtocolVersion \<in> set versions then
               (let (r, w) = WriteProtoMsg (control_msg MessageTypeAccept (SessionID (Header msg))
                      (mar_ws_Accept cd \<lparr>wsa_Version = ProtocolVersion, wsa_Protocols = se_order E\<rparr>)) w
                in (r \<noteq> None, w))
             else (True, err True (''handshake rejected: require version '' @ itoa ProtocolVersion) w))
      else if t = MessageTypeAccept then
        (case unm_ws_Accept cd (Body msg) of
           (_, Some e) \<Rightarrow> (True, err True (''malformed handshake response: '' @ err_msg e) w)
         | (req, None) \<Rightarrow>
             if wsa_Version req \<noteq> ProtocolVersion
             then (True, err True (''unsupported protocol version '' @ itoa (wsa_Version req)
                     @ '': require version '' @ itoa ProtocolVersion) w)
             else (False, w))
      else if t = MessageTypeClose then (True, w)
      else if t = MessageTypeError then (wse_Close (fst (unm_ws_Error cd (Body msg))), w)
      else (False, err False (''session: control type message not understood: '' @ apos @ t @ apos) w))"

definition Ping :: "string \<Rightarrow> wire \<Rightarrow> gerror option \<times> wire" where
  "Ping sid w = WriteProtoMsg (control_msg MessageTypePing sid []) w"

section \<open>The loop\<close>

text \<open>What the \<open>select\<close> statement takes: the timer, a message, or the closing of the message
  channel. Any schedule of the timer and the senders is a list of these.\<close>

datatype sess_ev = is_Tick: Tick | Msg ProtoMsg | MsgClosed

datatype sess_end = SessTimeout | SessPingFailed | SessChanClosed | SessClosed | SessPanic | SessHang | SessFatal

text \<open>The ends after which no deferred function runs.\<close>

definition stuck :: "sess_end \<Rightarrow> bool" where
  "stuck r \<longleftrightarrow> r = SessHang \<or> r = SessFatal"

fun serve_outcome :: "handler_end \<Rightarrow> sess_end option" where
  "serve_outcome SrvReturn = None"
| "serve_outcome SrvPanic = Some SessPanic"
| "serve_outcome SrvHang = Some SessHang"
| "serve_outcome SrvFatal = Some SessFatal"

text \<open>Finding, or creating, the handler of a message and applying it.\<close>

definition session_apply ::
  "'h sess_env \<Rightarrow> ProtoMsg \<Rightarrow> 'h \<Rightarrow> 'h session \<Rightarrow> wire \<Rightarrow> sess_end option \<times> 'h session \<times> wire" where
  "session_apply E msg h s w =
     (let (r, h, w) = se_serve E msg h w
      in (serve_outcome r,
          s\<lparr>ss_handlers := (ss_handlers s)(Proto (Header msg) \<mapsto> h)\<rparr>, w))"

definition session_dispatch ::
  "'h sess_env \<Rightarrow> ProtoMsg \<Rightarrow> 'h session \<Rightarrow> wire \<Rightarrow> sess_end option \<times> 'h session \<times> wire" where
  "session_dispatch E msg s w =
     (let p = Proto (Header msg) in
      if p = ProtoTypeControl then
        (let (cls, w) = HandleControl E (ss_ID s) msg w in (if cls then Some SessClosed else None, s, w))
      else case ss_handlers s p of
        Some h \<Rightarrow> session_apply E msg h s w
      | None \<Rightarrow> (case se_Routes E p of
          None \<Rightarrow> (None, s, SessionError (se_codec E) (ss_ID s) msg False
                    (''no handler registered for protocol: 0x'' @ upper (hex_pad 4 (unat p))) w)
        | Some None \<Rightarrow> (Some SessPanic, s, w)
        | Some (Some h) \<Rightarrow>
            session_apply E msg h (s\<lparr>ss_handlers := (ss_handlers s)(p \<mapsto> h), ss_defers := p # ss_defers s\<rparr>) w))"

definition session_turn ::
  "'h sess_env \<Rightarrow> sess_ev \<Rightarrow> 'h session \<Rightarrow> wire \<Rightarrow> sess_end option \<times> 'h session \<times> wire" where
  "session_turn E ev s w =
     (case ev of
        Tick \<Rightarrow>
          if ss_idle s
          then (Some SessTimeout, s, SessionError (se_codec E) (ss_ID s) zero_msg True ''session timeout'' w)
          else (case Ping (ss_ID s) w of
                  (Some e, w) \<Rightarrow> (Some SessPingFailed, s, w)
                | (None, w) \<Rightarrow> (None, s\<lparr>ss_idle := True\<rparr>, w))
      | MsgClosed \<Rightarrow> (Some SessChanClosed, s, w)
      | Msg msg \<Rightarrow> session_dispatch E msg (s\<lparr>ss_idle := False\<rparr>) w)"

text \<open>The deferred calls: the handlers' \<open>Close\<close>, the last created first, then \<open>handlePanic\<close>.\<close>

fun close_handlers :: "'h sess_env \<Rightarrow> ProtoType list \<Rightarrow> 'h session \<Rightarrow> wire \<Rightarrow> 'h session \<times> wire" where
  "close_handlers E [] s w = (s, w)"
| "close_handlers E (p # ps) s w =
     (case ss_handlers s p of
        None \<Rightarrow> close_handlers E ps s w
      | Some h \<Rightarrow> (case se_close E h w of
          (h, w) \<Rightarrow> close_handlers E ps (s\<lparr>ss_handlers := (ss_handlers s)(p \<mapsto> h)\<rparr>) w))"

definition handlePanic :: "'h sess_env \<Rightarrow> bool \<Rightarrow> 'h session \<Rightarrow> wire \<Rightarrow> 'h session \<times> wire" where
  "handlePanic E panicked s w =
     (s\<lparr>ss_done := True\<rparr>,
      if panicked then SessionError (se_codec E) (ss_ID s) zero_msg True ''internal error'' w else w)"

definition session_finish :: "'h sess_env \<Rightarrow> sess_end \<Rightarrow> 'h session \<Rightarrow> wire \<Rightarrow> 'h session \<times> wire" where
  "session_finish E r s w =
     (if stuck r then (s, w)
      else case close_handlers E (ss_defers s) s w of
        (s, w) \<Rightarrow> handlePanic E (r = SessPanic) (s\<lparr>ss_defers := []\<rparr>) w)"

text \<open>A run over a schedule: how it ended, or \<open>None\<close> when the loop still waits.\<close>

fun session_run ::
  "'h sess_env \<Rightarrow> sess_ev list \<Rightarrow> 'h session \<Rightarrow> wire \<Rightarrow> sess_end option \<times> 'h session \<times> wire" where
  "session_run E [] s w = (None, s, w)"
| "session_run E (ev # evs) s w =
     (case session_turn E ev s w of
        (Some r, s, w) \<Rightarrow> (case session_finish E r s w of (s, w) \<Rightarrow> (Some r, s, w))
      | (None, s, w) \<Rightarrow> session_run E evs s w)"

text \<open>\<open>ListenAndServe\<close> on a session that has finished panics, and closing \<open>done\<close> a second
  time panics again, in the deferred function: the process ends, \<open>None\<close>.\<close>

definition ListenAndServe ::
  "'h sess_env \<Rightarrow> sess_ev list \<Rightarrow> 'h session \<Rightarrow> wire \<Rightarrow> (sess_end option \<times> 'h session \<times> wire) option" where
  "ListenAndServe E evs s w = (if ss_done s then None else Some (session_run E evs s w))"

section \<open>The timer\<close>

definition pingWait :: "'h sess_env \<Rightarrow> int" where "pingWait E = se_IdleTimeout E * 4 div 5"
definition pongWait :: "'h sess_env \<Rightarrow> int" where "pongWait E = se_IdleTimeout E - pingWait E"

text \<open>
  The loop with its timer \<open>timerPing\<close>. The runtime fires the timer, or the \<open>select\<close> takes something,
  at the time when the loop has then dealt with the timer; \<open>late\<close> tells of a tick whether the timer
  fired once more while the ping was being written. The result is \<open>None\<close> for a schedule that cannot
  happen: time goes backwards, the timer fires before it is due, a tick is taken from an empty
  channel, or something is taken after the loop has ended.
\<close>

datatype clock_ev = Fires | Takes sess_ev bool

definition after_take :: "'h sess_env \<Rightarrow> int \<Rightarrow> bool \<Rightarrow> sess_ev \<Rightarrow> bool \<Rightarrow> go_timer \<Rightarrow> go_timer" where
  "after_take E t idle ev late tm =
     (case ev of
        Tick \<Rightarrow>
          (let tm = timer_receive tm
           in if idle then tm else timer_Reset t (pongWait E) (if late then timer_fire tm else tm))
      | Msg m \<Rightarrow> timer_Reset t (pingWait E) tm
      | MsgClosed \<Rightarrow> tm)"

fun timed_run ::
  "'h sess_env \<Rightarrow> int \<Rightarrow> go_timer \<Rightarrow> (int \<times> clock_ev) list \<Rightarrow> 'h session \<Rightarrow> wire \<Rightarrow>
     ((sess_end option \<times> 'h session \<times> wire) \<times> int \<times> go_timer) option" where
  "timed_run E now tm [] s w = Some ((None, s, w), now, tm)"
| "timed_run E now tm ((t, Fires) # evs) s w =
     (if now \<le> t \<and> may_fire t tm then timed_run E t (timer_fire tm) evs s w else None)"
| "timed_run E now tm ((t, Takes ev late) # evs) s w =
     (if t < now \<or> (is_Tick ev \<and> \<not> tm_full tm) \<or> (late \<and> \<not> may_fire t tm) then None
      else case session_turn E ev s w of
        (None, s', w') \<Rightarrow> timed_run E t (after_take E t (ss_idle s) ev late tm) evs s' w'
      | (Some r, s', w') \<Rightarrow>
          if evs = [] then Some ((case session_finish E r s' w' of (s', w') \<Rightarrow> (Some r, s', w')),
            t, after_take E t (ss_idle s) ev late tm)
          else None)"

declare timed_run.simps(3) [simp del]

section \<open>Handlers and their defers\<close>

text \<open>A running session has one deferred \<open>Close\<close> for each of its handlers.\<close>

definition wf_session :: "'h session \<Rightarrow> bool" where
  "wf_session s \<longleftrightarrow> distinct (ss_defers s) \<and> set (ss_defers s) = dom (ss_handlers s)"

lemma wf_SessionNew [simp]: "wf_session (SessionNew sid)"
  by (simp add: wf_session_def SessionNew_def)

lemma wf_session_upd:
  "wf_session s \<Longrightarrow> ss_handlers s p = Some h \<Longrightarrow> ss_defers s' = ss_defers s \<Longrightarrow>
   ss_handlers s' = (ss_handlers s)(p \<mapsto> h') \<Longrightarrow> wf_session s'"
  by (simp add: wf_session_def insert_absorb domI)

lemma session_apply_frame:
  "session_apply E msg h s w = (r, s', w') \<Longrightarrow>
     ss_ID s' = ss_ID s \<and> ss_defers s' = ss_defers s \<and> ss_idle s' = ss_idle s \<and> ss_done s' = ss_done s \<and>
     (\<exists>h'. ss_handlers s' = (ss_handlers s)(Proto (Header msg) \<mapsto> h')) \<and>
     r \<in> {None, Some SessPanic, Some SessHang, Some SessFatal}"
  by (auto simp: session_apply_def split: prod.splits elim: serve_outcome.elims)

lemma session_dispatch_frame:
  assumes "session_dispatch E msg s w = (r, s', w')"
  shows "ss_ID s' = ss_ID s \<and> ss_idle s' = ss_idle s \<and> ss_done s' = ss_done s \<and>
     (wf_session s \<longrightarrow> wf_session s') \<and>
     r \<in> {None, Some SessClosed, Some SessPanic, Some SessHang, Some SessFatal}"
proof (cases "Proto (Header msg) = ProtoTypeControl")
  case True
  with assms show ?thesis by (auto simp: session_dispatch_def Let_def split: prod.splits if_splits)
next
  case False
  note d = assms [unfolded session_dispatch_def Let_def]
  show ?thesis
  proof (cases "ss_handlers s (Proto (Header msg))")
    case (Some h)
    with d False have "session_apply E msg h s w = (r, s', w')" by simp
    from session_apply_frame [OF this] Some show ?thesis by (auto intro: wf_session_upd)
  next
    case None
    show ?thesis
    proof (cases "se_Routes E (Proto (Header msg))")
      case c: (Some c)
      show ?thesis
      proof (cases c)
        case (Some h)
        let ?s = "s\<lparr>ss_handlers := (ss_handlers s)(Proto (Header msg) \<mapsto> h),
          ss_defers := Proto (Header msg) # ss_defers s\<rparr>"
        have "wf_session s \<Longrightarrow> wf_session ?s" using None by (auto simp: wf_session_def)
        moreover from d False None c Some have "session_apply E msg h ?s w = (r, s', w')" by simp
        note session_apply_frame [OF this]
        ultimately show ?thesis using wf_session_upd [of ?s "Proto (Header msg)" h s'] by auto
      qed (use d False None c in auto)
    qed (use d False None in auto)
  qed
qed

lemma session_turn_frame:
  assumes "session_turn E ev s w = (r, s', w')"
  shows "ss_ID s' = ss_ID s \<and> ss_done s' = ss_done s \<and> (wf_session s \<longrightarrow> wf_session s')"
proof (cases ev)
  case (Msg m)
  with assms session_dispatch_frame [of E m "s\<lparr>ss_idle := False\<rparr>" w r s' w'] show ?thesis
    by (simp add: session_turn_def wf_session_def)
qed (use assms in \<open>auto simp: session_turn_def wf_session_def split: if_splits prod.splits option.splits\<close>)

lemma close_handlers_frame:
  "close_handlers E ps s w = (s', w') \<Longrightarrow>
     ss_ID s' = ss_ID s \<and> ss_done s' = ss_done s \<and> ss_defers s' = ss_defers s \<and> ss_idle s' = ss_idle s"
proof (induction ps arbitrary: s w)
  case (Cons p ps)
  show ?case
  proof (cases "ss_handlers s p")
    case (Some h)
    obtain h' w1 where "se_close E h w = (h', w1)" by fastforce
    with Cons.prems Some Cons.IH [of "s\<lparr>ss_handlers := (ss_handlers s)(p \<mapsto> h')\<rparr>" w1] show ?thesis by simp
  qed (use Cons in simp)
qed simp

lemma session_finish_frame:
  assumes "session_finish E r s w = (s', w')"
  shows "ss_ID s' = ss_ID s \<and> (if stuck r then s' = s \<and> w' = w else ss_done s' \<and> ss_defers s' = [])"
proof (cases "stuck r")
  case False
  obtain s1 w1 where c: "close_handlers E (ss_defers s) s w = (s1, w1)" by fastforce
  with assms False close_handlers_frame [OF c] show ?thesis by (auto simp: session_finish_def handlePanic_def)
qed (use assms in \<open>simp add: session_finish_def\<close>)

lemma session_run_frame:
  "session_run E evs s w = (r, s', w') \<Longrightarrow>
     ss_ID s' = ss_ID s \<and> (wf_session s \<longrightarrow> \<not> ss_done s \<longrightarrow> 
       (if r = None \<or> (\<exists>e. r = Some e \<and> stuck e) then wf_session s' \<and> \<not> ss_done s' else ss_done s' \<and> ss_defers s' = []))"
proof (induction evs arbitrary: s w)
  case (Cons ev evs)
  obtain r1 s1 w1 where t: "session_turn E ev s w = (r1, s1, w1)" by (rule prod_cases3)
  note f = session_turn_frame [OF t]
  show ?case
  proof (cases r1)
    case None
    with Cons.prems t have "session_run E evs s1 w1 = (r, s', w')" by simp
    from Cons.IH [OF this] f show ?thesis by auto
  next
    case (Some e)
    obtain s2 w2 where fin: "session_finish E e s1 w1 = (s2, w2)" by fastforce
    with Cons.prems t Some have "r = Some e" "s' = s2" by simp_all
    with session_finish_frame [OF fin] f show ?thesis by simp
  qed
qed simp

lemma session_run_append:
  "session_run E (xs @ ys) s w =
     (case session_run E xs s w of
        (None, s, w) \<Rightarrow> session_run E ys s w | (Some r, s, w) \<Rightarrow> (Some r, s, w))"
  by (induction xs arbitrary: s w) (auto split: option.splits prod.splits)

section \<open>When the timer ends a session\<close>

fun sess_msgs :: "sess_ev list \<Rightarrow> ProtoMsg list" where
  "sess_msgs [] = []"
| "sess_msgs (Msg m # evs) = m # sess_msgs evs"
| "sess_msgs (ev # evs) = sess_msgs evs"

text \<open>When the last message was taken, the start counting as one, and whether the channel of the timer
  held an old tick then. \<open>full\<close> tells whether it holds one now.\<close>

fun last_taken :: "int \<times> bool \<Rightarrow> bool \<Rightarrow> (int \<times> clock_ev) list \<Rightarrow> int \<times> bool" where
  "last_taken x full [] = x"
| "last_taken x full ((t, Fires) # evs) = last_taken x True evs"
| "last_taken x full ((t, Takes Tick late) # evs) = last_taken x late evs"
| "last_taken x full ((t, Takes (Msg m) late) # evs) = last_taken (t, full) full evs"
| "last_taken x full ((t, Takes MsgClosed late) # evs) = last_taken x full evs"

text \<open>
  What is known of the timer when the last message found an empty channel: until the ping it is the
  timer of that message, and after the ping that of the ping, which was written when the first had
  fired.
\<close>

definition on_schedule :: "'h sess_env \<Rightarrow> int \<Rightarrow> int \<Rightarrow> bool \<Rightarrow> go_timer \<Rightarrow> bool" where
  "on_schedule E since now idle tm \<longleftrightarrow>
     (let limit = (if idle then since + se_IdleTimeout E else since + pingWait E)
      in (case tm_due tm of None \<Rightarrow> True | Some d \<Rightarrow> limit \<le> d) \<and> (tm_full tm \<longrightarrow> limit \<le> now \<and> tm_due tm = None))"

lemma on_schedule_fire: "on_schedule E since now idle tm \<Longrightarrow> now \<le> t \<Longrightarrow> may_fire t tm \<Longrightarrow> on_schedule E since t idle (timer_fire tm)"
  by (auto simp: on_schedule_def Let_def dest!: may_fireD)

lemma on_schedule_message:
  "tm_full tm = False \<Longrightarrow> on_schedule E t t False (timer_Reset t (pingWait E) tm)"
  by (simp add: on_schedule_def)

lemma on_schedule_ping:
  "on_schedule E since now False tm \<Longrightarrow> tm_full tm \<Longrightarrow> now \<le> t \<Longrightarrow>
     on_schedule E since t True (timer_Reset t (pongWait E) (timer_receive tm))"
  by (simp add: on_schedule_def pongWait_def Let_def)

lemma on_schedule_not_late: "on_schedule E since now idle tm \<Longrightarrow> tm_full tm \<Longrightarrow> \<not> may_fire t tm"
  by (simp add: on_schedule_def may_fire_def Let_def)

lemma turn_idle:
  assumes "session_turn E ev s w = (None, s', w')"
  shows "ss_idle s' = (ev = Tick \<or> (ev = MsgClosed \<and> ss_idle s))"
proof (cases ev)
  case (Msg m)
  with assms session_dispatch_frame [of E m "s\<lparr>ss_idle := False\<rparr>" w None s' w'] show ?thesis
    by (simp add: session_turn_def)
qed (use assms in \<open>auto simp: session_turn_def split: if_splits option.splits prod.splits\<close>)

lemma turn_no_timeout:
  assumes "session_turn E ev s w = (Some SessTimeout, s', w')"
  shows "ev = Tick \<and> ss_idle s"
proof (cases ev)
  case (Msg m)
  with assms session_dispatch_frame [of E m "s\<lparr>ss_idle := False\<rparr>" w "Some SessTimeout" s' w'] show ?thesis
    by (simp add: session_turn_def)
qed (use assms in \<open>auto simp: session_turn_def split: if_splits option.splits prod.splits\<close>)

lemma turn_ends:
  assumes "session_turn E Tick s w = (None, s', w')"
  shows "\<not> ss_idle s"
  using assms by (auto simp: session_turn_def split: if_splits)

lemma timed_run_Takes:
  assumes "timed_run E now tm ((t, Takes ev late) # evs) s w = Some ((r, s', w'), now', tm')"
  obtains (goes_on) s1 w1 where "now \<le> t" "ev = Tick \<Longrightarrow> tm_full tm" "late \<Longrightarrow> may_fire t tm"
      "session_turn E ev s w = (None, s1, w1)"
      "timed_run E t (after_take E t (ss_idle s) ev late tm) evs s1 w1 = Some ((r, s', w'), now', tm')"
  | (ends) e s1 w1 where "now \<le> t" "ev = Tick \<Longrightarrow> tm_full tm" "session_turn E ev s w = (Some e, s1, w1)" "r = Some e"
      "evs = []" "now' = t"
proof -
  obtain r1 s1 w1 where t: "session_turn E ev s w = (r1, s1, w1)" by (rule prod_cases3)
  from assms have ok: "now \<le> t" "ev = Tick \<Longrightarrow> tm_full tm" "late \<Longrightarrow> may_fire t tm"
    by (auto simp: timed_run.simps(3) is_Tick_def split: if_splits)
  show thesis
  proof (cases r1)
    case None
    from assms t None ok show thesis by (intro goes_on) (auto simp: timed_run.simps(3) is_Tick_def split: if_splits)
  next
    case (Some e)
    from assms t Some ok show thesis
      by (intro ends) (auto simp: timed_run.simps(3) is_Tick_def split: if_splits prod.splits)
  qed
qed

lemma timed_run_now: "timed_run E now tm evs s w = Some (x, now', tm') \<Longrightarrow> now \<le> now'"
proof (induction E now tm evs s w rule: timed_run.induct)
  case (3 E now tm t ev late evs s w)
  obtain r s1 w1 where x: "x = (r, s1, w1)" by (rule prod_cases3)
  note IH = "3.IH"
  from "3.prems" [unfolded x] show ?case
  proof (cases rule: timed_run_Takes)
    case (goes_on s2 w2)
    have "\<not> (t < now \<or> (is_Tick ev \<and> \<not> tm_full tm) \<or> (late \<and> \<not> may_fire t tm))" using goes_on(1-3) by (auto simp: is_Tick_def)
    from IH [OF this goes_on(4) [symmetric] refl refl] goes_on(1,5) x show ?thesis by simp
  qed simp
qed (auto split: if_splits)

text \<open>A session that is timed out has been silent for the whole of the idle time-out, if the last
  message found the timer's channel empty.\<close>

lemma timeout_after:
  assumes "timed_run E now tm evs s w = Some ((Some SessTimeout, s', w'), now', tm')"
    and "\<not> snd x \<Longrightarrow> on_schedule E (fst x) now (ss_idle s) tm"
    and "\<not> snd (last_taken x (tm_full tm) evs)"
  shows "fst (last_taken x (tm_full tm) evs) + se_IdleTimeout E \<le> now'"
  using assms
proof (induction evs arbitrary: now tm s w x)
  case (Cons a evs)
  obtain t c where a: "a = (t, c)" by fastforce
  show ?case
  proof (cases c)
    case Fires
    with Cons.prems(1) a have run: "now \<le> t" "may_fire t tm"
      "timed_run E t (timer_fire tm) evs s w = Some ((Some SessTimeout, s', w'), now', tm')" by (auto split: if_splits)
    have "\<not> snd x \<Longrightarrow> on_schedule E (fst x) t (ss_idle s) (timer_fire tm)"
      using on_schedule_fire [OF Cons.prems(2) run(1,2)] by blast
    from Cons.IH [OF run(3) this] Cons.prems(3) a Fires show ?thesis by simp
  next
    case (Takes ev late)
    note run = Cons.prems(1) [unfolded a Takes]
    from run show ?thesis
    proof (cases rule: timed_run_Takes)
      case (ends e s1 w1)
      then have "session_turn E ev s w = (Some SessTimeout, s1, w1)" by simp
      from turn_no_timeout [OF this] ends(2) have ev: "ev = Tick" "ss_idle s" "tm_full tm" by simp_all
      have "\<not> snd x" using Cons.prems(3) a Takes ev(1) ends(5) by simp
      with Cons.prems(2) ev ends(1) have "fst x + se_IdleTimeout E \<le> now" by (simp add: on_schedule_def Let_def)
      with ends a Takes ev show ?thesis by simp
    next
      case (goes_on s1 w1)
      note idle = turn_idle [OF goes_on(4)]
      show ?thesis
      proof (cases ev)
        case Tick
        then have ni: "\<not> ss_idle s" "tm_full tm" using turn_ends [of E s w s1 w1] goes_on by auto
        let ?tm = "timer_Reset t (pongWait E) (if late then timer_fire (timer_receive tm) else timer_receive tm)"
        have at: "after_take E t (ss_idle s) ev late tm = ?tm" using Tick ni(1) by (simp add: after_take_def)
        have "\<not> snd x \<Longrightarrow> on_schedule E (fst x) t (ss_idle s1) ?tm"
          using on_schedule_not_late [OF Cons.prems(2) ni(2)] on_schedule_ping [OF _ ni(2) goes_on(1)] Cons.prems(2) ni idle Tick goes_on(3)
          by auto
        from Cons.IH [OF goes_on(5) [unfolded at] this] Cons.prems(3) a Takes Tick show ?thesis by (cases late) simp_all
      next
        case (Msg m)
        have at: "after_take E t (ss_idle s) ev late tm = timer_Reset t (pingWait E) tm"
          using Msg by (simp add: after_take_def)
        have "\<not> snd (t, tm_full tm) \<Longrightarrow> on_schedule E (fst (t, tm_full tm)) t (ss_idle s1) (timer_Reset t (pingWait E) tm)"
          using idle Msg on_schedule_message [of tm E t] by simp
        from Cons.IH [OF goes_on(5) [unfolded at] this] Cons.prems(3) a Takes Msg show ?thesis by simp
      next
        case MsgClosed
        with goes_on(4) show ?thesis by (simp add: session_turn_def)
      qed
    qed
  qed
qed simp

text \<open>As long as the loop runs it will hear from its timer.\<close>

lemma timed_run_ticking:
  "timed_run E now tm evs s w = Some ((None, s', w'), now', tm') \<Longrightarrow> ticking tm \<Longrightarrow> ticking tm'"
proof (induction evs arbitrary: now tm s w)
  case (Cons a evs)
  obtain t c where a: "a = (t, c)" by fastforce
  show ?case
  proof (cases c)
    case Fires
    with Cons a show ?thesis by (auto split: if_splits)
  next
    case (Takes ev late)
    from Cons.prems(1) [unfolded a Takes] show ?thesis
    proof (cases rule: timed_run_Takes)
      case (goes_on s1 w1)
      have "ticking (after_take E t (ss_idle s) ev late tm)"
        using goes_on(4) turn_ends by (cases ev) (auto simp: after_take_def Let_def session_turn_def)
      from Cons.IH [OF goes_on(5) this] show ?thesis .
    qed simp
  qed
qed simp

text \<open>Without messages the second tick is the last.\<close>

fun ticks :: "(int \<times> clock_ev) list \<Rightarrow> nat" where
  "ticks [] = 0"
| "ticks ((t, Takes Tick late) # evs) = Suc (ticks evs)"
| "ticks (a # evs) = ticks evs"

fun hears_message :: "(int \<times> clock_ev) list \<Rightarrow> bool" where
  "hears_message [] = False"
| "hears_message ((t, Takes (Msg m) late) # evs) = True"
| "hears_message (a # evs) = hears_message evs"

lemma turn_tick:
  assumes "session_turn E Tick s w = (Some e, s', w')"
  shows "ss_idle s \<Longrightarrow> e = SessTimeout" "e \<in> {SessTimeout, SessPingFailed}"
  using assms by (auto simp: session_turn_def split: if_splits option.splits prod.splits)

lemma silent_ticks:
  "timed_run E now tm evs s w = Some ((r, s', w'), now', tm') \<Longrightarrow> \<not> hears_message evs \<Longrightarrow>
     ticks evs \<le> (if ss_idle s then 0 else 1) + (if r = None then 0 else 1) \<and>
     (ticks evs = 2 \<or> ss_idle s \<and> ticks evs = 1 \<longrightarrow> r = Some SessTimeout)"
proof (induction evs arbitrary: now tm s w)
  case (Cons a evs)
  obtain t c where a: "a = (t, c)" by fastforce
  show ?case
  proof (cases c)
    case Fires
    with Cons.prems a have "timed_run E t (timer_fire tm) evs s w = Some ((r, s', w'), now', tm')" "\<not> hears_message evs"
      by (auto split: if_splits)
    from Cons.IH [OF this] a Fires show ?thesis by simp
  next
    case (Takes ev late)
    from Cons.prems(1) [unfolded a Takes] show ?thesis
    proof (cases rule: timed_run_Takes)
      case (goes_on s1 w1)
      note idle = turn_idle [OF goes_on(4)]
      show ?thesis
      proof (cases ev)
        case Tick
        then have "\<not> hears_message evs" "\<not> ss_idle s"
          using Cons.prems(2) a Takes turn_ends [of E s w s1 w1] goes_on(4) by auto
        with Cons.IH [OF goes_on(5)] idle Tick a Takes show ?thesis by auto
      next
        case (Msg m)
        with Cons.prems(2) a Takes show ?thesis by simp
      next
        case MsgClosed
        with goes_on(4) show ?thesis by (simp add: session_turn_def)
      qed
    next
      case (ends e s1 w1)
      show ?thesis
      proof (cases ev)
        case Tick
        with ends(3) turn_tick(1) [of E s w e s1 w1] ends(4,5) a Takes show ?thesis by auto
      next
        case (Msg m)
        with Cons.prems(2) a Takes show ?thesis by simp
      next
        case MsgClosed
        with ends(4,5) a Takes show ?thesis by simp
      qed
    qed
  qed
qed simp

section \<open>The contract of the handlers\<close>

text \<open>
  What a session relies on: serving a message writes only messages of that message's session,
  and closing a handler writes nothing. \<open>cl\<close> is what closing makes of a handler.
\<close>

abbreviation in_session :: "string \<Rightarrow> ProtoMsg \<Rightarrow> bool" where
  "in_session sid m \<equiv> SessionID (Header m) = sid"

locale session_handlers =
  fixes E :: "'h sess_env" and cl :: "'h \<Rightarrow> 'h"
  assumes serve_own: "se_serve E m h w = (b, h', w') \<Longrightarrow>
      conn.extends_by (in_session (SessionID (Header m))) w w'"
    and close_law: "se_close E h w = (cl h, w)"
begin

lemma error_own: "conn.extends_by (in_session sid) w (SessionError cd sid msg c e w)"
  by (simp add: SessionError_def session_error_def control_msg_def conn.extends_by_wr)

lemma write_own:
  "WriteProtoMsg m w = (r, w') \<Longrightarrow> in_session sid m \<Longrightarrow> conn.extends_by (in_session sid) w w'"
  using conn.extends_by_wr [of "in_session sid" m w] by simp

lemma control_own:
  "HandleControl E sid m w = (b, w') \<Longrightarrow> in_session sid m \<Longrightarrow> conn.extends_by (in_session sid) w w'"
  by (auto simp: HandleControl_def Let_def error_own control_msg_def
        split: if_splits prod.splits option.splits elim!: write_own)

lemma dispatch_own:
  assumes run: "session_dispatch E m s w = (r, s', w')" and "in_session (ss_ID s) m"
  shows "conn.extends_by (in_session (ss_ID s)) w w'"
proof (cases "Proto (Header m) = ProtoTypeControl")
  case True
  with run assms(2) show ?thesis
    by (auto simp: session_dispatch_def Let_def split: prod.splits dest: control_own)
next
  case False
  have "conn.extends_by (in_session (ss_ID s)) w w'" if "session_apply E m h s1 w = (r, s', w')" for h s1
    using that assms(2) by (auto simp: session_apply_def split: prod.splits dest!: serve_own)
  with run False error_own show ?thesis
    by (auto simp: session_dispatch_def Let_def split: option.splits)
qed

lemma turn_own:
  assumes "session_turn E ev s w = (r, s', w')" and "\<And>m. ev = Msg m \<Longrightarrow> in_session (ss_ID s) m"
  shows "conn.extends_by (in_session (ss_ID s)) w w'"
proof (cases ev)
  case (Msg m)
  with assms dispatch_own [of m "s\<lparr>ss_idle := False\<rparr>" w r s' w'] show ?thesis by (simp add: session_turn_def)
next
  case Tick
  have "in_session (ss_ID s) (control_msg MessageTypePing (ss_ID s) [])" by (simp add: control_msg_def)
  with Tick assms(1) error_own write_own show ?thesis
    by (fastforce simp: session_turn_def Ping_def split: if_splits prod.splits option.splits)
qed (use assms in \<open>simp add: session_turn_def\<close>)

lemma close_all:
  "close_handlers E ps s w = (s', w') \<Longrightarrow> distinct ps \<Longrightarrow>
     w' = w \<and> ss_handlers s' = (\<lambda>p. if p \<in> set ps then map_option cl (ss_handlers s p) else ss_handlers s p)"
proof (induction ps arbitrary: s)
  case (Cons p ps)
  show ?case
  proof (cases "ss_handlers s p")
    case (Some h)
    with Cons.prems have "close_handlers E ps (s\<lparr>ss_handlers := (ss_handlers s)(p \<mapsto> cl h)\<rparr>) w = (s', w')"
      by (simp add: close_law)
    from Cons.IH [OF this] Cons.prems(2) Some show ?thesis by (auto simp: fun_eq_iff)
  next
    case None
    with Cons show ?thesis by (auto simp: fun_eq_iff)
  qed
qed simp

text \<open>The end of a session closes each of its handlers once, and after a panic tells the client.\<close>

lemma finish_closes:
  assumes "session_finish E r s w = (s', w')" and "wf_session s" and "\<not> stuck r"
  shows "ss_handlers s' = (\<lambda>p. map_option cl (ss_handlers s p)) \<and>
     w' = (if r = SessPanic then SessionError (se_codec E) (ss_ID s) zero_msg True ''internal error'' w else w)"
proof -
  obtain s1 w1 where c: "close_handlers E (ss_defers s) s w = (s1, w1)" by fastforce
  from close_all [OF c] assms(2) close_handlers_frame [OF c]
  have "w1 = w" "ss_handlers s1 = (\<lambda>p. map_option cl (ss_handlers s p))" "ss_ID s1 = ss_ID s"
    by (auto simp: wf_session_def fun_eq_iff)
  with assms(1,3) c show ?thesis by (auto simp: session_finish_def handlePanic_def)
qed

lemma run_own:
  "session_run E evs s w = (r, s', w') \<Longrightarrow> wf_session s \<Longrightarrow> \<forall>m \<in> set (sess_msgs evs). in_session (ss_ID s) m \<Longrightarrow>
     conn.extends_by (in_session (ss_ID s)) w w'"
proof (induction evs arbitrary: s w)
  case (Cons ev evs)
  obtain r1 s1 w1 where t: "session_turn E ev s w = (r1, s1, w1)" by (rule prod_cases3)
  have own: "conn.extends_by (in_session (ss_ID s)) w w1" using turn_own [OF t] Cons.prems(3) by simp
  note f = session_turn_frame [OF t]
  have rest: "\<forall>m \<in> set (sess_msgs evs). in_session (ss_ID s) m" using Cons.prems(3) by (cases ev) auto
  show ?case
  proof (cases r1)
    case None
    with Cons.prems t have "session_run E evs s1 w1 = (r, s', w')" by simp
    with Cons.IH [of s1 w1] f Cons.prems(2) rest own show ?thesis by (auto intro: conn.extends_by_trans)
  next
    case (Some e)
    obtain s2 w2 where fin: "session_finish E e s1 w1 = (s2, w2)" by fastforce
    have "conn.extends_by (in_session (ss_ID s)) w1 w2"
    proof (cases "stuck e")
      case True
      with session_finish_frame [OF fin] show ?thesis by simp
    next
      case False
      from finish_closes [OF fin _ this] f Cons.prems(2) show ?thesis
        using error_own [of "ss_ID s" w1] by auto
    qed
    with own Cons.prems(1) t Some fin show ?thesis by (auto intro: conn.extends_by_trans)
  qed
qed simp

text \<open>A run that ends does so at one event: everything before it was served, nothing after it
  is, and the handlers are those of that moment, closed.\<close>

lemma run_ends:
  "session_run E evs s w = (Some r, s', w') \<Longrightarrow> wf_session s \<Longrightarrow> \<not> ss_done s \<Longrightarrow> \<not> stuck r \<Longrightarrow>
   \<exists>pre ev post s0 w0 s1 w1. evs = pre @ ev # post \<and> session_run E pre s w = (None, s0, w0) \<and>
     session_turn E ev s0 w0 = (Some r, s1, w1) \<and> ss_done s' \<and>
     ss_handlers s' = (\<lambda>p. map_option cl (ss_handlers s1 p)) \<and>
     w' = (if r = SessPanic then SessionError (se_codec E) (ss_ID s) zero_msg True ''internal error'' w1 else w1)"
proof (induction evs arbitrary: s w)
  case (Cons ev evs)
  obtain r1 s1 w1 where t: "session_turn E ev s w = (r1, s1, w1)" by (rule prod_cases3)
  note f = session_turn_frame [OF t]
  show ?case
  proof (cases r1)
    case None
    with Cons.prems t have "session_run E evs s1 w1 = (Some r, s', w')" by simp
    from Cons.IH [OF this] f Cons.prems obtain pre e post s0 w0 s2 w2 where
      x: "evs = pre @ e # post" "session_run E pre s1 w1 = (None, s0, w0)"
        "session_turn E e s0 w0 = (Some r, s2, w2)" "ss_done s'" "ss_handlers s' = (\<lambda>p. map_option cl (ss_handlers s2 p))"
        "w' = (if r = SessPanic then SessionError (se_codec E) (ss_ID s1) zero_msg True ''internal error'' w2 else w2)"
      by metis
    have "session_run E (ev # pre) s w = (None, s0, w0)" using t None x(2) by simp
    with x f show ?thesis by (metis append_Cons)
  next
    case (Some e)
    obtain s2 w2 where fin: "session_finish E e s1 w1 = (s2, w2)" by fastforce
    have e: "\<not> stuck e" using Cons.prems(1,4) t Some fin by simp
    from finish_closes [OF fin _ e] session_finish_frame [OF fin] e f Cons.prems(2)
    have "ss_done s2" "ss_handlers s2 = (\<lambda>p. map_option cl (ss_handlers s1 p))"
      "w2 = (if e = SessPanic then SessionError (se_codec E) (ss_ID s) zero_msg True ''internal error'' w1 else w1)"
      by auto
    moreover have "r = e" "s' = s2" "w' = w2" using Cons.prems(1) t Some fin by simp_all
    moreover have "session_run E [] s w = (None, s, w)" by simp
    ultimately show ?thesis using t Some by (metis append_Nil)
  qed
qed simp

end

text \<open>
  With an invariant of the handlers of a session: what the constructors give satisfies it, and
  serving a message of the session, whatever the connection, and closing keep it.
\<close>

locale session_handlers_ok = session_handlers E cl
  for E :: "'h sess_env" and cl :: "'h \<Rightarrow> 'h" +
  fixes ok :: "string \<Rightarrow> 'h \<Rightarrow> bool"
  assumes route_ok: "se_Routes E p = Some (Some h) \<Longrightarrow> ok sid h"
    and serve_ok: "ok (SessionID (Header m)) h \<Longrightarrow> se_serve E m h w = (b, h', w') \<Longrightarrow> ok (SessionID (Header m)) h'"
    and close_ok: "ok sid h \<Longrightarrow> ok sid (cl h)"
begin

definition all_ok :: "'h session \<Rightarrow> bool" where
  "all_ok s \<longleftrightarrow> (\<forall>p h. ss_handlers s p = Some h \<longrightarrow> ok (ss_ID s) h)"

lemma all_okD: "all_ok s \<Longrightarrow> ss_handlers s p = Some h \<Longrightarrow> ok (ss_ID s) h"
  by (simp add: all_ok_def)

lemma apply_ok:
  "session_apply E m h s w = (r, s', w') \<Longrightarrow> all_ok s \<Longrightarrow> ok (ss_ID s) h \<Longrightarrow> in_session (ss_ID s) m \<Longrightarrow> all_ok s'"
  using serve_ok [of m h w] by (auto simp: session_apply_def all_ok_def split: prod.splits if_splits)

lemma dispatch_ok:
  assumes run: "session_dispatch E m s w = (r, s', w')" and ok: "all_ok s" and own: "in_session (ss_ID s) m"
  shows "all_ok s'"
proof (cases "Proto (Header m) = ProtoTypeControl")
  case True
  with run ok show ?thesis by (auto simp: session_dispatch_def Let_def split: prod.splits)
next
  case False
  note d = run [unfolded session_dispatch_def Let_def]
  show ?thesis
  proof (cases "ss_handlers s (Proto (Header m))")
    case (Some h)
    with d False have "session_apply E m h s w = (r, s', w')" by simp
    from apply_ok [OF this ok all_okD [OF ok Some] own] show ?thesis .
  next
    case None
    show ?thesis
    proof (cases "se_Routes E (Proto (Header m))")
      case c: (Some c)
      show ?thesis
      proof (cases c)
        case (Some h)
        let ?s = "s\<lparr>ss_handlers := (ss_handlers s)(Proto (Header m) \<mapsto> h), ss_defers := Proto (Header m) # ss_defers s\<rparr>"
        have h: "ok (ss_ID s) h" using c Some by (auto intro: route_ok)
        with ok have "all_ok ?s" by (auto simp: all_ok_def)
        moreover from d False None c Some have "session_apply E m h ?s w = (r, s', w')" by simp
        ultimately show ?thesis using h own apply_ok [of m h ?s w r s' w'] by simp
      qed (use d False None c ok in auto)
    qed (use d False None ok in auto)
  qed
qed

lemma turn_ok:
  assumes "session_turn E ev s w = (r, s', w')" and "all_ok s" and "\<And>m. ev = Msg m \<Longrightarrow> in_session (ss_ID s) m"
  shows "all_ok s'"
proof (cases ev)
  case (Msg m)
  have "all_ok (s\<lparr>ss_idle := False\<rparr>)" using assms(2) by (simp add: all_ok_def)
  with Msg assms(1) dispatch_ok [of m "s\<lparr>ss_idle := False\<rparr>"] assms(3) [OF Msg] show ?thesis
    by (simp add: session_turn_def)
qed (use assms in \<open>auto simp: session_turn_def all_ok_def split: if_splits prod.splits option.splits\<close>)

lemma run_ok:
  "session_run E evs s w = (None, s', w') \<Longrightarrow> all_ok s \<Longrightarrow> \<forall>m \<in> set (sess_msgs evs). in_session (ss_ID s) m \<Longrightarrow> all_ok s'"
proof (induction evs arbitrary: s w)
  case (Cons ev evs)
  obtain r s1 w1 where t: "session_turn E ev s w = (r, s1, w1)" by (rule prod_cases3)
  with Cons.prems(1) have "r = None" "session_run E evs s1 w1 = (None, s', w')"
    by (auto split: option.splits prod.splits)
  moreover have "all_ok s1" using Cons.prems(3) by (intro turn_ok [OF t Cons.prems(2)]) simp
  moreover have "\<forall>m \<in> set (sess_msgs evs). in_session (ss_ID s1) m"
    using Cons.prems(3) session_turn_frame [OF t] by (cases ev) simp_all
  ultimately show ?case using Cons.IH by blast
qed simp

text \<open>A run that ends leaves the handlers it had, closed, and they had kept the invariant.\<close>

lemma sess_msgs_append: "sess_msgs (xs @ ys) = sess_msgs xs @ sess_msgs ys"
  by (induction xs rule: sess_msgs.induct) simp_all

lemma run_end_closed:
  assumes "session_run E evs s w = (Some r, s', w')" "wf_session s" "\<not> ss_done s" "\<not> stuck r" "all_ok s"
    and "\<forall>m \<in> set (sess_msgs evs). in_session (ss_ID s) m" and "ss_handlers s' p = Some h"
  shows "\<exists>h0. ok (ss_ID s) h0 \<and> h = cl h0"
proof -
  from run_ends [OF assms(1-4)] obtain pre ev post s0 w0 w1 and s1 :: "'h session" where
    r: "evs = pre @ ev # post" "session_run E pre s w = (None, s0, w0)" "session_turn E ev s0 w0 = (Some r, s1, w1)"
      "ss_handlers s' = (\<lambda>p. map_option cl (ss_handlers s1 p))" by blast
  have id: "ss_ID s0 = ss_ID s" "ss_ID s1 = ss_ID s"
    using session_run_frame [OF r(2)] session_turn_frame [OF r(3)] by simp_all
  have "all_ok s0" using assms(6) r(1) by (intro run_ok [OF r(2) assms(5)]) (simp add: sess_msgs_append)
  moreover have "in_session (ss_ID s0) m" if "ev = Msg m" for m using that assms(6) r(1) id by (simp add: sess_msgs_append)
  ultimately have ok: "all_ok s1" by (rule turn_ok [OF r(3)])
  from r(4) assms(7) obtain h0 where h0: "ss_handlers s1 p = Some h0" "h = cl h0" by auto
  from all_okD [OF ok h0(1)] h0(2) id(2) show ?thesis by auto
qed

end

end
