(* ===== verification/Router.thy ===== *)
theory Router
  imports Sessions
begin

text \<open>
  The router of messages to sessions (\<open>session/router.go\<close>): a session is created by the first
  message with its ID, runs on its own until it ends, and then leaves the table.
\<close>

section \<open>State\<close>

text \<open>
  \<open>rt_sessions\<close> is the map of sessions, \<open>rt_stuck\<close> tells whose goroutine is in a handler that
  never returns, and \<open>rt_wire\<close> is the connection all of them write to.
\<close>

record 'h router =
  rt_sessions :: "string \<rightharpoonup> 'h session"
  rt_stuck :: "string set"
  rt_wire :: wire

definition NewRouter :: "wire \<Rightarrow> 'h router" where
  "NewRouter w = \<lparr>rt_sessions = Map.empty, rt_stuck = {}, rt_wire = w\<rparr>"

text \<open>How \<open>RouteMessage\<close> ends: the message was handed over, or refused; it blocks forever; or
  the session that got the message has ended the process.\<close>

datatype route_end = RouteOk | RouteErr gerror | RouteBlocks | ProcessDead

abbreviation "err_handoff \<equiv> ErrText ''session completed before message handoff''"

text \<open>\<open>Load\<close>, and \<open>LoadOrStore\<close> of a new session. Only the daemon's message loop calls
  \<open>RouteMessage\<close>, so nothing comes between the two.\<close>

definition load_or_new :: "string \<Rightarrow> 'h router \<Rightarrow> 'h session" where
  "load_or_new sid t = (case rt_sessions t sid of None \<Rightarrow> SessionNew sid | Some s \<Rightarrow> s)"

definition rt_put :: "string \<Rightarrow> 'h session \<Rightarrow> 'h router \<Rightarrow> 'h router" where
  "rt_put sid s t = t\<lparr>rt_sessions := (rt_sessions t)(sid \<mapsto> s)\<rparr>"

text \<open>
  A session's goroutine takes an event: the message handed over, or its timer. The channel has
  no buffer, so the session has the message when \<open>RouteMessage\<close> returns.
\<close>

definition startSession_turn ::
  "'h sess_env \<Rightarrow> sess_ev \<Rightarrow> string \<Rightarrow> 'h session \<Rightarrow> 'h router \<Rightarrow> sess_end option \<times> 'h router" where
  "startSession_turn E ev sid s t =
     (case session_run E [ev] s (rt_wire t) of
        (r, s, w) \<Rightarrow> (r, rt_put sid s (t\<lparr>rt_wire := w,
            rt_stuck := (if r = Some SessHang then insert sid (rt_stuck t) else rt_stuck t)\<rparr>)))"

definition RouteMessage :: "'h sess_env \<Rightarrow> ProtoMsg \<Rightarrow> 'h router \<Rightarrow> route_end \<times> 'h router" where
  "RouteMessage E m t =
     (let sid = SessionID (Header m); s = load_or_new sid t; t = rt_put sid s t in
      if ss_done s then (RouteErr err_handoff, t)
      else if sid \<in> rt_stuck t then (RouteBlocks, t)
      else case startSession_turn E (Msg m) sid s t of
        (Some SessFatal, t) \<Rightarrow> (ProcessDead, t)
      | (r, t) \<Rightarrow> (RouteOk, t))"

text \<open>The deferred \<open>Delete\<close> of \<open>startSession\<close>, after \<open>ListenAndServe\<close> has returned.\<close>

definition startSession_done :: "string \<Rightarrow> 'h router \<Rightarrow> 'h router" where
  "startSession_done sid t = t\<lparr>rt_sessions := (rt_sessions t)(sid := None)\<rparr>"

section \<open>Runs\<close>

text \<open>The steps of the router and the goroutines of its sessions, in any order: a message is
  routed, a session's timer fires, or a session that has ended leaves the table.\<close>

inductive router_step :: "'h sess_env \<Rightarrow> 'h router \<Rightarrow> string \<Rightarrow> 'h router \<Rightarrow> bool" for E where
  Route: "RouteMessage E m t = (r, t') \<Longrightarrow> r = RouteOk \<or> r = RouteErr e \<Longrightarrow> router_step E t (SessionID (Header m)) t'"
| Timer: "rt_sessions t sid = Some s \<Longrightarrow> \<not> ss_done s \<Longrightarrow> sid \<notin> rt_stuck t \<Longrightarrow>
    startSession_turn E Tick sid s t = (r, t') \<Longrightarrow> router_step E t sid t'"
| Ended: "rt_sessions t sid = Some s \<Longrightarrow> ss_done s \<Longrightarrow> router_step E t sid (startSession_done sid t)"

inductive_cases router_stepE: "router_step E t sid t'"

inductive router_reach :: "'h sess_env \<Rightarrow> wire \<Rightarrow> 'h router \<Rightarrow> bool" for E w where
  Start: "router_reach E w (NewRouter w)"
| Step: "router_reach E w t \<Longrightarrow> router_step E t sid t' \<Longrightarrow> router_reach E w t'"

section \<open>The table\<close>

definition wf_entry :: "'h router \<Rightarrow> string \<Rightarrow> 'h session \<Rightarrow> bool" where
  "wf_entry t sid s \<longleftrightarrow> ss_ID s = sid \<and>
     (if ss_done s then ss_defers s = [] \<and> sid \<notin> rt_stuck t else wf_session s)"

definition wf_router :: "'h router \<Rightarrow> bool" where
  "wf_router t \<longleftrightarrow> (\<forall>sid s. rt_sessions t sid = Some s \<longrightarrow> wf_entry t sid s) \<and>
     (\<forall>sid \<in> rt_stuck t. rt_sessions t sid \<noteq> None)"

lemma rt_put_sel [simp]:
  "rt_sessions (rt_put sid s t) = (rt_sessions t)(sid \<mapsto> s)" "rt_stuck (rt_put sid s t) = rt_stuck t"
  "rt_wire (rt_put sid s t) = rt_wire t"
  by (simp_all add: rt_put_def)

lemma load_or_new_wf:
  fixes t :: "'h router"
  assumes "wf_router t"
  shows "wf_entry t sid (load_or_new sid t)"
proof (cases "rt_sessions t sid")
  case None
  moreover have "ss_ID (SessionNew sid :: 'h session) = sid" "\<not> ss_done (SessionNew sid :: 'h session)" by (simp_all add: SessionNew_def)
  ultimately show ?thesis by (simp add: load_or_new_def wf_entry_def)
next
  case (Some s)
  with assms show ?thesis by (simp add: load_or_new_def wf_router_def)
qed

lemma rt_put_wf: "wf_router t \<Longrightarrow> wf_entry t sid s \<Longrightarrow> wf_router (rt_put sid s t)"
  by (auto simp: wf_router_def wf_entry_def)

text \<open>A turn of a session changes that session alone.\<close>

lemma startSession_turn_frame:
  assumes "startSession_turn E ev sid s t = (r, t')"
  obtains s' w' where "session_run E [ev] s (rt_wire t) = (r, s', w')"
    "rt_sessions t' = (rt_sessions t)(sid \<mapsto> s')" "rt_wire t' = w'"
    "rt_stuck t' = (if r = Some SessHang then insert sid (rt_stuck t) else rt_stuck t)"
  using assms by (cases "session_run E [ev] s (rt_wire t)")
    (auto simp add: startSession_turn_def simp del: session_run.simps)

lemma startSession_turn_wf:
  assumes "startSession_turn E ev sid s t = (r, t')" "wf_router t" "wf_entry t sid s" "\<not> ss_done s" "sid \<notin> rt_stuck t"
  shows "wf_router t'"
proof -
  from startSession_turn_frame [OF assms(1)] obtain s' w' where
    run: "session_run E [ev] s (rt_wire t) = (r, s', w')" and t': "rt_sessions t' = (rt_sessions t)(sid \<mapsto> s')"
      "rt_stuck t' = (if r = Some SessHang then insert sid (rt_stuck t) else rt_stuck t)" by metis
  from session_run_frame [OF run] assms(3-5)
  have "wf_entry t' sid s'" by (auto simp: wf_entry_def t' stuck_def split: if_splits)
  with assms(2) t' show ?thesis by (auto simp: wf_router_def wf_entry_def split: if_splits)
qed

lemma RouteMessage_cases:
  assumes "RouteMessage E m t = (r, t')"
  obtains (refused) "ss_done (load_or_new (SessionID (Header m)) t)" "r = RouteErr err_handoff"
      "t' = rt_put (SessionID (Header m)) (load_or_new (SessionID (Header m)) t) t"
  | (blocks) "\<not> ss_done (load_or_new (SessionID (Header m)) t)" "SessionID (Header m) \<in> rt_stuck t" "r = RouteBlocks"
      "t' = rt_put (SessionID (Header m)) (load_or_new (SessionID (Header m)) t) t"
  | (served) e where "\<not> ss_done (load_or_new (SessionID (Header m)) t)" "SessionID (Header m) \<notin> rt_stuck t"
      "startSession_turn E (Msg m) (SessionID (Header m)) (load_or_new (SessionID (Header m)) t)
         (rt_put (SessionID (Header m)) (load_or_new (SessionID (Header m)) t) t) = (e, t')"
      "r = (if e = Some SessFatal then ProcessDead else RouteOk)"
  using assms by (auto simp: RouteMessage_def Let_def split: if_splits prod.splits option.splits sess_end.splits)

lemma RouteMessage_wf:
  assumes "RouteMessage E m t = (r, t')" "wf_router t"
  shows "wf_router t'"
proof -
  note e = load_or_new_wf [OF assms(2), of "SessionID (Header m)"]
  from assms(1) show ?thesis
  proof (cases rule: RouteMessage_cases)
    case (served x)
    from startSession_turn_wf [OF served(3) rt_put_wf [OF assms(2) e]] served e show ?thesis by (simp add: wf_entry_def)
  qed (use rt_put_wf [OF assms(2) e] in simp_all)
qed

lemma startSession_done_wf:
  "wf_router t \<Longrightarrow> rt_sessions t sid = Some s \<Longrightarrow> ss_done s \<Longrightarrow> wf_router (startSession_done sid t)"
  by (auto simp: wf_router_def startSession_done_def wf_entry_def)

lemma router_step_wf: "router_step E t sid t' \<Longrightarrow> wf_router t \<Longrightarrow> wf_router t'"
proof (induction rule: router_step.induct)
  case (Timer t sid s r t')
  from Timer(5) Timer(1) have "wf_entry t sid s" by (simp add: wf_router_def)
  from startSession_turn_wf [OF Timer(4,5) this Timer(2,3)] show ?case .
qed (auto intro: RouteMessage_wf startSession_done_wf)

lemma router_reach_wf: "router_reach E w t \<Longrightarrow> wf_router t"
proof (induction rule: router_reach.induct)
  case Start
  then show ?case by (simp add: NewRouter_def wf_router_def)
qed (rule router_step_wf)

text \<open>The steps of one session leave the others alone.\<close>

lemma router_step_others: "router_step E t sid t' \<Longrightarrow> q \<noteq> sid \<Longrightarrow> rt_sessions t' q = rt_sessions t q"
  by (induction rule: router_step.induct)
     (auto simp: startSession_done_def elim!: RouteMessage_cases startSession_turn_frame)

section \<open>The table as a keyed store\<close>

text \<open>Deleting from the table, with the invariant that holds when the session may be in any state.\<close>

interpretation rt: keyed_store rt_sessions startSession_done "\<lambda>t. \<forall>sid s. rt_sessions t sid = Some s \<longrightarrow> ss_ID s = sid"
  by unfold_locales (auto simp: startSession_done_def split: if_splits)

section \<open>With the contract of the handlers\<close>

context session_handlers
begin

lemma router_turn_own:
  assumes "startSession_turn E ev sid s t = (r, t')" "wf_entry t sid s" "\<not> ss_done s"
    and "\<And>m. ev = Msg m \<Longrightarrow> in_session sid m"
  shows "conn.extends_by (in_session sid) (rt_wire t) (rt_wire t')"
proof -
  from startSession_turn_frame [OF assms(1)] obtain s' where
    run: "session_run E [ev] s (rt_wire t) = (r, s', rt_wire t')" by metis
  have "\<forall>m \<in> set (sess_msgs [ev]). in_session sid m" using assms(4) by (cases ev) auto
  with run_own [OF run] assms(2,3) show ?thesis by (simp add: wf_entry_def)
qed

lemma RouteMessage_own:
  assumes "RouteMessage E m t = (r, t')" and "wf_router t"
  shows "conn.extends_by (in_session (SessionID (Header m))) (rt_wire t) (rt_wire t')"
  using assms(1)
proof (cases rule: RouteMessage_cases)
  case (served x)
  let ?sid = "SessionID (Header m)"
  have "wf_entry (rt_put ?sid (load_or_new ?sid t) t) ?sid (load_or_new ?sid t)"
    using load_or_new_wf [OF assms(2), of ?sid] by (simp add: wf_entry_def)
  from router_turn_own [OF served(3) this served(1)] show ?thesis by auto
qed (simp_all only: rt_put_sel conn.extends_by_refl)

lemma router_step_own:
  "router_step E t sid t' \<Longrightarrow> wf_router t \<Longrightarrow> conn.extends_by (in_session sid) (rt_wire t) (rt_wire t')"
proof (induction rule: router_step.induct)
  case (Route m t r t' e)
  from RouteMessage_own [OF Route(1,3)] show ?case .
next
  case (Timer t sid s r t')
  from Timer(5) Timer(1) have "wf_entry t sid s" by (simp add: wf_router_def)
  from router_turn_own [OF Timer(4) this Timer(2)] show ?case by simp
qed (simp add: startSession_done_def)

end

text \<open>Running sessions hold handlers that satisfy their invariant, and a session that has ended
  holds such handlers closed.\<close>

context session_handlers_ok
begin

definition ok_entry :: "'h session \<Rightarrow> bool" where
  "ok_entry s \<longleftrightarrow> (if ss_done s then \<forall>p h. ss_handlers s p = Some h \<longrightarrow> (\<exists>h0. ok (ss_ID s) h0 \<and> h = cl h0) else all_ok s)"

lemma ok_entry_all: "ok_entry s \<Longrightarrow> all_ok s"
  by (fastforce simp: ok_entry_def all_ok_def intro: close_ok split: if_splits)

definition ok_entries :: "'h router \<Rightarrow> bool" where
  "ok_entries t \<longleftrightarrow> (\<forall>sid s. rt_sessions t sid = Some s \<longrightarrow> ok_entry s)"

lemma ok_entries_put: "ok_entries t \<Longrightarrow> ok_entry s \<Longrightarrow> ok_entries (rt_put sid s t)"
  by (auto simp: ok_entries_def)

lemma ok_load:
  assumes "ok_entries t"
  shows "ok_entry (load_or_new sid t)"
proof (cases "rt_sessions t sid")
  case None
  have "ok_entry (SessionNew sid)" by (simp add: ok_entry_def all_ok_def SessionNew_def)
  with None show ?thesis by (simp add: load_or_new_def)
qed (use assms in \<open>simp add: ok_entries_def load_or_new_def\<close>)

lemma turn_entry_ok:
  assumes "session_run E [ev] s w = (r, s', w')" "ss_ID s = sid" "wf_session s" "\<not> ss_done s" "ok_entry s"
    and own: "\<And>m. ev = Msg m \<Longrightarrow> in_session sid m"
  shows "ok_entry s'"
proof (cases "ss_done s'")
  case True
  with session_run_frame [OF assms(1)] assms(3,4) obtain x where x: "r = Some x" "\<not> stuck x"
    by (cases r) (auto split: if_splits)
  with assms(1) have run: "session_run E [ev] s w = (Some x, s', w')" by simp
  have ok: "all_ok s" using assms(4,5) by (simp add: ok_entry_def)
  have msgs: "\<forall>m \<in> set (sess_msgs [ev]). in_session (ss_ID s) m" using own assms(2) by (cases ev) simp_all
  from run_end_closed [OF run assms(3,4) x(2) ok msgs] True session_run_frame [OF assms(1)] show ?thesis
    by (auto simp: ok_entry_def)
next
  case False
  obtain r1 s1 w1 where t: "session_turn E ev s w = (r1, s1, w1)" by (rule prod_cases3)
  have ok: "all_ok s1" using turn_ok [OF t] assms(2,4,5) own by (simp add: ok_entry_def)
  have "s' = s1"
  proof (cases r1)
    case None
    with t assms(1) show ?thesis by simp
  next
    case (Some e)
    obtain s2 w2 where fin: "session_finish E e s1 w1 = (s2, w2)" by fastforce
    with t Some assms(1) have "s' = s2" by simp
    with session_finish_frame [OF fin] False show ?thesis by (auto split: if_splits)
  qed
  with ok False show ?thesis by (simp add: ok_entry_def)
qed

lemma turn_entries_ok:
  assumes "startSession_turn E ev sid s t = (r, t')" "wf_entry t sid s" "\<not> ss_done s" "ok_entries t" "ok_entry s"
    and own: "\<And>m. ev = Msg m \<Longrightarrow> in_session sid m"
  shows "ok_entries t'"
proof -
  from startSession_turn_frame [OF assms(1)] obtain s' w' where
    run: "session_run E [ev] s (rt_wire t) = (r, s', w')" and t': "rt_sessions t' = (rt_sessions t)(sid \<mapsto> s')" by metis
  from turn_entry_ok [OF run _ _ assms(3,5) own] assms(2,3) have "ok_entry s'" by (simp add: wf_entry_def)
  with assms(4) t' show ?thesis by (auto simp: ok_entries_def)
qed

lemma router_step_ok:
  "router_step E t sid t' \<Longrightarrow> wf_router t \<Longrightarrow> ok_entries t \<Longrightarrow> ok_entries t'"
proof (induction rule: router_step.induct)
  case (Route m t r t' e)
  let ?sid = "SessionID (Header m)"
  let ?s = "load_or_new ?sid t"
  note put = ok_entries_put [OF Route(4) ok_load [OF Route(4)], of ?sid ?sid]
  from Route(1) show ?case
  proof (cases rule: RouteMessage_cases)
    case (served x)
    have "wf_entry (rt_put ?sid ?s t) ?sid ?s"
      using load_or_new_wf [OF Route(3), of ?sid] by (simp add: wf_entry_def)
    from turn_entries_ok [OF served(3) this served(1) put ok_load [OF Route(4)]] show ?thesis by simp
  qed (use put in simp_all)
next
  case (Timer t sid s r t')
  from Timer(5) Timer(1) have "wf_entry t sid s" by (simp add: wf_router_def)
  moreover from Timer(6) Timer(1) have "ok_entry s" by (simp add: ok_entries_def)
  ultimately show ?case using turn_entries_ok [OF Timer(4) _ Timer(2,6)] by blast
next
  case (Ended t sid s)
  then show ?case by (auto simp: ok_entries_def startSession_done_def)
qed

text \<open>Whether it runs or has ended, a session's handlers satisfy their invariant; this survives
  whatever else keeps the invariant of a handler.\<close>

definition all_entries :: "'h router \<Rightarrow> bool" where
  "all_entries t \<longleftrightarrow> (\<forall>sid s. rt_sessions t sid = Some s \<longrightarrow> all_ok s)"

lemma turn_all:
  assumes "startSession_turn E ev sid s t = (r, t')" "wf_entry t sid s" "\<not> ss_done s" "all_entries t" "all_ok s"
    and "\<And>m. ev = Msg m \<Longrightarrow> in_session sid m"
  shows "all_entries t'"
proof -
  from startSession_turn_frame [OF assms(1)] obtain s' w' where
    run: "session_run E [ev] s (rt_wire t) = (r, s', w')" and t': "rt_sessions t' = (rt_sessions t)(sid \<mapsto> s')" by metis
  have "ok_entry s" using assms(3,5) by (simp add: ok_entry_def)
  with turn_entry_ok [OF run _ _ assms(3) _ assms(6)] assms(2,3) have "ok_entry s'" by (simp add: wf_entry_def)
  with assms(4) t' ok_entry_all show ?thesis by (auto simp: all_entries_def)
qed

lemma RouteMessage_all:
  assumes "RouteMessage E m t = (r, t')" "wf_router t" "all_entries t"
  shows "all_entries t'"
proof -
  let ?sid = "SessionID (Header m)"
  let ?s = "load_or_new ?sid t"
  have new: "all_ok (SessionNew ?sid)" by (simp add: all_ok_def SessionNew_def)
  with assms(3) have ld: "all_ok ?s" by (auto simp: load_or_new_def all_entries_def split: option.splits)
  with assms(3) have put: "all_entries (rt_put ?sid ?s t)" by (auto simp: all_entries_def)
  from assms(1) show ?thesis
  proof (cases rule: RouteMessage_cases)
    case (served x)
    have "wf_entry (rt_put ?sid ?s t) ?sid ?s" using load_or_new_wf [OF assms(2), of ?sid] by (simp add: wf_entry_def)
    from turn_all [OF served(3) this served(1) put ld] show ?thesis by simp
  qed (use put in simp_all)
qed

lemma reach_ok: "router_reach E w t \<Longrightarrow> ok_entries t"
proof (induction rule: router_reach.induct)
  case Start
  then show ?case by (simp add: NewRouter_def ok_entries_def)
next
  case (Step t sid t')
  then show ?case using router_step_ok router_reach_wf by blast
qed

end

end
