(* ===== verification/PortForward.thy ===== *)
theory PortForward
  imports Stores
begin

text \<open>
  Port forwarding (\<open>session/portforward.go\<close>): the handler that opens, feeds and stops
  connections for a client, and the goroutine per connection that carries the answers back,
  under the rule that version 1 has one unacknowledged message in flight.
\<close>

section \<open>State\<close>

definition portForwardBuffSize :: nat where "portForwardBuffSize = 4096"

abbreviation "PropertyConnectionID \<equiv> ''connection_id''"

text \<open>
  \<open>MenderPortForwarder\<close>. \<open>fw_ackLocked\<close> is the state of \<open>mutexAck\<close>, \<open>fw_cancelled\<close> that of
  the context, \<open>fw_reading\<close> tells whether its reader has not returned, and \<open>fw_conn\<close> is the
  connection: what has been written to it, how many writes there were, and whether \<open>Close\<close>
  has been called on it.
\<close>

record connection =
  cn_written :: bytes
  cn_writes :: nat
  cn_closed :: bool

record forwarder =
  fw_proto :: ProtoType
  fw_SessionID :: string
  fw_ConnectionID :: string
  fw_conn :: connection
  fw_closed :: bool
  fw_cancelled :: bool
  fw_reading :: bool
  fw_ackLocked :: bool

text \<open>The handler: forwarders are objects, and the table that they share with it holds
  references.\<close>

type_synonym fref = nat

record pf_state =
  pf_proto :: ProtoType
  pf_heap :: "fref \<rightharpoonup> forwarder"
  pf_next :: fref
  pf_map :: "string \<rightharpoonup> fref"
  pf_wire :: wire

text \<open>
  The network: what dialling gives, and for each connection what its writes and its closing
  give. \<open>nt_Write c k b\<close> is the number of bytes the \<open>k\<close>-th write on \<open>c\<close> takes of \<open>b\<close>, with its
  error.
\<close>

record net =
  nt_Dial :: "string \<Rightarrow> string \<Rightarrow> gerror option"
  nt_Write :: "fref \<Rightarrow> nat \<Rightarrow> bytes \<Rightarrow> nat \<times> gerror option"
  nt_Close :: "fref \<Rightarrow> gerror option"

text \<open>The contract of \<open>io.Writer\<close>: a write that takes less than it was given says why.\<close>

definition honest_net :: "net \<Rightarrow> bool" where
  "honest_net nt \<longleftrightarrow> (\<forall>c k b. fst (nt_Write nt c k b) \<le> length b \<and>
     (snd (nt_Write nt c k b) = None \<longrightarrow> fst (nt_Write nt c k b) = length b))"

definition pf_write :: "ProtoMsg \<Rightarrow> pf_state \<Rightarrow> gerror option \<times> pf_state" where
  "pf_write m s = (let (r, w) = WriteProtoMsg m (pf_wire s) in (r, s\<lparr>pf_wire := w\<rparr>))"

definition pf_modify :: "fref \<Rightarrow> (forwarder \<Rightarrow> forwarder) \<Rightarrow> pf_state \<Rightarrow> pf_state" where
  "pf_modify r f s = s\<lparr>pf_heap := (pf_heap s)(r := map_option f (pf_heap s r))\<rparr>"

definition connection_msg :: "ProtoType \<Rightarrow> string \<Rightarrow> string \<Rightarrow> string \<Rightarrow> bytes \<Rightarrow> ProtoMsg" where
  "connection_msg p t sid cid b = mk_msg p t sid (Some [PropertyConnectionID \<mapsto> IfString cid]) b"

section \<open>A forwarder\<close>

text \<open>\<open>Connect\<close>: the error of dialling, or of an unknown protocol.\<close>

definition Connect :: "net \<Rightarrow> string \<Rightarrow> string \<Rightarrow> u16 \<Rightarrow> gerror option" where
  "Connect nt protocol host portNumber =
     (if protocol = ''tcp'' \<or> protocol = ''udp''
      then nt_Dial nt protocol (host @ '':'' @ itoa (uint portNumber))
      else Some (ErrText (''unknown protocol: '' @ protocol)))"

definition forwarder_Close :: "net \<Rightarrow> bool \<Rightarrow> fref \<Rightarrow> pf_state \<Rightarrow> gerror option \<times> pf_state" where
  "forwarder_Close nt sendStopMessage r s =
     (case pf_heap s r of
        None \<Rightarrow> (None, s)
      | Some f \<Rightarrow>
          if fw_closed f then (None, s)
          else
            let s = pf_modify r (\<lambda>f. f\<lparr>fw_closed := True\<rparr>) s;
                s = (if sendStopMessage
                     then snd (pf_write (connection_msg (fw_proto f) MessageTypePortForwardStop
                            (fw_SessionID f) (fw_ConnectionID f) []) s)
                     else s);
                s = pf_modify r (\<lambda>f. f\<lparr>fw_cancelled := True, fw_conn := (fw_conn f)\<lparr>cn_closed := True\<rparr>\<rparr>) s
            in (nt_Close nt r, s\<lparr>pf_map := (pf_map s)(fw_ConnectionID f := None)\<rparr>))"

text \<open>What the reader's \<open>select\<close> takes: the connection's error (or its end), data of at most
  a buffer's size, the time-out, or the cancelled context.\<close>

datatype read_ev = RdErr gerror | RdData bytes | RdTimeout | RdDone

text \<open>A turn of \<open>Read\<close>; \<open>None\<close> when it cannot happen now: the reader has returned, the
  context is not cancelled, the data is empty or more than the inner goroutine's buffer holds, or
  the reader waits for the acknowledgement of its last message.\<close>

definition forwarder_Read :: "net \<Rightarrow> fref \<Rightarrow> read_ev \<Rightarrow> pf_state \<Rightarrow> pf_state option" where
  "forwarder_Read nt r ev s =
     (case pf_heap s r of
        None \<Rightarrow> None
      | Some f \<Rightarrow>
          if \<not> fw_reading f then None
          else case ev of
            RdErr e \<Rightarrow> Some (snd (forwarder_Close nt True r s))
          | RdTimeout \<Rightarrow> Some (snd (forwarder_Close nt True r s))
          | RdDone \<Rightarrow>
              if fw_cancelled f then Some (pf_modify r (\<lambda>f. f\<lparr>fw_reading := False\<rparr>) s) else None
          | RdData b \<Rightarrow>
              if b = [] \<or> length b > portForwardBuffSize \<or> (fw_proto f = ProtoTypePortForward \<and> fw_ackLocked f)
              then None
              else
                let s = (if fw_proto f = ProtoTypePortForward
                         then pf_modify r (\<lambda>f. f\<lparr>fw_ackLocked := True\<rparr>) s else s)
                in Some (snd (pf_write (connection_msg (fw_proto f) MessageTypePortForward
                     (fw_SessionID f) (fw_ConnectionID f) b) s)))"

text \<open>The loop of \<open>Write\<close> on a connection: it ends when everything has been taken, and would
  never end on a connection that keeps taking nothing without saying why.\<close>

partial_function (option) write_loop ::
  "net \<Rightarrow> fref \<Rightarrow> bytes \<Rightarrow> connection \<Rightarrow> (gerror option \<times> connection) option"
where
  "write_loop nt r body c =
     (case nt_Write nt r (cn_writes c) body of
        (n, e) \<Rightarrow>
          let c = c\<lparr>cn_written := cn_written c @ take n body, cn_writes := Suc (cn_writes c)\<rparr>
          in case e of
               Some e \<Rightarrow> Some (Some e, c)
             | None \<Rightarrow> if length (drop n body) \<le> 0 then Some (None, c) else write_loop nt r (drop n body) c)"

definition forwarder_Write :: "net \<Rightarrow> fref \<Rightarrow> bytes \<Rightarrow> pf_state \<Rightarrow> (gerror option \<times> pf_state) option" where
  "forwarder_Write nt r body s =
     (case pf_heap s r of
        None \<Rightarrow> Some (None, s)
      | Some f \<Rightarrow> (case write_loop nt r body (fw_conn f) of
          None \<Rightarrow> None
        | Some (e, c) \<Rightarrow> Some (e, pf_modify r (\<lambda>f. f\<lparr>fw_conn := c\<rparr>) s)))"

section \<open>The handler\<close>

definition NewPortForwardHandler :: "ProtoType \<Rightarrow> wire \<Rightarrow> pf_state" where
  "NewPortForwardHandler p w =
     \<lparr>pf_proto = p, pf_heap = Map.empty, pf_next = 0, pf_map = Map.empty, pf_wire = w\<rparr>"

text \<open>\<open>Close\<close>: the forwarders of the table in the order Go walks it; the result is the list of
  their errors (\<open>Errors\<close>).\<close>

fun PortForwardHandler_Close :: "net \<Rightarrow> fref list \<Rightarrow> pf_state \<Rightarrow> gerror list \<times> pf_state" where
  "PortForwardHandler_Close nt [] s = ([], s)"
| "PortForwardHandler_Close nt (r # rs) s =
     (case forwarder_Close nt False r s of
        (e, s) \<Rightarrow> (case PortForwardHandler_Close nt rs s of
          (es, s) \<Rightarrow> ((case e of None \<Rightarrow> es | Some e \<Rightarrow> e # es), s)))"

text \<open>How the handler's functions end: with an error or none, in a write that never ends, or
  in a fatal error, which ends the process.\<close>

datatype pf_end = PfDone "gerror option" | PfHang | PfFatal

definition connection_of :: "ProtoMsg \<Rightarrow> string" where
  "connection_of m = prop_string (Properties (Header m)) PropertyConnectionID"

definition new_forwarder :: "ProtoMsg \<Rightarrow> pf_state \<Rightarrow> forwarder" where
  "new_forwarder m s =
     \<lparr>fw_proto = pf_proto s, fw_SessionID = SessionID (Header m), fw_ConnectionID = connection_of m,
      fw_conn = \<lparr>cn_written = [], cn_writes = 0, cn_closed = False\<rparr>,
      fw_closed = False, fw_cancelled = False, fw_reading = True, fw_ackLocked = False\<rparr>"

definition connection_reply :: "ProtoMsg \<Rightarrow> string \<Rightarrow> ProtoMsg" where
  "connection_reply m t = connection_msg (Proto (Header m)) t (SessionID (Header m)) (connection_of m) []"

definition portForwardHandlerNew :: "codec \<Rightarrow> net \<Rightarrow> ProtoMsg \<Rightarrow> pf_state \<Rightarrow> gerror option \<times> pf_state" where
  "portForwardHandlerNew cd nt m s =
     (case unm_PortForwardNew cd (Body m) of
        (_, Some e) \<Rightarrow> (Some e, s)
      | (req, None) \<Rightarrow>
          let blank = (\<lambda>x. case x of None \<Rightarrow> True | Some v \<Rightarrow> v = []); cid = connection_of m in
          if blank (pfn_Protocol req) \<or> blank (pfn_RemoteHost req) \<or>
             (case pfn_RemotePort req of None \<Rightarrow> True | Some p \<Rightarrow> p = 0) \<or> cid = []
          then (Some (Sentinel ErrPortForwardInvalidMessage), s)
          else (case Connect nt (the (pfn_Protocol req)) (the (pfn_RemoteHost req)) (the (pfn_RemotePort req)) of
            Some e \<Rightarrow> (Some e, s\<lparr>pf_map := (pf_map s)(cid := None)\<rparr>)
          | None \<Rightarrow>
              let s = s\<lparr>pf_heap := (pf_heap s)(pf_next s \<mapsto> new_forwarder m s),
                        pf_next := Suc (pf_next s), pf_map := (pf_map s)(cid \<mapsto> pf_next s)\<rparr>
              in (None, snd (pf_write (connection_reply m (MsgType (Header m))) s))))"

definition portForwardHandlerStop :: "net \<Rightarrow> ProtoMsg \<Rightarrow> pf_state \<Rightarrow> gerror option \<times> pf_state" where
  "portForwardHandlerStop nt m s =
     (case pf_map s (connection_of m) of
        None \<Rightarrow> (Some (Sentinel ErrPortForwardUnknownConnection), s)
      | Some r \<Rightarrow>
          let (e, s) = forwarder_Close nt False r s;
              s = (case e of
                     Some _ \<Rightarrow> s
                   | None \<Rightarrow> snd (pf_write (connection_reply m (MsgType (Header m))) s))
          in (e, s\<lparr>pf_map := (pf_map s)(connection_of m := None)\<rparr>))"

definition portForwardHandlerForward :: "net \<Rightarrow> ProtoMsg \<Rightarrow> pf_state \<Rightarrow> pf_end \<times> pf_state" where
  "portForwardHandlerForward nt m s =
     (case pf_map s (connection_of m) of
        None \<Rightarrow> (PfDone (Some (Sentinel ErrPortForwardUnknownConnection)), s)
      | Some r \<Rightarrow> (case forwarder_Write nt r (Body m) s of
          None \<Rightarrow> (PfHang, s)
        | Some (Some e, s) \<Rightarrow> (PfDone (Some (Wrapped ''error forwarding message to connection'' e)), s)
        | Some (None, s) \<Rightarrow>
            if pf_proto s = ProtoTypePortForward
            then (let (e, s) = pf_write (connection_reply m MessageTypePortForwardAck) s in (PfDone e, s))
            else (PfDone None, s)))"

text \<open>Unlocking a mutex that is not locked is a fatal error in Go, which \<open>recover\<close> does not
  catch.\<close>

definition portForwardHandlerAck :: "ProtoMsg \<Rightarrow> pf_state \<Rightarrow> pf_end \<times> pf_state" where
  "portForwardHandlerAck m s =
     (case pf_map s (connection_of m) of
        None \<Rightarrow> (PfDone (Some (Sentinel ErrPortForwardUnknownConnection)), s)
      | Some r \<Rightarrow>
          if pf_proto s = ProtoTypePortForward then
            (case pf_heap s r of
               None \<Rightarrow> (PfDone None, s)
             | Some f \<Rightarrow>
                 if fw_ackLocked f
                 then (PfDone None, pf_modify r (\<lambda>f. f\<lparr>fw_ackLocked := False\<rparr>) s)
                 else (PfFatal, s))
          else (PfDone None, s))"

definition pf_error :: "codec \<Rightarrow> ProtoType \<Rightarrow> ProtoMsg \<Rightarrow> gerror \<Rightarrow> ProtoMsg" where
  "pf_error cd p m e =
     mk_msg p MessageTypeError (SessionID (Header m)) None
       (mar_pf_Error cd \<lparr>pfe_Error = Some (err_msg e), pfe_MessageType = Some (MsgType (Header m))\<rparr>)"

definition pf_dispatch :: "codec \<Rightarrow> net \<Rightarrow> ProtoMsg \<Rightarrow> pf_state \<Rightarrow> pf_end \<times> pf_state" where
  "pf_dispatch cd nt m s =
     (let t = MsgType (Header m) in
      if Proto (Header m) \<noteq> pf_proto s
      then (PfDone (Some (ErrText (''invalid protocol ID '' @ itoa (uint (Proto (Header m)))
              @ '' in request header''))), s)
      else if t = MessageTypePortForwardNew
      then (case portForwardHandlerNew cd nt m s of (e, s) \<Rightarrow> (PfDone e, s))
      else if t = MessageTypePortForwardStop
      then (case portForwardHandlerStop nt m s of (e, s) \<Rightarrow> (PfDone e, s))
      else if t = MessageTypePortForward then portForwardHandlerForward nt m s
      else if t = MessageTypePortForwardAck \<and> pf_proto s = ProtoTypePortForward
      then portForwardHandlerAck m s
      else (PfDone (Some (Sentinel ErrPortForwardUnknownMessageType)), s))"

definition PortForward_ServeProtoMsg ::
  "codec \<Rightarrow> net \<Rightarrow> ProtoMsg \<Rightarrow> pf_state \<Rightarrow> pf_end \<times> pf_state" where
  "PortForward_ServeProtoMsg cd nt m s =
     (case pf_dispatch cd nt m s of
        (PfDone (Some e), s) \<Rightarrow> (PfDone (Some e), snd (pf_write (pf_error cd (pf_proto s) m e) s))
      | (r, s) \<Rightarrow> (r, s))"

section \<open>Frames\<close>

lemma pf_write_frame [simp]:
  "pf_proto (snd (pf_write m s)) = pf_proto s" "pf_heap (snd (pf_write m s)) = pf_heap s"
  "pf_next (snd (pf_write m s)) = pf_next s" "pf_map (snd (pf_write m s)) = pf_map s"
  "pf_wire (snd (pf_write m s)) = snd (WriteProtoMsg m (pf_wire s))"
  by (simp_all add: pf_write_def split: prod.splits)

lemma pf_modify_frame [simp]:
  "pf_proto (pf_modify r f s) = pf_proto s" "pf_next (pf_modify r f s) = pf_next s"
  "pf_map (pf_modify r f s) = pf_map s" "pf_wire (pf_modify r f s) = pf_wire s"
  "pf_heap (pf_modify r f s) q = (if q = r then map_option f (pf_heap s r) else pf_heap s q)"
  by (simp_all add: pf_modify_def)

text \<open>Closing a forwarder: nothing when it is closed already; otherwise it is closed with its
  connection, its name leaves the table, and at most the stop message is sent.\<close>

lemma forwarder_Close_open:
  assumes "pf_heap s r = Some f" "\<not> fw_closed f"
  shows "forwarder_Close nt stop r s =
     (nt_Close nt r, s\<lparr>
        pf_heap := (pf_heap s)(r \<mapsto> f\<lparr>fw_closed := True, fw_cancelled := True, fw_conn := (fw_conn f)\<lparr>cn_closed := True\<rparr>\<rparr>),
        pf_map := (pf_map s)(fw_ConnectionID f := None),
        pf_wire := (if stop then snd (WriteProtoMsg (connection_msg (fw_proto f) MessageTypePortForwardStop
          (fw_SessionID f) (fw_ConnectionID f) []) (pf_wire s)) else pf_wire s)\<rparr>)"
  using assms
  by (auto simp: forwarder_Close_def Let_def pf_modify_def pf_write_def split: prod.splits)

lemma forwarder_Close_closed:
  "pf_heap s r = None \<or> (\<exists>f. pf_heap s r = Some f \<and> fw_closed f) \<Longrightarrow> forwarder_Close nt stop r s = (None, s)"
  by (auto simp: forwarder_Close_def)

lemma forwarder_Close_cases:
  obtains (closed) "snd (forwarder_Close nt stop r s) = s" "\<forall>f. pf_heap s r = Some f \<longrightarrow> fw_closed f"
  | (opened) f where "pf_heap s r = Some f" "\<not> fw_closed f"
proof (cases "\<exists>f. pf_heap s r = Some f \<and> \<not> fw_closed f")
  case True
  then show thesis using opened by blast
next
  case False
  then show thesis using forwarder_Close_closed [of s r nt stop] closed by (cases "pf_heap s r") auto
qed

section \<open>The table\<close>

text \<open>Every name of the table is that of an open forwarder with a running reader.\<close>

definition wf_pf :: "pf_state \<Rightarrow> bool" where
  "wf_pf s \<longleftrightarrow>
     (\<forall>k r. pf_map s k = Some r \<longrightarrow>
        (\<exists>f. pf_heap s r = Some f \<and> fw_ConnectionID f = k \<and> \<not> fw_closed f \<and> fw_reading f)) \<and>
     (\<forall>r f. pf_heap s r = Some f \<longrightarrow> r < pf_next s \<and> fw_proto f = pf_proto s \<and>
        (fw_closed f \<longleftrightarrow> cn_closed (fw_conn f)) \<and> (fw_closed f \<longleftrightarrow> fw_cancelled f))"

lemma wf_pf_map: "wf_pf s \<Longrightarrow> pf_map s k = Some r \<Longrightarrow>
   \<exists>f. pf_heap s r = Some f \<and> fw_ConnectionID f = k \<and> \<not> fw_closed f \<and> fw_reading f"
  unfolding wf_pf_def by blast

lemma wf_pf_heap: "wf_pf s \<Longrightarrow> pf_heap s r = Some f \<Longrightarrow> r < pf_next s \<and> fw_proto f = pf_proto s \<and>
   (fw_closed f \<longleftrightarrow> cn_closed (fw_conn f)) \<and> (fw_closed f \<longleftrightarrow> fw_cancelled f)"
  unfolding wf_pf_def by blast

lemma wf_pf_wire [simp]: "wf_pf (s\<lparr>pf_wire := w\<rparr>) = wf_pf s"
  by (simp add: wf_pf_def)

lemma wf_pf_write [simp]: "wf_pf (snd (pf_write m s)) = wf_pf s"
  by (simp add: wf_pf_def)

lemma wf_pf_unmap: "wf_pf s \<Longrightarrow> wf_pf (s\<lparr>pf_map := (pf_map s)(k := None)\<rparr>)"
  by (auto simp: wf_pf_def)

lemma wf_pfI:
  assumes "\<And>k r. pf_map s k = Some r \<Longrightarrow>
      \<exists>f. pf_heap s r = Some f \<and> fw_ConnectionID f = k \<and> \<not> fw_closed f \<and> fw_reading f"
    and "\<And>r f. pf_heap s r = Some f \<Longrightarrow> r < pf_next s \<and> fw_proto f = pf_proto s \<and>
      (fw_closed f \<longleftrightarrow> cn_closed (fw_conn f)) \<and> (fw_closed f \<longleftrightarrow> fw_cancelled f)"
  shows "wf_pf s"
  using assms unfolding wf_pf_def by blast

text \<open>Updates that keep a forwarder's name, state and reader.\<close>

lemma wf_pf_modify:
  assumes wf: "wf_pf s" and r: "pf_heap s r = Some f0"
    and g: "fw_ConnectionID (g f0) = fw_ConnectionID f0" "fw_proto (g f0) = fw_proto f0"
       "fw_closed (g f0) = fw_closed f0" "fw_cancelled (g f0) = fw_cancelled f0"
       "\<not> fw_closed f0 \<longrightarrow> fw_reading (g f0) = fw_reading f0" "cn_closed (fw_conn (g f0)) = cn_closed (fw_conn f0)"
  shows "wf_pf (pf_modify r g s)"
proof (rule wf_pfI)
  fix k q assume "pf_map (pf_modify r g s) k = Some q"
  then obtain f where "pf_heap s q = Some f" "fw_ConnectionID f = k" "\<not> fw_closed f" "fw_reading f"
    using wf_pf_map [OF wf] by auto
  with r g show "\<exists>f. pf_heap (pf_modify r g s) q = Some f \<and> fw_ConnectionID f = k \<and> \<not> fw_closed f \<and> fw_reading f"
    by auto
next
  fix q f assume "pf_heap (pf_modify r g s) q = Some f"
  with wf_pf_heap [OF wf, of q] wf_pf_heap [OF wf r] r g
  show "q < pf_next (pf_modify r g s) \<and> fw_proto f = pf_proto (pf_modify r g s) \<and>
      (fw_closed f \<longleftrightarrow> cn_closed (fw_conn f)) \<and> (fw_closed f \<longleftrightarrow> fw_cancelled f)"
    by (auto split: if_splits)
qed

lemma forwarder_Close_wf:
  assumes wf: "wf_pf s"
  shows "wf_pf (snd (forwarder_Close nt stop r s))"
proof (cases "\<exists>f. pf_heap s r = Some f \<and> \<not> fw_closed f")
  case True
  then obtain f where f: "pf_heap s r = Some f" "\<not> fw_closed f" by blast
  show ?thesis
  proof (rule wf_pfI)
    fix k q assume "pf_map (snd (forwarder_Close nt stop r s)) k = Some q"
    then have k: "pf_map s k = Some q" "k \<noteq> fw_ConnectionID f"
      by (simp_all add: forwarder_Close_open [OF f] split: if_splits)
    then obtain f' where f': "pf_heap s q = Some f'" "fw_ConnectionID f' = k" "\<not> fw_closed f'" "fw_reading f'"
      using wf_pf_map [OF wf] by blast
    with k f have "q \<noteq> r" by auto
    with f' show "\<exists>f. pf_heap (snd (forwarder_Close nt stop r s)) q = Some f \<and> fw_ConnectionID f = k \<and>
        \<not> fw_closed f \<and> fw_reading f" by (simp add: forwarder_Close_open [OF f])
  next
    fix q f' assume "pf_heap (snd (forwarder_Close nt stop r s)) q = Some f'"
    with wf_pf_heap [OF wf, of q] wf_pf_heap [OF wf f(1)]
    show "q < pf_next (snd (forwarder_Close nt stop r s)) \<and>
        fw_proto f' = pf_proto (snd (forwarder_Close nt stop r s)) \<and>
        (fw_closed f' \<longleftrightarrow> cn_closed (fw_conn f')) \<and> (fw_closed f' \<longleftrightarrow> fw_cancelled f')"
      by (auto simp: forwarder_Close_open [OF f] split: if_splits)
  qed
next
  case False
  then have "forwarder_Close nt stop r s = (None, s)" by (intro forwarder_Close_closed) auto
  with wf show ?thesis by simp
qed

lemma new_forwarder_wf:
  assumes wf: "wf_pf s"
  shows "wf_pf (s\<lparr>pf_heap := (pf_heap s)(pf_next s \<mapsto> new_forwarder m s), pf_next := Suc (pf_next s),
            pf_map := (pf_map s)(connection_of m \<mapsto> pf_next s)\<rparr>)" (is "wf_pf ?s")
proof (rule wf_pfI)
  fix k q assume k: "pf_map ?s k = Some q"
  show "\<exists>f. pf_heap ?s q = Some f \<and> fw_ConnectionID f = k \<and> \<not> fw_closed f \<and> fw_reading f"
  proof (cases "k = connection_of m")
    case False
    with k obtain f where "pf_heap s q = Some f" "fw_ConnectionID f = k" "\<not> fw_closed f" "fw_reading f"
      using wf_pf_map [OF wf] by auto
    moreover from this wf_pf_heap [OF wf] have "q \<noteq> pf_next s" by blast
    ultimately show ?thesis by simp
  qed (use k in \<open>simp add: new_forwarder_def\<close>)
next
  fix q f assume "pf_heap ?s q = Some f"
  with wf_pf_heap [OF wf, of q f]
  show "q < pf_next ?s \<and> fw_proto f = pf_proto ?s \<and> (fw_closed f \<longleftrightarrow> cn_closed (fw_conn f)) \<and>
      (fw_closed f \<longleftrightarrow> fw_cancelled f)"
    by (auto simp: new_forwarder_def split: if_splits)
qed

lemma portForwardHandlerNew_wf: "wf_pf s \<Longrightarrow> wf_pf (snd (portForwardHandlerNew cd nt m s))"
  by (auto simp: portForwardHandlerNew_def Let_def wf_pf_unmap new_forwarder_wf split: prod.splits option.splits)

lemma portForwardHandlerStop_wf:
  assumes "wf_pf s"
  shows "wf_pf (snd (portForwardHandlerStop nt m s))"
proof (cases "pf_map s (connection_of m)")
  case (Some r)
  obtain e s1 where "forwarder_Close nt False r s = (e, s1)" by fastforce
  with forwarder_Close_wf [OF assms, of nt False r] Some
    wf_pf_unmap [of s1] wf_pf_unmap [of "snd (pf_write (connection_reply m (MsgType (Header m))) s1)"]
  show ?thesis by (auto simp: portForwardHandlerStop_def Let_def split: option.splits)
qed (use assms in \<open>simp add: portForwardHandlerStop_def\<close>)

text \<open>The loop of \<open>Write\<close>: on a connection that takes something at every write, or says why it
  does not, it ends; what it has written is a prefix of the body, all of it without an error.\<close>

definition progressing :: "net \<Rightarrow> bool" where
  "progressing nt \<longleftrightarrow> (\<forall>c k b. fst (nt_Write nt c k b) \<le> length b \<and>
     (snd (nt_Write nt c k b) = None \<longrightarrow> b \<noteq> [] \<longrightarrow> 0 < fst (nt_Write nt c k b)))"

lemma progressingD:
  assumes "progressing nt" "nt_Write nt c k b = (n, e)"
  shows "n \<le> length b" "e = None \<longrightarrow> b \<noteq> [] \<longrightarrow> 0 < n"
  using assms(1) assms(2) unfolding progressing_def by (metis fst_conv, metis fst_conv snd_conv)

lemma honest_progressing: "honest_net nt \<Longrightarrow> progressing nt"
  by (auto simp: honest_net_def progressing_def)

lemma write_loop_progress:
  assumes "progressing nt"
  shows "\<exists>e c' n. write_loop nt r body c = Some (e, c') \<and> cn_written c' = cn_written c @ take n body \<and>
     (e = None \<longrightarrow> length body \<le> n) \<and> cn_closed c' = cn_closed c"
proof (induction body arbitrary: c rule: length_induct)
  case (1 body)
  obtain n e where w: "nt_Write nt r (cn_writes c) body = (n, e)" by fastforce
  note n = progressingD [OF assms w]
  let ?c = "c\<lparr>cn_written := cn_written c @ take n body, cn_writes := Suc (cn_writes c)\<rparr>"
  show ?case
  proof (cases "e = None \<and> drop n body \<noteq> []")
    case True
    with n have "length (drop n body) < length body" by auto
    with 1 obtain e' c' k where l: "write_loop nt r (drop n body) ?c = Some (e', c')"
        "cn_written c' = cn_written ?c @ take k (drop n body)" "e' = None \<longrightarrow> length (drop n body) \<le> k"
        "cn_closed c' = cn_closed ?c" by blast
    have "write_loop nt r body c = Some (e', c')"
      using w True l(1) by (subst write_loop.simps) (simp add: Let_def)
    moreover have "cn_written c' = cn_written c @ take (n + k) body" using l(2) by (simp add: take_add)
    ultimately show ?thesis using l(3,4) n by (intro exI [of _ e'] exI [of _ c'] exI [of _ "n + k"]) auto
  next
    case False
    then have "write_loop nt r body c = Some (e, ?c)"
      using w by (subst write_loop.simps) (auto simp: Let_def split: option.splits)
    then show ?thesis using False by (intro exI [of _ e] exI [of _ ?c] exI [of _ n]) auto
  qed
qed

lemma forwarder_Write_progress:
  assumes "progressing nt" and "pf_heap s r = Some f"
  shows "\<exists>e n c. forwarder_Write nt r body s = Some (e, pf_modify r (\<lambda>f. f\<lparr>fw_conn := c\<rparr>) s) \<and>
     cn_written c = cn_written (fw_conn f) @ take n body \<and> (e = None \<longrightarrow> length body \<le> n) \<and>
     cn_closed c = cn_closed (fw_conn f)"
  using write_loop_progress [OF assms(1), of r body "fw_conn f"] assms(2)
  by (fastforce simp: forwarder_Write_def)

text \<open>The same without the assumption, for the runs in which the loop ends.\<close>

lemma write_loop_closed: "write_loop nt r body c = Some x \<Longrightarrow> cn_closed (snd x) = cn_closed c"
  by (rule write_loop.raw_induct [where P = "\<lambda>nt r body c x. cn_closed (snd x) = cn_closed c", rotated])
     (fastforce simp: Let_def split: prod.splits option.splits if_splits)+

lemma forwarder_Write_wf:
  assumes "wf_pf s" and "forwarder_Write nt r body s = Some (e, s')"
  shows "wf_pf s' \<and> pf_map s' = pf_map s \<and> pf_proto s' = pf_proto s \<and> pf_wire s' = pf_wire s"
proof (cases "pf_heap s r")
  case (Some f)
  with assms(2) obtain c where c: "write_loop nt r body (fw_conn f) = Some (e, c)"
      "s' = pf_modify r (\<lambda>f. f\<lparr>fw_conn := c\<rparr>) s"
    by (auto simp: forwarder_Write_def split: option.splits)
  with write_loop_closed [OF c(1)] wf_pf_modify [OF assms(1) Some, of "\<lambda>f. f\<lparr>fw_conn := c\<rparr>"]
  show ?thesis by simp
qed (use assms in \<open>simp add: forwarder_Write_def\<close>)

lemma portForwardHandlerForward_wf:
  assumes "wf_pf s"
  shows "wf_pf (snd (portForwardHandlerForward nt m s))"
proof (cases "pf_map s (connection_of m)")
  case (Some r)
  show ?thesis
  proof (cases "forwarder_Write nt r (Body m) s")
    case w: (Some x)
    obtain e s1 where x: "x = (e, s1)" by fastforce
    from forwarder_Write_wf [OF assms w [unfolded x]] have wf1: "wf_pf s1" by simp
    show ?thesis
    proof (cases e)
      case None
      obtain e2 s2 where p: "pf_write (connection_reply m MessageTypePortForwardAck) s1 = (e2, s2)" by fastforce
      then have "wf_pf s2" using wf_pf_write [of "connection_reply m MessageTypePortForwardAck" s1] wf1 by simp
      with w x Some None wf1 p show ?thesis by (simp add: portForwardHandlerForward_def)
    qed (use w x Some wf1 in \<open>simp add: portForwardHandlerForward_def\<close>)
  qed (use assms Some in \<open>simp add: portForwardHandlerForward_def\<close>)
qed (use assms in \<open>simp add: portForwardHandlerForward_def\<close>)

lemma portForwardHandlerAck_wf:
  assumes "wf_pf s"
  shows "wf_pf (snd (portForwardHandlerAck m s))"
proof (cases "pf_map s (connection_of m)")
  case (Some r)
  then obtain f where f: "pf_heap s r = Some f" using wf_pf_map [OF assms] by blast
  from wf_pf_modify [OF assms f, of "\<lambda>f. f\<lparr>fw_ackLocked := False\<rparr>"] Some f assms show ?thesis
    by (simp add: portForwardHandlerAck_def)
qed (use assms in \<open>simp add: portForwardHandlerAck_def\<close>)

lemma pf_dispatch_wf: "wf_pf s \<Longrightarrow> wf_pf (snd (pf_dispatch cd nt m s))"
  using portForwardHandlerNew_wf [of s cd nt m] portForwardHandlerStop_wf [of s nt m]
    portForwardHandlerForward_wf [of s nt m] portForwardHandlerAck_wf [of s m]
  by (auto simp: pf_dispatch_def Let_def split: prod.splits)

lemma ServeProtoMsg_wf:
  assumes "wf_pf s"
  shows "wf_pf (snd (PortForward_ServeProtoMsg cd nt m s))"
proof -
  obtain r s1 where d: "pf_dispatch cd nt m s = (r, s1)" by fastforce
  with pf_dispatch_wf [OF assms, of cd nt m] have "wf_pf s1" by simp
  then have "wf_pf (snd (pf_write (pf_error cd (pf_proto s1) m e) s1))" for e by simp
  with d \<open>wf_pf s1\<close> show ?thesis
    by (auto simp: PortForward_ServeProtoMsg_def split: pf_end.splits option.splits)
qed

lemma forwarder_Read_wf:
  assumes "wf_pf s" and "forwarder_Read nt r ev s = Some s'"
  shows "wf_pf s'"
proof (cases "pf_heap s r")
  case (Some f)
  note upd = wf_pf_modify [OF assms(1) Some, of "\<lambda>f. f\<lparr>fw_ackLocked := True\<rparr>"]
    wf_pf_modify [OF assms(1) Some, of "\<lambda>f. f\<lparr>fw_reading := False\<rparr>"]
  from assms Some upd wf_pf_heap [OF assms(1) Some] forwarder_Close_wf [OF assms(1)] show ?thesis
    by (cases ev) (auto simp: forwarder_Read_def Let_def split: if_splits)
qed (use assms in \<open>simp add: forwarder_Read_def\<close>)

section \<open>Runs\<close>

text \<open>The messages the handler serves and the turns of the readers, in any order. A run stops,
  \<open>None\<close>, where an event is not possible, and where the process ends.\<close>

datatype pf_ev = PfMsg ProtoMsg | PfRead fref read_ev

definition pf_step :: "codec \<Rightarrow> net \<Rightarrow> pf_ev \<Rightarrow> pf_state \<Rightarrow> pf_state option" where
  "pf_step cd nt ev s =
     (case ev of
        PfMsg m \<Rightarrow> (case PortForward_ServeProtoMsg cd nt m s of (PfDone _, s) \<Rightarrow> Some s | _ \<Rightarrow> None)
      | PfRead r ev \<Rightarrow> forwarder_Read nt r ev s)"

fun pf_run :: "codec \<Rightarrow> net \<Rightarrow> pf_ev list \<Rightarrow> pf_state \<Rightarrow> pf_state option" where
  "pf_run cd nt [] s = Some s"
| "pf_run cd nt (ev # evs) s = Option.bind (pf_step cd nt ev s) (pf_run cd nt evs)"

lemma pf_step_wf: "wf_pf s \<Longrightarrow> pf_step cd nt ev s = Some s' \<Longrightarrow> wf_pf s'"
  using ServeProtoMsg_wf [of s cd nt] forwarder_Read_wf [of s nt]
  by (auto simp: pf_step_def split: pf_ev.splits prod.splits pf_end.splits) (metis snd_conv)

lemma pf_run_wf: "wf_pf s \<Longrightarrow> pf_run cd nt evs s = Some s' \<Longrightarrow> wf_pf s'"
  by (induction evs arbitrary: s) (auto simp: bind_eq_Some_conv dest: pf_step_wf)

lemma NewPortForwardHandler_wf [simp]: "wf_pf (NewPortForwardHandler p w)"
  by (simp add: NewPortForwardHandler_def wf_pf_def)

section \<open>Closing\<close>

definition close_connection :: "net \<Rightarrow> string \<Rightarrow> pf_state \<Rightarrow> pf_state" where
  "close_connection nt k s = (case pf_map s k of None \<Rightarrow> s | Some r \<Rightarrow> snd (forwarder_Close nt False r s))"

text \<open>The connections are a table in which closing one is removing it.\<close>

interpretation pf: keyed_store pf_map "close_connection nt" wf_pf for nt
proof unfold_locales
  fix s k
  assume wf: "wf_pf s"
  show "pf_map (close_connection nt k s) = (pf_map s)(k := None)"
  proof (cases "pf_map s k")
    case (Some r)
    with wf_pf_map [OF wf Some] show ?thesis
      by (auto simp: close_connection_def forwarder_Close_open)
  qed (simp add: close_connection_def fun_upd_idem)
  show "wf_pf (close_connection nt k s)"
    using wf forwarder_Close_wf by (auto simp: close_connection_def split: option.splits)
qed

definition conn_id :: "pf_state \<Rightarrow> fref \<Rightarrow> string" where
  "conn_id s r = (case pf_heap s r of None \<Rightarrow> [] | Some f \<Rightarrow> fw_ConnectionID f)"

lemma forwarder_Close_conn_id [simp]: "conn_id (snd (forwarder_Close nt stop r s)) = conn_id s"
  by (rule forwarder_Close_cases [of nt stop r s]) (auto simp: conn_id_def fun_eq_iff forwarder_Close_open)

lemma ran_conn_id: "wf_pf s \<Longrightarrow> r \<in> ran (pf_map s) \<Longrightarrow> pf_map s (conn_id s r) = Some r"
  by (auto simp: ran_def conn_id_def dest: wf_pf_map)

lemma Close_fold:
  assumes "PortForwardHandler_Close nt rs s = (es, s')" "wf_pf s" "distinct rs" "set rs \<subseteq> ran (pf_map s)"
  shows "s' = fold (close_connection nt) (map (conn_id s) rs) s"
  using assms
proof (induction rs arbitrary: es s)
  case (Cons r rs)
  let ?s = "snd (forwarder_Close nt False r s)"
  have r: "pf_map s (conn_id s r) = Some r" using ran_conn_id Cons.prems by simp
  then have step: "close_connection nt (conn_id s r) s = ?s" by (simp add: close_connection_def)
  have "set rs \<subseteq> ran (pf_map ?s)"
  proof
    fix q assume q: "q \<in> set rs"
    then have "pf_map s (conn_id s q) = Some q" "q \<noteq> r" using ran_conn_id Cons.prems by auto
    with r have "pf_map ?s (conn_id s q) = Some q"
      using pf.get_del [OF Cons.prems(2), of nt "conn_id s r"] step by auto
    then show "q \<in> ran (pf_map ?s)" by (rule ranI)
  qed
  moreover obtain es1 where "PortForwardHandler_Close nt rs ?s = (es1, s')"
    using Cons.prems(1) by (auto split: prod.splits)
  moreover have "wf_pf ?s" "distinct rs" using forwarder_Close_wf Cons.prems(2,3) by auto
  ultimately have "s' = fold (close_connection nt) (map (conn_id ?s) rs) ?s" by (intro Cons.IH)
  then show ?case using step by simp
qed simp

text \<open>Once closed, a forwarder stays so.\<close>

definition is_closed :: "pf_state \<Rightarrow> fref \<Rightarrow> bool" where
  "is_closed s r \<longleftrightarrow> (\<exists>f. pf_heap s r = Some f \<and> fw_closed f \<and> cn_closed (fw_conn f))"

lemma forwarder_Close_closes:
  assumes "wf_pf s" "pf_heap s r \<noteq> None"
  shows "is_closed (snd (forwarder_Close nt stop r s)) r"
  by (rule forwarder_Close_cases [of nt stop r s])
     (use assms in \<open>auto simp: is_closed_def forwarder_Close_open dest: wf_pf_heap\<close>)

lemma forwarder_Close_keeps:
  "is_closed s q \<Longrightarrow> is_closed (snd (forwarder_Close nt stop r s)) q"
  by (rule forwarder_Close_cases [of nt stop r s]) (auto simp: is_closed_def forwarder_Close_open)

lemma forwarder_Close_other:
  "q \<noteq> r \<Longrightarrow> pf_heap (snd (forwarder_Close nt stop r s)) q = pf_heap s q"
  by (rule forwarder_Close_cases [of nt stop r s]) (simp_all add: forwarder_Close_open)

lemma forwarder_Close_exists:
  "pf_heap (snd (forwarder_Close nt stop r s)) q = None \<longleftrightarrow> pf_heap s q = None"
  by (rule forwarder_Close_cases [of nt stop r s]) (auto simp add: forwarder_Close_open)

lemma forwarder_Close_silent: "pf_wire (snd (forwarder_Close nt False r s)) = pf_wire s"
  by (rule forwarder_Close_cases [of nt False r s]) (simp_all add: forwarder_Close_open)

lemma Close_closes:
  assumes "PortForwardHandler_Close nt rs s = (es, s')" "wf_pf s" "\<forall>r \<in> set rs. pf_heap s r \<noteq> None"
  shows "(\<forall>r \<in> set rs. is_closed s' r) \<and> (\<forall>q. is_closed s q \<longrightarrow> is_closed s' q) \<and> pf_wire s' = pf_wire s \<and>
     (\<forall>q. q \<notin> set rs \<longrightarrow> pf_heap s' q = pf_heap s q)"
  using assms
proof (induction rs arbitrary: es s)
  case (Cons r rs)
  let ?s = "snd (forwarder_Close nt False r s)"
  obtain es1 where "PortForwardHandler_Close nt rs ?s = (es1, s')"
    using Cons.prems(1) by (auto split: prod.splits)
  moreover have "wf_pf ?s" using forwarder_Close_wf Cons.prems(2) by blast
  moreover have "\<forall>q \<in> set rs. pf_heap ?s q \<noteq> None"
    using Cons.prems(3) by (simp add: forwarder_Close_exists)
  ultimately have ih: "(\<forall>r \<in> set rs. is_closed s' r) \<and> (\<forall>q. is_closed ?s q \<longrightarrow> is_closed s' q) \<and>
      pf_wire s' = pf_wire ?s \<and> (\<forall>q. q \<notin> set rs \<longrightarrow> pf_heap s' q = pf_heap ?s q)"
    by (rule Cons.IH)
  have "is_closed ?s r" using forwarder_Close_closes Cons.prems by simp
  with ih forwarder_Close_keeps [of s _ nt False r] show ?case
    by (auto simp: forwarder_Close_other forwarder_Close_silent)
qed simp

text \<open>
  C27. A session that ends takes its forwards with it: closing the handler empties its table,
  and every connection in it is closed, without a message to the client.
\<close>

theorem pf_close_all:
  assumes "pf_run cd nt evs (NewPortForwardHandler p w) = Some s"
    and "distinct order" "set order = ran (pf_map s)"
    and "PortForwardHandler_Close nt order s = (es, s')"
  shows "(\<forall>k. pf_map s' k = None) \<and> pf_wire s' = pf_wire s \<and>
     (\<forall>k r. pf_map s k = Some r \<longrightarrow> (\<exists>f. pf_heap s' r = Some f \<and> fw_closed f \<and> cn_closed (fw_conn f)))"
proof -
  have wf: "wf_pf s" using pf_run_wf [OF _ assms(1)] by simp
  have "\<forall>r \<in> set order. pf_heap s r \<noteq> None" using assms(3) wf by (fastforce simp: ran_def dest: wf_pf_map)
  note cl = Close_closes [OF assms(4) wf this]
  have "dom (pf_map s) \<subseteq> set (map (conn_id s) order)"
  proof
    fix k assume "k \<in> dom (pf_map s)"
    then obtain r where r: "pf_map s k = Some r" by blast
    then have "r \<in> set order" "conn_id s r = k"
      using assms(3) wf_pf_map [OF wf r] by (auto simp: ran_def conn_id_def)
    then show "k \<in> set (map (conn_id s) order)" by auto
  qed
  from pf.clear [OF wf this, of nt] Close_fold [OF assms(4) wf assms(2)] assms(3)
  have "pf_map s' = Map.empty" by simp
  with cl assms(3) show ?thesis by (auto simp: is_closed_def ran_def)
qed

section \<open>One message in flight\<close>

text \<open>What decides the acknowledgements: the name and the lock of each forwarder.\<close>

definition locks :: "pf_state \<Rightarrow> fref \<Rightarrow> (string \<times> bool) option" where
  "locks s r = map_option (\<lambda>f. (fw_ConnectionID f, fw_ackLocked f)) (pf_heap s r)"

definition is_forward :: "string \<Rightarrow> ProtoMsg \<Rightarrow> bool" where
  "is_forward c m \<longleftrightarrow> MsgType (Header m) = MessageTypePortForward \<and> connection_of m = c"

text \<open>The data messages of a connection the client has been sent.\<close>

definition forwards :: "string \<Rightarrow> pf_state \<Rightarrow> nat" where
  "forwards c s = length (filter (is_forward c) (wire_out (pf_wire s)))"

lemma forwards_write:
  "forwards c (s\<lparr>pf_wire := snd (WriteProtoMsg m w)\<rparr>) \<le>
     length (filter (is_forward c) (wire_out w)) + (if is_forward c m then 1 else 0)"
  by (auto simp: forwards_def WriteProtoMsg_def split: option.splits)

lemma forwards_pf_write:
  "forwards c (snd (pf_write m s)) \<le> forwards c s + (if is_forward c m then 1 else 0)"
  by (auto simp: forwards_def WriteProtoMsg_def split: option.splits)

lemma forwards_other [simp]:
  "\<not> is_forward c m \<Longrightarrow> forwards c (snd (pf_write m s)) = forwards c s"
  by (auto simp: forwards_def WriteProtoMsg_def split: option.splits)

lemma forwards_frame [simp]:
  "forwards c (s\<lparr>pf_map := x\<rparr>) = forwards c s" "forwards c (pf_modify r f s) = forwards c s"
  "forwards c (s\<lparr>pf_heap := h\<rparr>) = forwards c s" "forwards c (s\<lparr>pf_next := n\<rparr>) = forwards c s"
  by (simp_all add: forwards_def pf_modify_def)

lemma locks_frame [simp]:
  "locks (s\<lparr>pf_map := x\<rparr>) = locks s" "locks (snd (pf_write m s)) = locks s"
  "(\<And>f. fw_ConnectionID (g f) = fw_ConnectionID f \<and> fw_ackLocked (g f) = fw_ackLocked f) \<Longrightarrow>
     locks (pf_modify r g s) = locks s"
  by (simp_all add: locks_def fun_eq_iff option.map_comp comp_def)

lemma not_forward [simp]:
  "is_forward c (connection_msg p t sid cid b) \<longleftrightarrow> t = MessageTypePortForward \<and> cid = c"
  "is_forward c (connection_reply m t) \<longleftrightarrow> t = MessageTypePortForward \<and> connection_of m = c"
  "\<not> is_forward c (pf_error cd p m e)"
  by (auto simp: is_forward_def connection_msg_def connection_reply_def pf_error_def connection_of_def prop_string_def
        prop_get_def mk_msg_def)

lemma forwarder_Close_locks:
  "locks (snd (forwarder_Close nt stop r s)) = locks s \<and>
   forwards c (snd (forwarder_Close nt stop r s)) = forwards c s \<and>
   pf_proto (snd (forwarder_Close nt stop r s)) = pf_proto s"
  by (rule forwarder_Close_cases [of nt stop r s])
     (auto simp: forwarder_Close_open locks_def fun_eq_iff forwards_def WriteProtoMsg_def split: option.splits)

text \<open>What serving a message does to them, and to the table.\<close>

definition is_ack :: "string \<Rightarrow> ProtoMsg \<Rightarrow> bool" where
  "is_ack c m \<longleftrightarrow> MsgType (Header m) = MessageTypePortForwardAck \<and> connection_of m = c"

lemma portForwardHandlerNew_cases:
  assumes "portForwardHandlerNew cd nt m s = (e, s')"
  obtains (failed) x where "e = Some x" "s' = s \<or> s' = s\<lparr>pf_map := (pf_map s)(connection_of m := None)\<rparr>"
  | (created) "e = None"
      "s' = snd (pf_write (connection_reply m (MsgType (Header m)))
        (s\<lparr>pf_heap := (pf_heap s)(pf_next s \<mapsto> new_forwarder m s), pf_next := Suc (pf_next s),
           pf_map := (pf_map s)(connection_of m \<mapsto> pf_next s)\<rparr>))"
proof (cases e)
  case None
  with assms show thesis
    by (intro created) (auto simp: portForwardHandlerNew_def Let_def split: prod.splits option.splits if_splits)
next
  case (Some x)
  with assms show thesis
    by (intro failed) (auto simp: portForwardHandlerNew_def Let_def split: prod.splits option.splits if_splits)
qed

lemma new_locks:
  assumes "portForwardHandlerNew cd nt m s = (e, s')"
  shows "pf_proto s' = pf_proto s \<and>
     (MsgType (Header m) \<noteq> MessageTypePortForward \<longrightarrow> forwards c s' = forwards c s) \<and>
     (locks s' = locks s \<or> locks s' = (locks s)(pf_next s \<mapsto> (connection_of m, False)))"
  using assms
  by (cases rule: portForwardHandlerNew_cases) (auto simp: locks_def new_forwarder_def fun_eq_iff)

lemma stop_locks:
  assumes "portForwardHandlerStop nt m s = (e, s')" "MsgType (Header m) \<noteq> MessageTypePortForward"
  shows "pf_proto s' = pf_proto s \<and> forwards c s' = forwards c s \<and> locks s' = locks s"
proof (cases "pf_map s (connection_of m)")
  case (Some r)
  obtain e1 s1 where cl: "forwarder_Close nt False r s = (e1, s1)" by fastforce
  with forwarder_Close_locks [of nt False r s c] Some assms show ?thesis
    by (auto simp: portForwardHandlerStop_def Let_def split: option.splits)
qed (use assms in \<open>simp add: portForwardHandlerStop_def\<close>)

lemma forward_locks:
  assumes "portForwardHandlerForward nt m s = (e, s')"
  shows "pf_proto s' = pf_proto s \<and> forwards c s' = forwards c s \<and> locks s' = locks s"
proof (cases "pf_map s (connection_of m)")
  case (Some r)
  show ?thesis
  proof (cases "forwarder_Write nt r (Body m) s")
    case w: (Some x)
    obtain e1 s1 where x: "x = (e1, s1)" by fastforce
    with w have s1: "pf_proto s1 = pf_proto s \<and> forwards c s1 = forwards c s \<and> locks s1 = locks s"
      by (auto simp: forwarder_Write_def split: option.splits)
    obtain e2 s2 where p: "pf_write (connection_reply m MessageTypePortForwardAck) s1 = (e2, s2)" by fastforce
    then have "s2 = snd (pf_write (connection_reply m MessageTypePortForwardAck) s1)" by simp
    then have "pf_proto s2 = pf_proto s1 \<and> forwards c s2 = forwards c s1 \<and> locks s2 = locks s1" by simp
    with s1 assms Some w x p show ?thesis
      by (auto simp: portForwardHandlerForward_def split: option.splits if_splits)
  qed (use assms Some in \<open>simp add: portForwardHandlerForward_def\<close>)
qed (use assms in \<open>simp add: portForwardHandlerForward_def\<close>)

lemma ack_locks:
  assumes "portForwardHandlerAck m s = (e, s')" "wf_pf s"
  shows "pf_proto s' = pf_proto s \<and> forwards c s' = forwards c s \<and>
     (locks s' = locks s \<or> (\<exists>r. locks s r = Some (connection_of m, True) \<and>
        locks s' = (locks s)(r \<mapsto> (connection_of m, False))))"
proof (cases "pf_map s (connection_of m)")
  case (Some r)
  then obtain f where "pf_heap s r = Some f" "fw_ConnectionID f = connection_of m"
    using wf_pf_map [OF assms(2)] by blast
  with Some assms(1) show ?thesis
    by (auto simp: portForwardHandlerAck_def locks_def fun_eq_iff split: if_splits)
qed (use assms in \<open>simp add: portForwardHandlerAck_def\<close>)

text \<open>Serving any message: at most the lock its acknowledgement opens, or a new connection.\<close>

lemma pf_dispatch_cases:
  assumes "pf_dispatch cd nt m s = (r, s')"
  obtains (new) e where "MsgType (Header m) = MessageTypePortForwardNew" "portForwardHandlerNew cd nt m s = (e, s')" "r = PfDone e"
  | (stop) e where "MsgType (Header m) = MessageTypePortForwardStop" "portForwardHandlerStop nt m s = (e, s')" "r = PfDone e"
  | (forward) "MsgType (Header m) = MessageTypePortForward" "portForwardHandlerForward nt m s = (r, s')"
  | (ack) "MsgType (Header m) = MessageTypePortForwardAck" "portForwardHandlerAck m s = (r, s')"
  | (other) e where "r = PfDone (Some e)" "s' = s"
  using assms by (auto simp: pf_dispatch_def Let_def split: if_splits prod.splits)

definition lock_change :: "ProtoMsg \<Rightarrow> pf_state \<Rightarrow> pf_state \<Rightarrow> bool" where
  "lock_change m s s' \<longleftrightarrow>
     locks s' = locks s \<or>
     (MsgType (Header m) = MessageTypePortForwardNew \<and> locks s' = (locks s)(pf_next s \<mapsto> (connection_of m, False))) \<or>
     (\<exists>r. MsgType (Header m) = MessageTypePortForwardAck \<and> locks s r = Some (connection_of m, True) \<and>
        locks s' = (locks s)(r \<mapsto> (connection_of m, False)))"

lemma serve_locks:
  assumes run: "PortForward_ServeProtoMsg cd nt m s = (e, s')" and wf: "wf_pf s"
  shows "pf_proto s' = pf_proto s \<and> forwards c s' = forwards c s \<and> lock_change m s s'"
proof -
  obtain r s1 where d: "pf_dispatch cd nt m s = (r, s1)" by fastforce
  then have one: "pf_proto s1 = pf_proto s \<and> forwards c s1 = forwards c s \<and> lock_change m s s1"
  proof (cases rule: pf_dispatch_cases)
    case (new e)
    with new_locks [OF new(2), of c] show ?thesis by (auto simp: lock_change_def)
  next
    case (stop e)
    with stop_locks [OF stop(2), of c] show ?thesis by (auto simp: lock_change_def)
  next
    case forward
    with forward_locks [OF forward(2), of c] show ?thesis by (auto simp: lock_change_def)
  next
    case ack
    with ack_locks [OF ack(2) wf, of c] show ?thesis by (auto simp: lock_change_def)
  next
    case (other e)
    then show ?thesis by (simp add: lock_change_def)
  qed
  from run d have "s' = s1 \<or> (\<exists>e. s' = snd (pf_write (pf_error cd (pf_proto s1) m e) s1))"
    by (auto simp: PortForward_ServeProtoMsg_def split: pf_end.splits option.splits)
  with one show ?thesis by (auto simp: lock_change_def)
qed

text \<open>The forwarder \<open>r\<close> is the only one ever named \<open>c\<close>. Its credit is one while it may send.\<close>

definition only_forwarder :: "string \<Rightarrow> fref \<Rightarrow> pf_state \<Rightarrow> bool" where
  "only_forwarder c r s \<longleftrightarrow> (\<forall>q b. locks s q = Some (c, b) \<longrightarrow> q = r) \<and> (\<exists>b. locks s r = Some (c, b))"

definition credit :: "fref \<Rightarrow> pf_state \<Rightarrow> nat" where
  "credit r s = (case locks s r of Some (c, False) \<Rightarrow> 1 | _ \<Rightarrow> 0)"

fun acks_for :: "string \<Rightarrow> pf_ev list \<Rightarrow> nat" where
  "acks_for c [] = 0"
| "acks_for c (PfMsg m # evs) = (if is_ack c m then 1 else 0) + acks_for c evs"
| "acks_for c (PfRead r ev # evs) = acks_for c evs"

fun reopens :: "string \<Rightarrow> pf_ev list \<Rightarrow> bool" where
  "reopens c [] = False"
| "reopens c (PfMsg m # evs) \<longleftrightarrow>
     MsgType (Header m) = MessageTypePortForwardNew \<and> connection_of m = c \<or> reopens c evs"
| "reopens c (PfRead r ev # evs) = reopens c evs"

lemma serve_credit:
  assumes run: "PortForward_ServeProtoMsg cd nt m s = (e, s')" and wf: "wf_pf s" and only: "only_forwarder c r s"
    and new: "\<not> (MsgType (Header m) = MessageTypePortForwardNew \<and> connection_of m = c)"
  shows "only_forwarder c r s' \<and> pf_proto s' = pf_proto s \<and>
     forwards c s' + credit r s' \<le> forwards c s + credit r s + (if is_ack c m then 1 else 0)"
proof -
  have nxt: "locks s (pf_next s) = None"
    using wf_pf_heap [OF wf, of "pf_next s"] by (cases "pf_heap s (pf_next s)") (auto simp: locks_def)
  from serve_locks [OF run wf, of c] show ?thesis unfolding lock_change_def
  proof (elim conjE disjE exE)
    assume "locks s' = locks s" "pf_proto s' = pf_proto s" "forwards c s' = forwards c s"
    with only show ?thesis by (simp add: only_forwarder_def credit_def)
  next
    assume a: "MsgType (Header m) = MessageTypePortForwardNew" "locks s' = (locks s)(pf_next s \<mapsto> (connection_of m, False))"
      "pf_proto s' = pf_proto s" "forwards c s' = forwards c s"
    then have "connection_of m \<noteq> c" using new by simp
    moreover have "r \<noteq> pf_next s" using only nxt by (auto simp: only_forwarder_def)
    ultimately show ?thesis using a only by (auto simp: only_forwarder_def credit_def)
  next
    fix q
    assume a: "MsgType (Header m) = MessageTypePortForwardAck" "locks s q = Some (connection_of m, True)"
      "locks s' = (locks s)(q \<mapsto> (connection_of m, False))" "pf_proto s' = pf_proto s" "forwards c s' = forwards c s"
    show ?thesis
    proof (cases "connection_of m = c")
      case True
      with a only show ?thesis by (auto simp: only_forwarder_def credit_def is_ack_def)
    next
      case False
      with a only have "q \<noteq> r" by (auto simp: only_forwarder_def)
      with False a only show ?thesis by (auto simp: only_forwarder_def credit_def)
    qed
  qed
qed

lemma read_credit:
  assumes run: "forwarder_Read nt q ev s = Some s'" and wf: "wf_pf s" and only: "only_forwarder c r s"
    and v1: "pf_proto s = ProtoTypePortForward"
  shows "only_forwarder c r s' \<and> pf_proto s' = pf_proto s \<and> forwards c s' + credit r s' \<le> forwards c s + credit r s"
proof (cases "pf_heap s q")
  case (Some f)
  have pv: "fw_proto f = ProtoTypePortForward" using wf_pf_heap [OF wf Some] v1 by simp
  have same: ?thesis if "locks s' = locks s" "pf_proto s' = pf_proto s" "forwards c s' = forwards c s"
    using that only by (simp add: only_forwarder_def credit_def)
  show ?thesis
  proof (cases ev)
    case (RdData b)
    let ?s1 = "pf_modify q (\<lambda>f. f\<lparr>fw_ackLocked := True\<rparr>) s"
    let ?m = "connection_msg (fw_proto f) MessageTypePortForward (fw_SessionID f) (fw_ConnectionID f) b"
    from run Some RdData pv have un: "\<not> fw_ackLocked f" and s': "s' = snd (pf_write ?m ?s1)"
      by (auto simp: forwarder_Read_def Let_def split: if_splits)
    have l': "locks s' = (locks s)(q \<mapsto> (fw_ConnectionID f, True))"
      using s' Some by (auto simp: locks_def fun_eq_iff)
    have lq: "locks s q = Some (fw_ConnectionID f, False)" using Some un by (simp add: locks_def)
    have fw: "forwards c s' \<le> forwards c s + (if fw_ConnectionID f = c then 1 else 0)"
      using forwards_pf_write [of c ?m ?s1] s' by simp
    show ?thesis
    proof (cases "fw_ConnectionID f = c")
      case True
      with only lq have "q = r" by (auto simp: only_forwarder_def)
      with True l' lq only fw s' show ?thesis by (auto simp: only_forwarder_def credit_def)
    next
      case False
      with only lq have "q \<noteq> r" by (auto simp: only_forwarder_def)
      with False l' only fw s' show ?thesis by (auto simp: only_forwarder_def credit_def)
    qed
  next
    case RdDone
    have "locks (pf_modify q (\<lambda>f. f\<lparr>fw_reading := False\<rparr>) s) = locks s" by simp
    with run Some RdDone show ?thesis by (intro same) (auto simp: forwarder_Read_def split: if_splits)
  next
    case (RdErr e)
    with run Some have "s' = snd (forwarder_Close nt True q s)" by (auto simp: forwarder_Read_def split: if_splits)
    with forwarder_Close_locks [of nt True q s c] show ?thesis by (intro same) simp_all
  next
    case RdTimeout
    with run Some have "s' = snd (forwarder_Close nt True q s)" by (auto simp: forwarder_Read_def split: if_splits)
    with forwarder_Close_locks [of nt True q s c] show ?thesis by (intro same) simp_all
  qed
qed (use run in \<open>simp add: forwarder_Read_def\<close>)

lemma run_credit:
  "pf_run cd nt evs s = Some s' \<Longrightarrow> wf_pf s \<Longrightarrow> only_forwarder c r s \<Longrightarrow> pf_proto s = ProtoTypePortForward \<Longrightarrow>
   \<not> reopens c evs \<Longrightarrow> forwards c s' + credit r s' \<le> forwards c s + credit r s + acks_for c evs"
proof (induction evs arbitrary: s)
  case (Cons ev evs)
  then obtain s1 where s1: "pf_step cd nt ev s = Some s1" "pf_run cd nt evs s1 = Some s'"
    by (auto simp: bind_eq_Some_conv)
  have wf1: "wf_pf s1" using pf_step_wf [OF Cons.prems(2) s1(1)] .
  show ?case
  proof (cases ev)
    case (PfMsg m)
    with s1(1) obtain e where "PortForward_ServeProtoMsg cd nt m s = (e, s1)"
      by (auto simp: pf_step_def split: prod.splits pf_end.splits)
    from serve_credit [OF this Cons.prems(2,3)] PfMsg Cons.prems Cons.IH [OF s1(2) wf1] show ?thesis by auto
  next
    case (PfRead q rev)
    with s1(1) have "forwarder_Read nt q rev s = Some s1" by (simp add: pf_step_def)
    from read_credit [OF this Cons.prems(2,3,4)] PfRead Cons.prems Cons.IH [OF s1(2) wf1] show ?thesis by auto
  qed
qed simp

lemma serve_new:
  assumes "PortForward_ServeProtoMsg cd nt m s = (PfDone None, s')" "MsgType (Header m) = MessageTypePortForwardNew"
  shows "s' = snd (pf_write (connection_reply m (MsgType (Header m)))
        (s\<lparr>pf_heap := (pf_heap s)(pf_next s \<mapsto> new_forwarder m s), pf_next := Suc (pf_next s),
           pf_map := (pf_map s)(connection_of m \<mapsto> pf_next s)\<rparr>)) \<and> Proto (Header m) = pf_proto s"
proof -
  have "Proto (Header m) = pf_proto s"
    using assms by (auto simp: PortForward_ServeProtoMsg_def pf_dispatch_def Let_def split: if_splits prod.splits)
  moreover from this assms have new: "portForwardHandlerNew cd nt m s = (None, s')"
    by (auto simp: PortForward_ServeProtoMsg_def pf_dispatch_def Let_def split: prod.splits option.splits)
  from new have "s' = snd (pf_write (connection_reply m (MsgType (Header m)))
        (s\<lparr>pf_heap := (pf_heap s)(pf_next s \<mapsto> new_forwarder m s), pf_next := Suc (pf_next s),
           pf_map := (pf_map s)(connection_of m \<mapsto> pf_next s)\<rparr>))"
    by (cases rule: portForwardHandlerNew_cases) auto
  ultimately show ?thesis by blast
qed

text \<open>
  C12. Version 1 keeps to one message in flight. Once a connection has been opened under a name
  not used before, the client is never sent more data messages of it than it has acknowledged,
  plus one, whatever messages of any connection arrive and whatever the readers meet.
\<close>

theorem pf_flow_control:
  assumes "pf_run cd nt evs0 (NewPortForwardHandler ProtoTypePortForward w) = Some s"
    and "\<forall>r f. pf_heap s r = Some f \<longrightarrow> fw_ConnectionID f \<noteq> connection_of m"
    and "PortForward_ServeProtoMsg cd nt m s = (PfDone None, s1)" "MsgType (Header m) = MessageTypePortForwardNew"
    and "pf_run cd nt evs s1 = Some s'" "\<not> reopens (connection_of m) evs"
    and "pf_proto s = ProtoTypePortForward"
  shows "forwards (connection_of m) s' \<le> forwards (connection_of m) s + acks_for (connection_of m) evs + 1"
proof -
  let ?c = "connection_of m"
  have wf: "wf_pf s" using pf_run_wf [OF _ assms(1)] by simp
  then have wf1: "wf_pf s1" using ServeProtoMsg_wf [of s cd nt m] assms(3) by simp
  note s1 = conjunct1 [OF serve_new [OF assms(3,4)]]
  have "only_forwarder ?c (pf_next s) s1"
    using assms(2) unfolding s1 only_forwarder_def
    by (auto simp: locks_def new_forwarder_def split: if_splits)
  moreover have "pf_proto s1 = ProtoTypePortForward" "forwards ?c s1 = forwards ?c s"
    using s1 assms(4,7) by simp_all
  moreover have "credit (pf_next s) s1 \<le> 1" by (auto simp: credit_def split: option.splits bool.splits)
  ultimately show ?thesis using run_credit [OF assms(5) wf1, of ?c "pf_next s"] assms(6) by simp
qed

text \<open>
  C28. Forwarding ends and loses nothing: on a network whose writes take at least one byte or
  say why they do not, the loop of partial writes returns; the connection has then been given
  the body behind what it had before, all of it unless an error is reported; and over a
  working channel the client gets the acknowledgement of version 1, nothing of version 2, or
  the error.
\<close>

theorem pf_forward_delivers:
  assumes "progressing nt" and "MsgType (Header m) = MessageTypePortForward" "Proto (Header m) = pf_proto s"
    and "pf_map s (connection_of m) = Some r" "pf_heap s r = Some f" and "reliable (pf_wire s)"
  shows "\<exists>e s' f' n. PortForward_ServeProtoMsg cd nt m s = (PfDone e, s') \<and> pf_heap s' r = Some f' \<and>
     cn_written (fw_conn f') = cn_written (fw_conn f) @ take n (Body m) \<and>
     (e = None \<longrightarrow> length (Body m) \<le> n) \<and>
     wire_out (pf_wire s') = wire_out (pf_wire s) @
       (case e of Some x \<Rightarrow> [pf_error cd (pf_proto s) m x]
        | None \<Rightarrow> if pf_proto s = ProtoTypePortForward then [connection_reply m MessageTypePortForwardAck] else [])"
proof -
  from forwarder_Write_progress [OF assms(1,5), of "Body m"] obtain e n c where
    w: "forwarder_Write nt r (Body m) s = Some (e, pf_modify r (\<lambda>f. f\<lparr>fw_conn := c\<rparr>) s)"
      "cn_written c = cn_written (fw_conn f) @ take n (Body m)" "e = None \<longrightarrow> length (Body m) \<le> n" by blast
  let ?s1 = "pf_modify r (\<lambda>f. f\<lparr>fw_conn := c\<rparr>) s"
  have h: "pf_heap ?s1 r = Some (f\<lparr>fw_conn := c\<rparr>)" using assms(5) by simp
  show ?thesis
  proof (cases e)
    case None
    let ?a = "connection_reply m MessageTypePortForwardAck"
    have "PortForward_ServeProtoMsg cd nt m s = (PfDone None,
        if pf_proto s = ProtoTypePortForward then snd (pf_write ?a ?s1) else ?s1)"
      using assms w None by (simp add: PortForward_ServeProtoMsg_def pf_dispatch_def portForwardHandlerForward_def
          pf_write_def Let_def)
    moreover have "pf_heap (if pf_proto s = ProtoTypePortForward then snd (pf_write ?a ?s1) else ?s1) r
        = Some (f\<lparr>fw_conn := c\<rparr>)" using h by simp
    moreover have "wire_out (pf_wire (if pf_proto s = ProtoTypePortForward then snd (pf_write ?a ?s1) else ?s1)) =
        wire_out (pf_wire s) @ (if pf_proto s = ProtoTypePortForward then [?a] else [])"
      using assms(6) by simp
    ultimately show ?thesis using w(2,3) None
      by (intro exI [of _ "None :: gerror option"] exI [of _ "if pf_proto s = ProtoTypePortForward then _ else _"]
          exI [of _ "f\<lparr>fw_conn := c\<rparr>"] exI [of _ n]) simp
  next
    case (Some x)
    let ?x = "Wrapped ''error forwarding message to connection'' x"
    have "PortForward_ServeProtoMsg cd nt m s = (PfDone (Some ?x), snd (pf_write (pf_error cd (pf_proto s) m ?x) ?s1))"
      using assms w Some by (simp add: PortForward_ServeProtoMsg_def pf_dispatch_def portForwardHandlerForward_def Let_def)
    moreover have "pf_heap (snd (pf_write (pf_error cd (pf_proto s) m ?x) ?s1)) r = Some (f\<lparr>fw_conn := c\<rparr>)"
      using h by simp
    moreover have "wire_out (pf_wire (snd (pf_write (pf_error cd (pf_proto s) m ?x) ?s1))) =
        wire_out (pf_wire s) @ [pf_error cd (pf_proto s) m ?x]" using assms(6) by simp
    ultimately show ?thesis using w(2)
      by (intro exI [of _ "Some ?x"] exI [of _ "snd (pf_write (pf_error cd (pf_proto s) m ?x) ?s1)"]
          exI [of _ "f\<lparr>fw_conn := c\<rparr>"] exI [of _ n]) simp
  qed
qed

text \<open>
  A name used twice orphans a connection. Opening a connection under a name in use leaves
  the old one open and unreachable; when the old one ends, it takes the name of the new one
  off the table, so that data for it is refused, and closing the handler, which only looks at
  the table, leaves it open.
\<close>

theorem pf_name_reuse:
  assumes wf: "pf_run cd nt evs (NewPortForwardHandler p w) = Some s"
    and old: "pf_map s (connection_of m) = Some r"
    and new: "PortForward_ServeProtoMsg cd nt m s = (PfDone None, s1)" "MsgType (Header m) = MessageTypePortForwardNew"
    and err: "forwarder_Read nt r (RdErr e) s1 = Some s2"
    and m': "connection_of m' = connection_of m"
    and cl: "PortForwardHandler_Close nt order s2 = (es, s3)" "set order \<subseteq> ran (pf_map s2)"
  shows "\<exists>r' f'. pf_map s1 (connection_of m) = Some r' \<and> r' \<noteq> r \<and> pf_map s2 (connection_of m) = None \<and>
     portForwardHandlerForward nt m' s2 = (PfDone (Some (Sentinel ErrPortForwardUnknownConnection)), s2) \<and>
     pf_heap s3 r' = Some f' \<and> \<not> fw_closed f' \<and> \<not> cn_closed (fw_conn f')"
proof -
  have wf: "wf_pf s" using pf_run_wf [OF _ wf] by simp
  obtain f where f: "pf_heap s r = Some f" "fw_ConnectionID f = connection_of m" "\<not> fw_closed f" "fw_reading f"
    using wf_pf_map [OF wf old] by blast
  then have ne: "pf_next s \<noteq> r" using wf_pf_heap [OF wf] by blast
  note s1 = conjunct1 [OF serve_new [OF new]]
  have f1: "pf_heap s1 r = Some f" using f(1) ne s1 by simp
  have s2: "s2 = snd (forwarder_Close nt True r s1)" using err f1 f(4) by (simp add: forwarder_Read_def)
  have wf1: "wf_pf s1" using ServeProtoMsg_wf [OF wf, of cd nt m] new(1) by simp
  then have wf2: "wf_pf s2" using forwarder_Close_wf s2 by simp
  have none: "pf_map s2 (connection_of m) = None" using s2 f by (simp add: forwarder_Close_open [OF f1])
  have h2: "pf_heap s2 (pf_next s) = Some (new_forwarder m s)"
    using s2 s1 ne by (simp add: forwarder_Close_other)
  have "pf_map s2 k \<noteq> Some (pf_next s)" for k
  proof
    assume k: "pf_map s2 k = Some (pf_next s)"
    with wf_pf_map [OF wf2 k] h2 have "k = connection_of m" by (auto simp: new_forwarder_def)
    with k none show False by simp
  qed
  moreover have heap2: "\<forall>q \<in> set order. pf_heap s2 q \<noteq> None"
  proof
    fix q assume "q \<in> set order"
    then obtain k where "pf_map s2 k = Some q" using cl(2) by (auto simp: ran_def)
    from wf_pf_map [OF wf2 this] show "pf_heap s2 q \<noteq> None" by auto
  qed
  ultimately have "pf_next s \<notin> set order" using cl(2) by (auto simp: ran_def)
  then have h3: "pf_heap s3 (pf_next s) = pf_heap s2 (pf_next s)"
    using conjunct2 [OF conjunct2 [OF conjunct2 [OF Close_closes [OF cl(1) wf2 heap2]]]] by simp
  have "pf_map s1 (connection_of m) = Some (pf_next s)" using s1 by simp
  moreover have "portForwardHandlerForward nt m' s2 = (PfDone (Some (Sentinel ErrPortForwardUnknownConnection)), s2)"
    using none m' by (simp add: portForwardHandlerForward_def)
  moreover have "\<not> fw_closed (new_forwarder m s)" "\<not> cn_closed (fw_conn (new_forwarder m s))"
    by (simp_all add: new_forwarder_def)
  ultimately show ?thesis using h2 h3 none ne by metis
qed

text \<open>
  An acknowledgement nobody waits for ends the process. The acknowledgement of a version 1
  connection that has no message in flight, such as one just opened, unlocks a mutex that is
  not locked, a fatal error that \<open>recover\<close> does not stop.
\<close>

theorem pf_stray_ack_fatal:
  assumes "PortForward_ServeProtoMsg cd nt m s = (PfDone None, s1)" "MsgType (Header m) = MessageTypePortForwardNew"
    and "pf_proto s = ProtoTypePortForward"
    and "MsgType (Header m') = MessageTypePortForwardAck" "connection_of m' = connection_of m"
      "Proto (Header m') = ProtoTypePortForward"
  shows "PortForward_ServeProtoMsg cd nt m' s1 = (PfFatal, s1)"
  using serve_new [OF assms(1,2)] assms(3-)
  by (simp add: PortForward_ServeProtoMsg_def pf_dispatch_def portForwardHandlerAck_def new_forwarder_def Let_def)

section \<open>Examples\<close>

definition sample_net :: net where
  "sample_net = \<lparr>nt_Dial = (\<lambda>_ _. None), nt_Write = (\<lambda>_ _ b. (length b, None)), nt_Close = (\<lambda>_. None)\<rparr>"

definition pf_msg :: "string \<Rightarrow> bytes \<Rightarrow> ProtoMsg" where
  "pf_msg t b = connection_msg ProtoTypePortForward t ''s1'' ''c1'' b"

definition pf_start :: pf_state where
  "pf_start = NewPortForwardHandler ProtoTypePortForward good_wire"

definition pf_open :: pf_state where
  "pf_open = snd (PortForward_ServeProtoMsg sample_codec sample_net (pf_msg ''new'' []) pf_start)"

lemma pf_msg_sel [simp]:
  "connection_of (pf_msg t b) = ''c1''" "MsgType (Header (pf_msg t b)) = t" "Body (pf_msg t b) = b"
  "Proto (Header (pf_msg t b)) = ProtoTypePortForward"
  by (simp_all add: pf_msg_def connection_msg_def connection_of_def prop_string_def prop_get_def)

lemma sample_new:
  "pf_proto s = ProtoTypePortForward \<Longrightarrow>
   fst (PortForward_ServeProtoMsg sample_codec sample_net (pf_msg ''new'' []) s) = PfDone None"
  by (simp add: PortForward_ServeProtoMsg_def pf_dispatch_def portForwardHandlerNew_def Connect_def
        sample_codec_def sample_net_def Let_def)

lemma pf_open_run:
  "PortForward_ServeProtoMsg sample_codec sample_net (pf_msg ''new'' []) pf_start = (PfDone None, pf_open)"
  using sample_new [of pf_start] by (simp add: pf_open_def pf_start_def NewPortForwardHandler_def prod_eq_iff)

lemma pf_open_eq:
  "pf_open = snd (pf_write (connection_reply (pf_msg ''new'' []) ''new'')
     (pf_start\<lparr>pf_heap := [0 \<mapsto> new_forwarder (pf_msg ''new'' []) pf_start], pf_next := 1, pf_map := [''c1'' \<mapsto> 0]\<rparr>))"
  using serve_new [OF pf_open_run] by (simp add: pf_start_def NewPortForwardHandler_def)

lemma pf_open_sel [simp]:
  "pf_map pf_open = [''c1'' \<mapsto> 0]" "pf_heap pf_open = [0 \<mapsto> new_forwarder (pf_msg ''new'' []) pf_start]"
  "pf_proto pf_open = ProtoTypePortForward" "reliable (pf_wire pf_open)" "pf_next pf_open = 1"
  by (simp_all add: pf_open_eq, simp_all add: pf_start_def NewPortForwardHandler_def)

lemma pf_start_run: "pf_run cd nt [] (NewPortForwardHandler ProtoTypePortForward good_wire) = Some pf_start"
  by (simp add: pf_start_def)

lemma pf_open_reach:
  "pf_run sample_codec sample_net [PfMsg (pf_msg ''new'' [])] (NewPortForwardHandler ProtoTypePortForward good_wire) = Some pf_open"
  using pf_open_run by (simp add: pf_step_def pf_start_def)

theorem pf_close_all_witness:
  "\<exists>es s'. PortForwardHandler_Close sample_net [0] pf_open = (es, s') \<and> pf_map s' ''c1'' = None"
proof -
  obtain es s' where c: "PortForwardHandler_Close sample_net [0] pf_open = (es, s')" by fastforce
  from pf_close_all [OF pf_open_reach _ _ c] c show ?thesis by simp
qed

theorem pf_flow_control_witness:
  "\<exists>s'. pf_run sample_codec sample_net [PfRead 0 (RdData ''x'')] pf_open = Some s' \<and>
     forwards ''c1'' s' \<le> forwards ''c1'' pf_start + 1"
proof -
  have "pf_run sample_codec sample_net [PfRead 0 (RdData ''x'')] pf_open \<noteq> None"
    by (simp add: pf_step_def forwarder_Read_def portForwardBuffSize_def new_forwarder_def Let_def)
  then obtain s' where run: "pf_run sample_codec sample_net [PfRead 0 (RdData ''x'')] pf_open = Some s'" by blast
  from pf_flow_control [OF pf_start_run _ pf_open_run _ run] run show ?thesis
    by (simp add: pf_start_def NewPortForwardHandler_def)
qed

theorem pf_forward_delivers_witness:
  "\<exists>e s' f' n. PortForward_ServeProtoMsg sample_codec sample_net (pf_msg ''forward'' ''abc'') pf_open = (PfDone e, s') \<and>
     pf_heap s' 0 = Some f' \<and> cn_written (fw_conn f') = take n ''abc''"
proof -
  have "progressing sample_net" by (simp add: progressing_def sample_net_def)
  from pf_forward_delivers [OF this, of "pf_msg ''forward'' ''abc''" pf_open 0 "new_forwarder (pf_msg ''new'' []) pf_start"
      sample_codec]
  obtain e s' f' n where
    "PortForward_ServeProtoMsg sample_codec sample_net (pf_msg ''forward'' ''abc'') pf_open = (PfDone e, s')"
    "pf_heap s' 0 = Some f'"
    "cn_written (fw_conn f') = cn_written (fw_conn (new_forwarder (pf_msg ''new'' []) pf_start)) @ take n ''abc''"
    by (auto simp del: pf_open_sel(2) simp: pf_open_sel(2) [THEN fun_cong])
  then show ?thesis by (intro exI conjI) (assumption | simp add: new_forwarder_def)+
qed

theorem pf_name_reuse_witness:
  "\<exists>s1 s2. PortForward_ServeProtoMsg sample_codec sample_net (pf_msg ''new'' []) pf_open = (PfDone None, s1) \<and>
     forwarder_Read sample_net 0 (RdErr (Sentinel ErrEOF)) s1 = Some s2 \<and> pf_map s2 ''c1'' = None"
proof -
  obtain s1 where s1: "PortForward_ServeProtoMsg sample_codec sample_net (pf_msg ''new'' []) pf_open = (PfDone None, s1)"
    using sample_new [of pf_open] by (metis pf_open_sel(3) prod.collapse)
  have "pf_heap s1 0 = Some (new_forwarder (pf_msg ''new'' []) pf_start)" using serve_new [OF s1] by simp
  then obtain s2 where s2: "forwarder_Read sample_net 0 (RdErr (Sentinel ErrEOF)) s1 = Some s2"
    by (simp add: forwarder_Read_def new_forwarder_def)
  from pf_name_reuse [OF pf_open_reach _ s1 _ s2, of "pf_msg ''forward'' []" "[]" "[]" s2] s1 s2 show ?thesis by auto
qed

theorem pf_stray_ack_fatal_witness:
  "PortForward_ServeProtoMsg sample_codec sample_net (pf_msg ''ack'' []) pf_open = (PfFatal, pf_open)"
  by (rule pf_stray_ack_fatal [OF pf_open_run]) (simp_all add: pf_start_def NewPortForwardHandler_def)

end
