(* ===== verification/FileSys.thy ===== *)
theory FileSys
  imports Utils
begin

text \<open>
  The file operations that change state: what \<open>os.OpenFile\<close> with \<open>O_CREATE|O_EXCL\<close>,
  \<open>File.Write\<close>, \<open>Chmod\<close>, \<open>Chown\<close>, \<open>Close\<close>, \<open>os.Rename\<close> and \<open>os.Remove\<close> do to regular
  files, with a schedule that makes any call fail. A descriptor is identified with the
  name it was opened under, which is the name \<open>File.Name\<close> returns for ever.
\<close>

record inode =
  f_content :: bytes
  f_mode :: u32
  f_uid :: int
  f_gid :: int

text \<open>
  \<open>fs_fault n = Some (e, k)\<close> makes the \<open>n\<close>-th call fail with \<open>e\<close>; a failing \<open>Write\<close> has
  written the first \<open>k\<close> bytes.
\<close>

record fsys =
  fs_files :: "string \<rightharpoonup> inode"
  fs_fault :: "nat \<Rightarrow> (gerror \<times> nat) option"
  fs_count :: nat

definition fs_tick :: "fsys \<Rightarrow> fsys" where
  "fs_tick s = s\<lparr>fs_count := Suc (fs_count s)\<rparr>"

definition fs_now :: "fsys \<Rightarrow> (gerror \<times> nat) option" where
  "fs_now s = fs_fault s (fs_count s)"

definition ENOENT :: gerror where "ENOENT = ErrOS ENotExist ''no such file or directory''"
definition EEXIST :: gerror where "EEXIST = ErrOS EExist ''file exists''"

definition fs_OpenExcl :: "string \<Rightarrow> u32 \<Rightarrow> fsys \<Rightarrow> gerror option \<times> fsys" where
  "fs_OpenExcl p perm s =
     (case fs_now s of
        Some (e, _) \<Rightarrow> (Some e, fs_tick s)
      | None \<Rightarrow>
          if p \<in> dom (fs_files s) then (Some EEXIST, fs_tick s)
          else (None, (fs_tick s)\<lparr>fs_files := (fs_files s)(p \<mapsto>
                  \<lparr>f_content = [], f_mode = perm, f_uid = 0, f_gid = 0\<rparr>)\<rparr>))"

definition fs_modify :: "string \<Rightarrow> (inode \<Rightarrow> inode) \<Rightarrow> fsys \<Rightarrow> gerror option \<times> fsys" where
  "fs_modify p f s =
     (case fs_now s of
        Some (e, _) \<Rightarrow> (Some e, fs_tick s)
      | None \<Rightarrow> (case fs_files s p of
          None \<Rightarrow> (Some ENOENT, fs_tick s)
        | Some x \<Rightarrow> (None, (fs_tick s)\<lparr>fs_files := (fs_files s)(p \<mapsto> f x)\<rparr>)))"

definition fs_Write :: "string \<Rightarrow> bytes \<Rightarrow> fsys \<Rightarrow> (nat \<times> gerror option) \<times> fsys" where
  "fs_Write p b s =
     (case fs_files s p of
        None \<Rightarrow> ((0, Some ENOENT), fs_tick s)
      | Some x \<Rightarrow>
          (let (n, r) = (case fs_now s of Some (e, k) \<Rightarrow> (min k (length b), Some e)
                                        | None \<Rightarrow> (length b, None))
           in ((n, r), (fs_tick s)\<lparr>fs_files :=
                 (fs_files s)(p \<mapsto> x\<lparr>f_content := f_content x @ take n b\<rparr>)\<rparr>)))"

definition fs_Chmod :: "string \<Rightarrow> u32 \<Rightarrow> fsys \<Rightarrow> gerror option \<times> fsys" where
  "fs_Chmod p m = fs_modify p (\<lambda>x. x\<lparr>f_mode := m\<rparr>)"

definition fs_Chown :: "string \<Rightarrow> int \<Rightarrow> int \<Rightarrow> fsys \<Rightarrow> gerror option \<times> fsys" where
  "fs_Chown p u g = fs_modify p (\<lambda>x. x\<lparr>f_uid := u, f_gid := g\<rparr>)"

definition fs_Close :: "string \<Rightarrow> fsys \<Rightarrow> gerror option \<times> fsys" where
  "fs_Close p s = (map_option fst (fs_now s), fs_tick s)"

definition fs_Rename :: "string \<Rightarrow> string \<Rightarrow> fsys \<Rightarrow> gerror option \<times> fsys" where
  "fs_Rename old new s =
     (case fs_now s of
        Some (e, _) \<Rightarrow> (Some e, fs_tick s)
      | None \<Rightarrow> (case fs_files s old of
          None \<Rightarrow> (Some ENOENT, fs_tick s)
        | Some x \<Rightarrow> (None, (fs_tick s)\<lparr>fs_files := (fs_files s)(old := None, new \<mapsto> x)\<rparr>)))"

definition fs_Remove :: "string \<Rightarrow> fsys \<Rightarrow> gerror option \<times> fsys" where
  "fs_Remove p s =
     (case fs_now s of
        Some (e, _) \<Rightarrow> (Some e, fs_tick s)
      | None \<Rightarrow> (case fs_files s p of
          None \<Rightarrow> (Some ENOENT, fs_tick s)
        | Some _ \<Rightarrow> (None, (fs_tick s)\<lparr>fs_files := (fs_files s)(p := None)\<rparr>)))"

lemmas fs_op_defs = fs_OpenExcl_def fs_modify_def fs_Write_def fs_Chmod_def fs_Chown_def
  fs_Close_def fs_Rename_def fs_Remove_def fs_tick_def

text \<open>What a call leaves alone: every file but the one it names, and the schedule.\<close>

lemma fs_OpenExcl_frame [frame]: "q \<noteq> p \<Longrightarrow> fs_files (snd (fs_OpenExcl p m s)) q = fs_files s q"
  by (auto simp: fs_op_defs split: option.splits)

lemma fs_Write_frame [frame]: "q \<noteq> p \<Longrightarrow> fs_files (snd (fs_Write p b s)) q = fs_files s q"
  by (auto simp: fs_op_defs split: option.splits prod.splits)

lemma fs_Chmod_frame [frame]: "q \<noteq> p \<Longrightarrow> fs_files (snd (fs_Chmod p m s)) q = fs_files s q"
  by (auto simp: fs_op_defs split: option.splits)

lemma fs_Chown_frame [frame]: "q \<noteq> p \<Longrightarrow> fs_files (snd (fs_Chown p u g s)) q = fs_files s q"
  by (auto simp: fs_op_defs split: option.splits)

lemma fs_Close_files [frame]: "fs_files (snd (fs_Close p s)) = fs_files s"
  by (auto simp: fs_op_defs)

lemma fs_Remove_frame [frame]: "q \<noteq> p \<Longrightarrow> fs_files (snd (fs_Remove p s)) q = fs_files s q"
  by (auto simp: fs_op_defs split: option.splits)

lemma fs_Rename_frame [frame]:
  "q \<noteq> old \<Longrightarrow> q \<noteq> new \<Longrightarrow> fs_files (snd (fs_Rename old new s)) q = fs_files s q"
  by (auto simp: fs_op_defs split: option.splits)

lemma fs_fault_frame [frame]:
  "fs_fault (snd (fs_OpenExcl p m s)) = fs_fault s"
  "fs_fault (snd (fs_Write p b s)) = fs_fault s"
  "fs_fault (snd (fs_Chmod p m s)) = fs_fault s"
  "fs_fault (snd (fs_Chown p u g s)) = fs_fault s"
  "fs_fault (snd (fs_Close p s)) = fs_fault s"
  "fs_fault (snd (fs_Rename p q s)) = fs_fault s"
  "fs_fault (snd (fs_Remove p s)) = fs_fault s"
  by (auto simp: fs_op_defs split: option.splits prod.splits)

text \<open>A file system on which no call fails by itself.\<close>

definition healthy :: "fsys \<Rightarrow> bool" where
  "healthy s \<longleftrightarrow> (\<forall>n. fs_fault s n = None)"

lemma healthy_now [simp]: "healthy s \<Longrightarrow> fs_now s = None"
  by (simp add: healthy_def fs_now_def)

lemma healthy_step [simp]:
  "healthy (snd (fs_OpenExcl p m s)) = healthy s"
  "healthy (snd (fs_Write p b s)) = healthy s"
  "healthy (snd (fs_Chmod p m s)) = healthy s"
  "healthy (snd (fs_Chown p u g s)) = healthy s"
  "healthy (snd (fs_Close p s)) = healthy s"
  "healthy (snd (fs_Rename p q s)) = healthy s"
  "healthy (snd (fs_Remove p s)) = healthy s"
  by (simp_all add: healthy_def frame)

lemma fs_Rename_failed: "fs_Rename old new s = (Some e, s') \<Longrightarrow> fs_files s' = fs_files s"
  by (auto simp: fs_op_defs split: option.splits)

lemma fs_modify_failed: "fs_modify p f s = (Some e, s') \<Longrightarrow> fs_files s' = fs_files s"
  by (auto simp: fs_op_defs split: option.splits)

lemma fs_Chmod_ok:
  "fs_Chmod p m s = (None, s') \<Longrightarrow> \<exists>x. fs_files s p = Some x \<and>
     fs_files s' = (fs_files s)(p \<mapsto> x\<lparr>f_mode := m\<rparr>)"
  by (auto simp: fs_op_defs split: option.splits)

lemma fs_Chown_ok:
  "fs_Chown p u g s = (None, s') \<Longrightarrow> \<exists>x. fs_files s p = Some x \<and>
     fs_files s' = (fs_files s)(p \<mapsto> x\<lparr>f_uid := u, f_gid := g\<rparr>)"
  by (auto simp: fs_op_defs split: option.splits)

lemma fs_Rename_ok:
  "fs_Rename old new s = (None, s') \<Longrightarrow> \<exists>x. fs_files s old = Some x \<and>
     fs_files s' = (fs_files s)(old := None, new \<mapsto> x)"
  by (auto simp: fs_op_defs split: option.splits)

lemma fs_OpenExcl_ok:
  "fs_OpenExcl p m s = (None, s') \<Longrightarrow> p \<notin> dom (fs_files s) \<and>
     fs_files s' = (fs_files s)(p \<mapsto> \<lparr>f_content = [], f_mode = m, f_uid = 0, f_gid = 0\<rparr>)"
  by (auto simp: fs_op_defs split: option.splits if_splits)

section \<open>A sample file system\<close>

definition sample_fs :: fsys where
  "sample_fs = \<lparr>fs_files = Map.empty, fs_fault = (\<lambda>_. None), fs_count = 0\<rparr>"

lemma healthy_sample_fs [simp]: "healthy sample_fs"
  by (simp add: healthy_def sample_fs_def)

end
