(* ===== verification/Limits.thy ===== *)
theory Limits
  imports Config FileSys
begin

text \<open>
  Package \<open>limits/filetransfer\<close>: the permit a file-transfer handler consults. The checks of
  \<open>UploadFile\<close> and \<open>DownloadFile\<close>, the byte counters with their rate limit, the moving
  average \<open>updateCounters\<close> maintains, and what is done to the mode and the owner of an
  uploaded file. The locale \<open>byte_counter\<close> is the contract of the counting operations.
\<close>

section \<open>State\<close>

text \<open>
  The averages are \<open>float64\<close> values. The type \<open>'f\<close> and its operations are an argument, so
  that no theorem depends on rounding: conversion from and to \<open>uint64\<close>, sum and product.
\<close>

record 'f float_ops =
  f_of_u64 :: "u64 \<Rightarrow> 'f"
  f_to_u64 :: "'f \<Rightarrow> u64"
  f_add :: "'f \<Rightarrow> 'f \<Rightarrow> 'f"
  f_mul :: "'f \<Rightarrow> 'f \<Rightarrow> 'f"

record 'f Counters =
  bytesTransferred :: u64
  bytesReceived :: u64
  bytesTransferredAvg1m :: 'f
  bytesReceivedAvg1m :: 'f

text \<open>
  A permit together with the package variables it shares with every other permit:
  \<open>pm_device\<close> is \<open>deviceCounters\<close>, guarded in the code by \<open>countersMutex\<close>.
\<close>

record 'f permit =
  pm_fops :: "'f float_ops"
  pm_limits :: Limits
  pm_counters :: "'f Counters"
  pm_device :: "'f Counters"

abbreviation ft_limits :: "'f permit \<Rightarrow> FileTransferLimits" where
  "ft_limits p \<equiv> lim_ft (pm_limits p)"

definition zero_counters :: "'f float_ops \<Rightarrow> 'f Counters" where
  "zero_counters f = \<lparr>bytesTransferred = 0, bytesReceived = 0,
     bytesTransferredAvg1m = f_of_u64 f 0, bytesReceivedAvg1m = f_of_u64 f 0\<rparr>"

definition NewPermit :: "'f float_ops \<Rightarrow> 'f Counters \<Rightarrow> Limits \<Rightarrow> 'f permit" where
  "NewPermit f device config =
     \<lparr>pm_fops = f, pm_limits = config, pm_counters = zero_counters f, pm_device = device\<rparr>"

section \<open>May this file be written? (Permit.UploadFile)\<close>

text \<open>\<open>*fileStat.Path\<close> is read without a check: a request without a path has been rejected by
  \<open>Validate\<close> before. \<open>None\<close> here would be a nil dereference, so the path is an argument.\<close>

definition UploadFile ::
  "os_env \<Rightarrow> Limits \<Rightarrow> string \<Rightarrow> int option \<Rightarrow> u32 option \<Rightarrow> gerror option" where
  "UploadFile os lim filePath fsize mode =
     (let l = lim_ft lim in
      if \<not> Enabled lim then None
      else if MaxFileSize l > 0 \<and>
              (case fsize of None \<Rightarrow> False | Some n \<Rightarrow> (word_of_int n :: u64) > MaxFileSize l)
      then Some (Sentinel ErrFileTooBig)
      else if \<not> IsInChroot filePath (Chroot l) then Some (Sentinel ErrChrootViolation)
      else case (if FollowSymLinks l then None
                 else case EvalSymlinks os (path_Dir filePath) of
                   Inl e \<Rightarrow> Some e
                 | Inr absolutePath \<Rightarrow>
                     if absolutePath \<noteq> path_Dir filePath
                     then Some (Sentinel ErrFollowLinksForbidden) else None) of
        Some e \<Rightarrow> Some e
      | None \<Rightarrow>
          if \<not> AllowOverwrite l \<and> FileExists os filePath
          then Some (Sentinel ErrForbiddenToOverwriteFile)
          else if AllowOverwrite l \<and> FileExists os filePath \<and>
                  \<not> FileOwnerMatches os filePath (OwnerPut l)
          then Some (Sentinel ErrFileOwnerMismatch)
          else if AllowOverwrite l \<and> FileExists os filePath \<and>
                  \<not> FileGroupMatches os filePath (GroupPut l)
          then Some (Sentinel ErrFileGroupMismatch)
          else if \<not> AllowSuid l \<and>
                  (case mode of None \<Rightarrow> False | Some m \<Rightarrow> m AND ModeSetuid \<noteq> 0)
          then Some (Sentinel ErrSuidModeForbidden)
          else None)"

section \<open>May this file be read? (Permit.DownloadFile)\<close>

definition DownloadFile :: "os_env \<Rightarrow> Limits \<Rightarrow> string \<Rightarrow> gerror option" where
  "DownloadFile os lim filePath =
     (let l = lim_ft lim in
      if \<not> Enabled lim then None
      else if RegularFilesOnly l \<and> \<not> IsRegularFile os filePath
      then Some (Sentinel ErrOnlyRegularFilesAllowed)
      else if \<not> IsInChroot filePath (Chroot l) then Some (Sentinel ErrChrootViolation)
      else if OwnerGet l \<noteq> [] \<and> \<not> list_ex (FileOwnerMatches os filePath) (OwnerGet l)
      then Some (Sentinel ErrFileOwnerMismatch)
      else if GroupGet l \<noteq> [] \<and> \<not> list_ex (FileGroupMatches os filePath) (GroupGet l)
      then Some (Sentinel ErrFileGroupMismatch)
      else case (if FollowSymLinks l then None
                 else case EvalSymlinks os filePath of
                   Inl e \<Rightarrow> Some e
                 | Inr absolutePath \<Rightarrow>
                     if absolutePath \<noteq> filePath
                     then Some (Sentinel ErrFollowLinksForbidden) else None) of
        Some e \<Rightarrow> Some e
      | None \<Rightarrow>
          if MaxFileSize l > 0 \<and>
             (let fileSize = FileSize os filePath
              in fileSize > 0 \<and> MaxFileSize l < word_of_int fileSize)
          then Some (Sentinel ErrFileTooBig)
          else None)"

section \<open>Counting bytes\<close>

text \<open>\<open>if c < math.MaxUint64 - n { c += n }\<close>, for \<open>n \<noteq> 0\<close>.\<close>

definition saturating_add :: "u64 \<Rightarrow> u64 \<Rightarrow> u64" where
  "saturating_add c n = (if n \<noteq> 0 \<and> c < - 1 - n then c + n else c)"

definition BytesSent :: "u64 \<Rightarrow> 'f permit \<Rightarrow> bool \<times> 'f permit" where
  "BytesSent n p =
     (if \<not> Enabled (pm_limits p) then (True, p)
      else
        let d = pm_device p;
            d = d\<lparr>bytesTransferred := saturating_add (bytesTransferred d) n\<rparr>;
            mx = MaxBytesTxPerMinute (rate_limits (ft_limits p));
            belowLimit = \<not> (mx > 0 \<and> f_to_u64 (pm_fops p) (bytesTransferredAvg1m d) \<ge> mx);
            c = pm_counters p;
            c = c\<lparr>bytesTransferred := saturating_add (bytesTransferred c) n\<rparr>
        in (belowLimit, p\<lparr>pm_device := d, pm_counters := c\<rparr>))"

definition BytesReceived :: "u64 \<Rightarrow> 'f permit \<Rightarrow> bool \<times> 'f permit" where
  "BytesReceived n p =
     (if \<not> Enabled (pm_limits p) then (True, p)
      else
        let d = pm_device p;
            d = d\<lparr>bytesReceived := saturating_add (bytesReceived d) n\<rparr>;
            mx = MaxBytesRxPerMinute (rate_limits (ft_limits p));
            belowLimit = \<not> (mx > 0 \<and> f_to_u64 (pm_fops p) (bytesReceivedAvg1m d) \<ge> mx);
            c = pm_counters p;
            c = c\<lparr>bytesReceived := saturating_add (bytesReceived c) n\<rparr>
        in (belowLimit, p\<lparr>pm_device := d, pm_counters := c\<rparr>))"

definition BelowMaxAllowedFileSize :: "Limits \<Rightarrow> int \<Rightarrow> bool" where
  "BelowMaxAllowedFileSize lim offset =
     (if \<not> Enabled lim then True
      else if offset < 0 then True
      else \<not> (MaxFileSize (lim_ft lim) > 0 \<and> (word_of_int offset :: u64) \<ge> MaxFileSize (lim_ft lim)))"

definition GetCounters :: "'f Counters \<Rightarrow> u64 \<times> u64 \<times> 'f \<times> 'f" where
  "GetCounters d = (bytesTransferred d, bytesReceived d, bytesTransferredAvg1m d, bytesReceivedAvg1m d)"

text \<open>
  The locals of \<open>updateCounters\<close>, and one turn of its loop: the bytes counted since the last
  turn enter both averages with weight \<open>w1\<close>, the old average keeps weight \<open>w1'\<close>. The
  subtraction is of \<open>uint64\<close> values.
\<close>

record 'f averager =
  lastRX :: u64
  lastTX :: u64
  avgRX :: 'f
  avgTX :: 'f

definition updateCounters_tick ::
  "'f float_ops \<Rightarrow> 'f \<Rightarrow> 'f \<Rightarrow> 'f averager \<Rightarrow> 'f Counters \<Rightarrow> 'f averager \<times> 'f Counters" where
  "updateCounters_tick f w1 w1' a d =
     (let txTot = bytesTransferred d;
          rxTot = bytesReceived d;
          rx = rxTot - lastRX a;
          tx = txTot - lastTX a;
          arx = f_add f (f_mul f w1 (f_of_u64 f rx)) (f_mul f w1' (avgRX a));
          atx = f_add f (f_mul f w1 (f_of_u64 f tx)) (f_mul f w1' (avgTX a))
      in (\<lparr>lastRX = rxTot, lastTX = txTot, avgRX = arx, avgTX = atx\<rparr>,
          d\<lparr>bytesTransferredAvg1m := atx, bytesReceivedAvg1m := arx\<rparr>))"

section \<open>Mode and owner of an uploaded file\<close>

definition S_ISUID :: u32 where "S_ISUID = 0x800"

text \<open>The mode \<open>PreserveModes\<close> hands to \<open>os.Chmod\<close>, or the error of parsing the umask.\<close>

definition umask_mode :: "string \<Rightarrow> u32 \<Rightarrow> gerror + u32" where
  "umask_mode um mode =
     (if um \<noteq> []
      then case ParseUint um 8 32 of
          Inl e \<Rightarrow> Inl e
        | Inr umask \<Rightarrow> Inr (ModePerm XOR (ModePerm AND of_nat umask))
      else Inr mode)"

definition preserved_mode :: "FileTransferLimits \<Rightarrow> u32 \<Rightarrow> gerror + u32" where
  "preserved_mode l mode =
     (if mode AND S_ISUID \<noteq> 0
      then case umask_mode (Umask l) (mode AND ModePerm) of
          Inl e \<Rightarrow> Inl e
        | Inr m \<Rightarrow> Inr (m OR ModeSetuid)
      else case umask_mode (Umask l) mode of
          Inl e \<Rightarrow> Inl e
        | Inr m \<Rightarrow> Inr (m AND ModePerm))"

definition PreserveModes :: "Limits \<Rightarrow> string \<Rightarrow> u32 \<Rightarrow> fsys \<Rightarrow> gerror option \<times> fsys" where
  "PreserveModes lim p mode s =
     (if \<not> Enabled lim then (None, s)
      else case preserved_mode (lim_ft lim) mode of
          Inl e \<Rightarrow> (Some e, s)
        | Inr m \<Rightarrow> if PreserveMode (lim_ft lim) then fs_Chmod p m s else (None, s))"

text \<open>The user or group a new file is forced to: \<open>None\<close> when none is configured.\<close>

definition forced_id :: "(string \<Rightarrow> gerror + string) \<Rightarrow> string \<Rightarrow> gerror + int option" where
  "forced_id lookup name =
     (if name \<noteq> []
      then case lookup name of
          Inl e \<Rightarrow> Inl e
        | Inr s \<Rightarrow> (case Atoi s of Inl e \<Rightarrow> Inl e | Inr i \<Rightarrow> Inr (Some i))
      else Inr None)"

definition PreserveOwnerGroup ::
  "os_env \<Rightarrow> Limits \<Rightarrow> string \<Rightarrow> int \<Rightarrow> int \<Rightarrow> fsys \<Rightarrow> gerror option \<times> fsys" where
  "PreserveOwnerGroup os lim p uid gid s =
     (if \<not> Enabled lim then (None, s)
      else case forced_id (user_Lookup os) (OwnerPut (lim_ft lim)) of
          Inl e \<Rightarrow> (Some e, s)
        | Inr fu \<Rightarrow> (case forced_id (user_LookupGroup os) (GroupPut (lim_ft lim)) of
            Inl e \<Rightarrow> (Some e, s)
          | Inr fg \<Rightarrow>
              (let u = (case fu of None \<Rightarrow> uid | Some i \<Rightarrow> i);
                   g = (case fg of None \<Rightarrow> gid | Some i \<Rightarrow> i);
                   forcedSet = (fu \<noteq> None \<or> fg \<noteq> None)
               in if forcedSet then fs_Chown p u g s
                  else if PreserveOwner (lim_ft lim) then fs_Chown p u g s
                  else (None, s))))"

section \<open>The contract of the byte counters\<close>

text \<open>
  Four counters obey the same laws: transmitted and received bytes, of the device and of
  one permit. A client adds a number of bytes and learns whether the rate is below its
  limit. A disabled permit counts nothing and refuses nothing; an enabled one adds unless
  the sum would come near the end of the range, and its verdict depends on the limit and
  the average only, which counting does not change.
\<close>

locale byte_counter =
  fixes count_bytes :: "u64 \<Rightarrow> 's \<Rightarrow> bool \<times> 's"
    and counted :: "'s \<Rightarrow> u64"
    and counting :: "'s \<Rightarrow> bool"
    and rate_ok :: "'s \<Rightarrow> bool"
  assumes disabled: "\<not> counting s \<Longrightarrow> count_bytes n s = (True, s)"
    and counted_step: "counting s \<Longrightarrow>
      counted (snd (count_bytes n s)) = saturating_add (counted s) n"
    and verdict: "counting s \<Longrightarrow> fst (count_bytes n s) = rate_ok s"
    and counting_step: "counting (snd (count_bytes n s)) = counting s"
    and rate_step: "rate_ok (snd (count_bytes n s)) = rate_ok s"
begin

text \<open>The calls of one transfer, one for each block of bytes.\<close>

primrec count_all :: "u64 list \<Rightarrow> 's \<Rightarrow> 's" where
  "count_all [] s = s"
| "count_all (n # ns) s = count_all ns (snd (count_bytes n s))"

lemma counting_all: "counting (count_all ns s) = counting s"
  by (induction ns arbitrary: s) (simp_all add: counting_step)

lemma count_all_append: "count_all (ms @ ns) s = count_all ns (count_all ms s)"
  by (induction ms arbitrary: s) simp_all

lemma rate_all: "rate_ok (count_all ns s) = rate_ok s"
  by (induction ns arbitrary: s) (simp_all add: rate_step)

end

lemma saturating_guard:
  fixes c n :: u64
  shows "c < - 1 - n \<longleftrightarrow> unat c + unat n < 2 ^ 64 - 1"
proof -
  have "unat (- 1 - n) = unat (- 1 :: u64) - unat n"
    by (rule unat_sub) simp
  then have "unat (- 1 - n) = 2 ^ 64 - 1 - unat n"
    by (simp add: unsigned_minus_1_eq_mask mask_eq_exp_minus_1)
  then show ?thesis by (auto simp: word_less_nat_alt)
qed

lemma saturating_add_exact:
  "unat c + unat n < 2 ^ 64 - 1 \<Longrightarrow> unat (saturating_add c n) = unat c + unat n"
proof -
  assume h: "unat c + unat n < 2 ^ 64 - 1"
  then have "unat (c + n) = unat c + unat n"
    by (subst unat_add_lem [symmetric]) simp
  with h show ?thesis
    by (cases "n = 0") (auto simp: saturating_add_def saturating_guard)
qed

lemma saturating_add_skip:
  "\<not> unat c + unat n < 2 ^ 64 - 1 \<Longrightarrow> saturating_add c n = c"
  by (simp add: saturating_add_def saturating_guard)

lemma saturating_add_mono: "c \<le> saturating_add c n"
  by (cases "unat c + unat n < 2 ^ 64 - 1")
     (simp_all add: saturating_add_skip saturating_add_exact word_le_nat_alt)

context byte_counter
begin

lemma counted_mono: "counting s \<Longrightarrow> counted s \<le> counted (count_all ns s)"
proof (induction ns arbitrary: s)
  case (Cons n ns)
  then have "counted (snd (count_bytes n s)) \<le> counted (count_all ns (snd (count_bytes n s)))"
    by (simp add: counting_step)
  with Cons.prems show ?case
    using saturating_add_mono [of "counted s" n] by (simp add: counted_step)
qed simp

lemma counted_exact:
  "counting s \<Longrightarrow> unat (counted s) + sum_list (map unat ns) < 2 ^ 64 - 1 \<Longrightarrow>
   unat (counted (count_all ns s)) = unat (counted s) + sum_list (map unat ns)"
proof (induction ns arbitrary: s)
  case (Cons n ns)
  let ?s = "snd (count_bytes n s)"
  have c: "unat (counted ?s) = unat (counted s) + unat n"
    using Cons.prems by (simp add: counted_step saturating_add_exact)
  have "unat (counted (count_all ns ?s)) = unat (counted ?s) + sum_list (map unat ns)"
    using Cons.prems c by (intro Cons.IH) (simp_all add: counting_step)
  with c show ?case by simp
qed simp

end

abbreviation tx_rate_ok :: "'f permit \<Rightarrow> bool" where
  "tx_rate_ok p \<equiv>
     \<not> (MaxBytesTxPerMinute (rate_limits (ft_limits p)) > 0 \<and>
        f_to_u64 (pm_fops p) (bytesTransferredAvg1m (pm_device p))
          \<ge> MaxBytesTxPerMinute (rate_limits (ft_limits p)))"

abbreviation rx_rate_ok :: "'f permit \<Rightarrow> bool" where
  "rx_rate_ok p \<equiv>
     \<not> (MaxBytesRxPerMinute (rate_limits (ft_limits p)) > 0 \<and>
        f_to_u64 (pm_fops p) (bytesReceivedAvg1m (pm_device p))
          \<ge> MaxBytesRxPerMinute (rate_limits (ft_limits p)))"

abbreviation permit_on :: "'f permit \<Rightarrow> bool" where
  "permit_on p \<equiv> Enabled (pm_limits p)"

interpretation tx_device: byte_counter
  BytesSent "\<lambda>p. bytesTransferred (pm_device p)" permit_on tx_rate_ok
  by unfold_locales (simp_all add: BytesSent_def Let_def)

interpretation tx_permit: byte_counter
  BytesSent "\<lambda>p. bytesTransferred (pm_counters p)" permit_on tx_rate_ok
  by unfold_locales (simp_all add: BytesSent_def Let_def)

interpretation rx_device: byte_counter
  BytesReceived "\<lambda>p. bytesReceived (pm_device p)" permit_on rx_rate_ok
  by unfold_locales (simp_all add: BytesReceived_def Let_def)

interpretation rx_permit: byte_counter
  BytesReceived "\<lambda>p. bytesReceived (pm_counters p)" permit_on rx_rate_ok
  by unfold_locales (simp_all add: BytesReceived_def Let_def)

text \<open>Each direction leaves the other's counters, the limits and the averages alone.\<close>

lemma BytesSent_frame [frame]:
  "pm_limits (snd (BytesSent n p)) = pm_limits p"
  "pm_fops (snd (BytesSent n p)) = pm_fops p"
  "bytesReceived (pm_device (snd (BytesSent n p))) = bytesReceived (pm_device p)"
  "bytesReceived (pm_counters (snd (BytesSent n p))) = bytesReceived (pm_counters p)"
  "bytesReceivedAvg1m (pm_device (snd (BytesSent n p))) = bytesReceivedAvg1m (pm_device p)"
  "bytesTransferredAvg1m (pm_device (snd (BytesSent n p))) = bytesTransferredAvg1m (pm_device p)"
  by (simp_all add: BytesSent_def Let_def)

lemma BytesReceived_frame [frame]:
  "pm_limits (snd (BytesReceived n p)) = pm_limits p"
  "pm_fops (snd (BytesReceived n p)) = pm_fops p"
  "bytesTransferred (pm_device (snd (BytesReceived n p))) = bytesTransferred (pm_device p)"
  "bytesTransferred (pm_counters (snd (BytesReceived n p))) = bytesTransferred (pm_counters p)"
  "bytesReceivedAvg1m (pm_device (snd (BytesReceived n p))) = bytesReceivedAvg1m (pm_device p)"
  "bytesTransferredAvg1m (pm_device (snd (BytesReceived n p))) = bytesTransferredAvg1m (pm_device p)"
  by (simp_all add: BytesReceived_def Let_def)

section \<open>What the checks decide\<close>

lemma UploadFile_ok_iff:
  "Enabled lim \<Longrightarrow> UploadFile os lim p sz mode = None \<longleftrightarrow>
     (MaxFileSize (lim_ft lim) = 0 \<or>
        (case sz of None \<Rightarrow> True | Some n \<Rightarrow> (word_of_int n :: u64) \<le> MaxFileSize (lim_ft lim))) \<and>
     IsInChroot p (Chroot (lim_ft lim)) \<and>
     (FollowSymLinks (lim_ft lim) \<or> EvalSymlinks os (path_Dir p) = Inr (path_Dir p)) \<and>
     (FileExists os p \<longrightarrow> AllowOverwrite (lim_ft lim) \<and>
        FileOwnerMatches os p (OwnerPut (lim_ft lim)) \<and>
        FileGroupMatches os p (GroupPut (lim_ft lim))) \<and>
     (AllowSuid (lim_ft lim) \<or> (case mode of None \<Rightarrow> True | Some m \<Rightarrow> m AND ModeSetuid = 0))"
  by (auto simp: UploadFile_def Let_def word_gt_0 not_less
        split: if_splits option.splits sum.splits)

lemma DownloadFile_ok_iff:
  "Enabled lim \<Longrightarrow> DownloadFile os lim p = None \<longleftrightarrow>
     (RegularFilesOnly (lim_ft lim) \<longrightarrow> IsRegularFile os p) \<and>
     IsInChroot p (Chroot (lim_ft lim)) \<and>
     (OwnerGet (lim_ft lim) = [] \<or> (\<exists>u \<in> set (OwnerGet (lim_ft lim)). FileOwnerMatches os p u)) \<and>
     (GroupGet (lim_ft lim) = [] \<or> (\<exists>g \<in> set (GroupGet (lim_ft lim)). FileGroupMatches os p g)) \<and>
     (FollowSymLinks (lim_ft lim) \<or> EvalSymlinks os p = Inr p) \<and>
     (MaxFileSize (lim_ft lim) = 0 \<or> FileSize os p \<le> 0 \<or>
        (word_of_int (FileSize os p) :: u64) \<le> MaxFileSize (lim_ft lim))"
  by (auto simp: DownloadFile_def Let_def word_gt_0 not_less list_ex_iff
        split: if_splits option.splits sum.splits)

lemma umask_mode_bits:
  "umask_mode um m = Inr r \<Longrightarrow> um \<noteq> [] \<Longrightarrow>
     \<exists>k. ParseUint um 8 32 = Inr k \<and> r = ModePerm AND NOT (of_nat k)"
  by (auto simp: umask_mode_def split: sum.splits intro!: bit_word_eqI)
     (auto simp: bit_simps)

lemma setuid_perm_disjoint [simp]: "ModePerm AND ModeSetuid = 0"
  by (simp add: ModePerm_def ModeSetuid_def)

section \<open>A sample permit\<close>

text \<open>For the closed examples: averages that are whole numbers, and the zero configuration.\<close>

definition sample_fops :: "nat float_ops" where
  "sample_fops = \<lparr>f_of_u64 = unat, f_to_u64 = of_nat, f_add = (+), f_mul = (*)\<rparr>"

definition sample_permit :: "nat permit" where
  "sample_permit = NewPermit sample_fops (zero_counters sample_fops)
     \<lparr>Enabled = False, lim_ft = zero_FileTransferLimits\<rparr>"

section \<open>Properties of the permit\<close>


text \<open>
  The loop of \<open>updateCounters\<close> over the counter values it meets, with the bytes each turn
  attributes to itself.
\<close>

fun average_run ::
  "'f float_ops \<Rightarrow> 'f \<Rightarrow> 'f \<Rightarrow> 'f averager \<Rightarrow> 'f Counters list \<Rightarrow> u64 list \<times> 'f averager" where
  "average_run f w1 w1' a [] = ([], a)"
| "average_run f w1 w1' a (d # ds) =
     (let (xs, a') = average_run f w1 w1' (fst (updateCounters_tick f w1 w1' a d)) ds
      in ((bytesTransferred d - lastTX a) # xs, a'))"

text \<open>
  The averager loses no byte: while the device counter grows, the bytes its turns
  attribute to themselves add up to the growth of the counter.
\<close>

theorem averages_account:
  assumes "average_run f w1 w1' a ds = (xs, a')" and "sorted (map bytesTransferred ds)"
    and "\<forall>d \<in> set ds. lastTX a \<le> bytesTransferred d"
  shows "unat (lastTX a) + sum_list (map unat xs) = unat (lastTX a')"
  using assms
proof (induction ds arbitrary: a xs)
  case (Cons d ds)
  obtain ys where ys: "average_run f w1 w1' (fst (updateCounters_tick f w1 w1' a d)) ds = (ys, a')"
    "xs = (bytesTransferred d - lastTX a) # ys"
    using Cons.prems(1) by (auto split: prod.splits)
  have l: "lastTX (fst (updateCounters_tick f w1 w1' a d)) = bytesTransferred d"
    by (simp add: updateCounters_tick_def Let_def)
  have le: "lastTX a \<le> bytesTransferred d" using Cons.prems(3) by simp
  have "unat (bytesTransferred d) + sum_list (map unat ys) = unat (lastTX a')"
    using Cons.IH [OF ys(1)] Cons.prems(2) by (simp add: l)
  with le ys(2) show ?case by (simp add: unat_sub word_le_nat_alt)
qed simp

text \<open>
  The configured root directory can be left. On a host without symbolic links the permit
  admits an upload to a path that starts with the root directory and resolves outside it.
\<close>

theorem chroot_escape:
  assumes "\<forall>p. EvalSymlinks os p = Inr p" and "\<not> FileExists os ''/data/../etc/x''"
  shows "UploadFile os \<lparr>Enabled = True, lim_ft = zero_FileTransferLimits\<lparr>Chroot := ''/data''\<rparr>\<rparr>
       ''/data/../etc/x'' None None = None \<and> path_Clean ''/data/../etc/x'' = ''/etc/x''"
proof -
  have "path_Clean ''/data/../etc/x'' = ''/etc/x''" "prefix ''/data'' ''/data/../etc/x''"
    by code_simp+
  with assms show ?thesis
    by (simp add: UploadFile_def IsInChroot_def zero_FileTransferLimits_def)
qed

text \<open>
  Forbidding set-user-ID files does not keep them out. The permit looks for Go's bit in
  the requested mode, while the mode finally set reads the Unix bit: a request with the Unix
  bit and without Go's is judged as if the prohibition were not there, and its file is made
  set-user-ID.
\<close>

theorem suid_bypass:
  assumes "Enabled lim" and "mode AND S_ISUID \<noteq> 0" and "mode AND ModeSetuid = 0"
    and "Umask (lim_ft lim) = []" and "PreserveMode (lim_ft lim)"
    and "healthy fs" and "fs_files fs path = Some x"
  shows "UploadFile os lim p sz (Some mode) =
       UploadFile os (lim\<lparr>lim_ft := (lim_ft lim)\<lparr>AllowSuid := True\<rparr>\<rparr>) p sz (Some mode) \<and>
     (\<exists>m. f_mode (the (fs_files (snd (PreserveModes lim path mode fs)) path)) = m \<and> m AND ModeSetuid \<noteq> 0)"
proof -
  have m: "preserved_mode (lim_ft lim) mode = Inr (mode AND ModePerm OR ModeSetuid)"
    using assms(2,4) by (simp add: preserved_mode_def umask_mode_def)
  have "(mode AND ModePerm OR ModeSetuid) AND ModeSetuid = ModeSetuid"
    by (rule bit_word_eqI) (auto simp: bit_simps)
  moreover have "ModeSetuid \<noteq> 0" by (simp add: ModeSetuid_def)
  moreover have "UploadFile os lim p sz (Some mode) =
      UploadFile os (lim\<lparr>lim_ft := (lim_ft lim)\<lparr>AllowSuid := True\<rparr>\<rparr>) p sz (Some mode)"
    using assms(3) by (cases sz) (simp_all add: UploadFile_def Let_def split del: if_split cong: if_cong option.case_cong)
  ultimately show ?thesis using assms m
    by (simp add: PreserveModes_def fs_Chmod_def fs_modify_def fs_tick_def)
qed

text \<open>
  A configured umask replaces the requested permissions. With a umask that parses, the
  permission bits finally set are those the umask leaves of 0777, for every requested mode.
\<close>

theorem umask_overrides_mode:
  assumes "Umask l \<noteq> []" and "ParseUint (Umask l) 8 32 = Inr k"
  shows "\<exists>m. preserved_mode l mode = Inr m \<and> m AND ModePerm = ModePerm AND NOT (of_nat k)"
proof -
  have x: "ModePerm XOR (ModePerm AND of_nat k) = ModePerm AND NOT (of_nat k)" (is "?u = ?v")
    by (rule bit_word_eqI) (auto simp: bit_simps)
  have "\<not> bit (ModePerm AND ModeSetuid) n" for n by simp
  then have "\<not> (bit ModePerm n \<and> bit ModeSetuid n)" for n unfolding bit_and_iff .
  then have "(?v OR ModeSetuid) AND ModePerm = ?v"
    by (intro bit_word_eqI) (auto simp: bit_simps)
  moreover have "?v AND ModePerm = ?v"
    by (rule bit_word_eqI) (auto simp: bit_simps)
  ultimately show ?thesis
    using assms x by (cases "mode AND S_ISUID = 0") (simp_all add: preserved_mode_def umask_mode_def)
qed

section \<open>The properties at concrete inputs\<close>

lemma parse_022: "ParseUint ''022'' 8 32 = Inr 18"
  by (simp add: ParseUint_def digit_val_def)


theorem averages_account_witness:
  "\<exists>xs a'. average_run sample_fops 1 0 \<lparr>lastRX = 0, lastTX = 0, avgRX = 0, avgTX = 0\<rparr>
      [zero_counters sample_fops, (zero_counters sample_fops)\<lparr>bytesTransferred := 9\<rparr>] = (xs, a') \<and>
     sum_list (map unat xs) = unat (lastTX a')"
proof -
  obtain xs a' where r: "average_run sample_fops 1 0 \<lparr>lastRX = 0, lastTX = 0, avgRX = 0, avgTX = 0\<rparr>
      [zero_counters sample_fops, (zero_counters sample_fops)\<lparr>bytesTransferred := 9\<rparr>] = (xs, a')"
    by (rule prod.exhaust)
  from averages_account [OF r] r show ?thesis by (simp add: zero_counters_def)
qed

theorem chroot_escape_witness:
  "UploadFile (sample_os\<lparr>os_Stat := (\<lambda>p. Inl ENOENT)\<rparr>)
     \<lparr>Enabled = True, lim_ft = zero_FileTransferLimits\<lparr>Chroot := ''/data''\<rparr>\<rparr>
     ''/data/../etc/x'' None None = None"
  using chroot_escape [of "sample_os\<lparr>os_Stat := (\<lambda>p. Inl ENOENT)\<rparr>"]
  by (simp add: sample_os_def FileExists_def)

theorem suid_bypass_witness:
  "\<exists>m. f_mode (the (fs_files (snd (PreserveModes
       \<lparr>Enabled = True, lim_ft = zero_FileTransferLimits\<lparr>PreserveMode := True\<rparr>\<rparr> ''/f'' 0x9ED
       (sample_fs\<lparr>fs_files := [''/f'' \<mapsto> \<lparr>f_content = [], f_mode = 0, f_uid = 0, f_gid = 0\<rparr>]\<rparr>))) ''/f'')) = m \<and>
     m AND ModeSetuid \<noteq> 0"
  by (rule suid_bypass [of "\<lparr>Enabled = True, lim_ft = zero_FileTransferLimits\<lparr>PreserveMode := True\<rparr>\<rparr>",
        THEN conjunct2])
     (simp_all add: S_ISUID_def ModeSetuid_def zero_FileTransferLimits_def, simp_all add: sample_fs_def healthy_def)

theorem umask_overrides_mode_witness:
  "\<exists>m. preserved_mode (zero_FileTransferLimits\<lparr>Umask := ''022''\<rparr>) 0x1FF = Inr m \<and>
     m AND ModePerm = ModePerm AND NOT 18"
  using umask_overrides_mode [of "zero_FileTransferLimits\<lparr>Umask := ''022''\<rparr>" 18] parse_022 by simp


end
