(* ===== verification/FtCommon.thy ===== *)
theory FtCommon
  imports Limits
begin

text \<open>
  What the two directions of file transfer share (\<open>session/filetransfer.go\<close>): the state of
  a handler and the resources it works on, the error reply, and the channel through which
  \<open>ServeProtoMsg\<close> hands messages to the asynchronous handler.
\<close>

section \<open>State\<close>

definition ACKSlidingWindowSend :: nat where "ACKSlidingWindowSend = 10"
definition ACKSlidingWindowRecv :: int where "ACKSlidingWindowRecv = 20"
definition FileTransferBufSize :: nat where "FileTransferBufSize = 4096"

text \<open>
  \<open>ft_busy\<close> is the handler's \<open>mutex\<close>, a channel of capacity one: true while a token is in
  it. \<open>ft_suffix\<close> is the package variable \<open>atomicSuffix\<close>.
\<close>

record 'f ft_state =
  ft_wire :: wire
  ft_fs :: fsys
  ft_permit :: "'f permit"
  ft_suffix :: u32
  ft_busy :: bool

definition send :: "ProtoMsg \<Rightarrow> 'f ft_state \<Rightarrow> gerror option \<times> 'f ft_state" where
  "send m s = (let (r, w) = WriteProtoMsg m (ft_wire s) in (r, s\<lparr>ft_wire := w\<rparr>))"

text \<open>\<open>FileTransferHandler.Error\<close>: the request's header with the message type replaced, and a
  body naming the error and the type of the request.\<close>

definition ft_error_msg :: "codec \<Rightarrow> ProtoMsg \<Rightarrow> gerror \<Rightarrow> ProtoMsg" where
  "ft_error_msg cd msg e =
     msg\<lparr>Header := (Header msg)\<lparr>MsgType := MessageTypeError\<rparr>,
         Body := mar_ft_Error cd \<lparr>fte_Error = Some (err_msg e),
                                  fte_MessageType = Some (MsgType (Header msg))\<rparr>\<rparr>"

definition ft_reply_error :: "codec \<Rightarrow> ProtoMsg \<Rightarrow> gerror \<Rightarrow> 'f ft_state \<Rightarrow> 'f ft_state" where
  "ft_reply_error cd msg e s = snd (send (ft_error_msg cd msg e) s)"

definition ack_of :: "ProtoHdr \<Rightarrow> ProtoMsg" where
  "ack_of h = \<lparr>Header = h\<lparr>MsgType := MessageTypeACK\<rparr>, Body = []\<rparr>"

section \<open>The message channel\<close>

text \<open>
  \<open>msgChan\<close> seen by its reader: the messages handed over, with \<open>Idle\<close> for every moment at
  which a non-blocking receive finds nobody sending. The end of the list is the closing of
  the channel by \<open>Close\<close>. Any schedule of sender and reader is such a list.
\<close>

datatype chan_ev = Recv ProtoMsg | Idle

fun chan_msgs :: "chan_ev list \<Rightarrow> ProtoMsg list" where
  "chan_msgs [] = []"
| "chan_msgs (Recv m # es) = m # chan_msgs es"
| "chan_msgs (Idle # es) = chan_msgs es"

text \<open>A blocking receive: \<open>None\<close> is a closed channel.\<close>

fun chan_recv :: "chan_ev list \<Rightarrow> (ProtoMsg \<times> chan_ev list) option" where
  "chan_recv [] = None"
| "chan_recv (Recv m # es) = Some (m, es)"
| "chan_recv (Idle # es) = chan_recv es"

text \<open>A \<open>select\<close> with a default.\<close>

datatype poll = PClosed | PNothing "chan_ev list" | PMsg ProtoMsg "chan_ev list"

fun chan_poll :: "chan_ev list \<Rightarrow> poll" where
  "chan_poll [] = PClosed"
| "chan_poll (Recv m # es) = PMsg m es"
| "chan_poll (Idle # es) = PNothing es"

lemma chan_recv_length: "chan_recv es = Some (m, es') \<Longrightarrow> length es' < length es"
  by (induction es rule: chan_recv.induct) auto

lemma chan_recv_msgs: "chan_recv es = Some (m, es') \<Longrightarrow> chan_msgs es = m # chan_msgs es'"
  by (induction es rule: chan_recv.induct) auto

lemma chan_recv_None: "chan_recv es = None \<longleftrightarrow> chan_msgs es = []"
  by (induction es rule: chan_recv.induct) auto

lemma chan_poll_msgs:
  "chan_poll es = PMsg m es' \<Longrightarrow> chan_msgs es = m # chan_msgs es'"
  "chan_poll es = PNothing es' \<Longrightarrow> chan_msgs es = chan_msgs es'"
  by (cases es rule: chan_poll.cases; simp)+

lemma chan_poll_length:
  "chan_poll es = PMsg m es' \<Longrightarrow> length es' < length es"
  "chan_poll es = PNothing es' \<Longrightarrow> length es' < length es"
  by (cases es rule: chan_poll.cases; simp)+

section \<open>Chunks\<close>

definition bodies :: "ProtoMsg list \<Rightarrow> bytes" where
  "bodies ms = concat (map Body ms)"

lemma bodies_simps [simp]:
  "bodies [] = []" "bodies (m # ms) = Body m @ bodies ms" "bodies (xs @ ys) = bodies xs @ bodies ys"
  by (simp_all add: bodies_def)

text \<open>Chunk messages whose offsets follow each other from \<open>offset\<close> on.\<close>

fun chunks_from :: "int \<Rightarrow> ProtoMsg list \<Rightarrow> bool" where
  "chunks_from offset [] = True"
| "chunks_from offset (m # ms) =
     (MsgType (Header m) = MessageTypeChunk \<and>
      prop_int64 (Properties (Header m)) ''offset'' = Some offset \<and>
      chunks_from (offset + int (length (Body m))) ms)"

lemma chunks_from_append [simp]:
  "chunks_from offset (xs @ ys) \<longleftrightarrow>
     chunks_from offset xs \<and> chunks_from (offset + int (length (bodies xs))) ys"
  by (induction xs arbitrary: offset) (auto simp: algebra_simps)

section \<open>Frames\<close>

lemma send_frame [frame]:
  "ft_fs (snd (send m s)) = ft_fs s"
  "ft_permit (snd (send m s)) = ft_permit s"
  "ft_suffix (snd (send m s)) = ft_suffix s"
  "ft_busy (snd (send m s)) = ft_busy s"
  by (simp_all add: send_def split: prod.splits)

lemma ft_reply_error_frame [frame]:
  "ft_fs (ft_reply_error cd m e s) = ft_fs s"
  "ft_permit (ft_reply_error cd m e s) = ft_permit s"
  "ft_suffix (ft_reply_error cd m e s) = ft_suffix s"
  "ft_busy (ft_reply_error cd m e s) = ft_busy s"
  by (simp_all add: ft_reply_error_def frame)

abbreviation ft_out :: "'f ft_state \<Rightarrow> ProtoMsg list" where
  "ft_out s \<equiv> wire_out (ft_wire s)"

text \<open>A handler writes through \<open>send\<close>, which therefore keeps the writer's contract.\<close>

interpretation ftw: response_writer send ft_out
proof (unfold_locales)
  fix m :: ProtoMsg and w w' :: "'f ft_state" and e
  show "send m w = (None, w') \<Longrightarrow> ft_out w' = ft_out w @ [m]"
    by (auto simp: send_def split: prod.splits dest: conn.wr_ok)
  show "send m w = (Some e, w') \<Longrightarrow> ft_out w' = ft_out w"
    by (auto simp: send_def split: prod.splits dest: conn.wr_fail)
qed

lemma send_reliable:
  "reliable (ft_wire s) \<Longrightarrow> fst (send m s) = None \<and> ft_out (snd (send m s)) = ft_out s @ [m] \<and>
     reliable (ft_wire (snd (send m s)))"
  by (simp add: send_def)

lemma send_wire_reliable [simp]: "reliable (ft_wire (snd (send m s))) = reliable (ft_wire s)"
  by (simp add: send_def split: prod.splits) (metis reliable_write snd_conv)

lemma ft_reply_error_out:
  "reliable (ft_wire s) \<Longrightarrow> ft_out (ft_reply_error cd msg e s) = ft_out s @ [ft_error_msg cd msg e]"
  by (simp add: ft_reply_error_def send_reliable)

lemma ft_error_msg_type [simp]: "MsgType (Header (ft_error_msg cd m e)) = MessageTypeError"
  by (simp add: ft_error_msg_def)

lemma ack_of_sel [simp]:
  "MsgType (Header (ack_of h)) = MessageTypeACK" "Proto (Header (ack_of h)) = Proto h"
  "SessionID (Header (ack_of h)) = SessionID h" "Properties (Header (ack_of h)) = Properties h"
  by (simp_all add: ack_of_def)

section \<open>A sample handler\<close>

definition sample_ft :: "nat ft_state" where
  "sample_ft = \<lparr>ft_wire = good_wire, ft_fs = sample_fs, ft_permit = sample_permit,
     ft_suffix = 0, ft_busy = True\<rparr>"

definition chunk_msg :: "ProtoType \<Rightarrow> int \<Rightarrow> bytes \<Rightarrow> ProtoMsg" where
  "chunk_msg p offset b = mk_msg p MessageTypeChunk ''s1'' (Some [''offset'' \<mapsto> int64_val offset]) b"

end
