(* ===== verification/FtUpload.thy ===== *)
theory FtUpload
  imports FtCommon
begin

text \<open>
  Uploading a file to the device: the asynchronous \<open>FileUploadHandler\<close> of
  \<open>session/filetransfer.go\<close> with \<open>createWrOnlyTempFile\<close>, \<open>writeFile\<close> and \<open>dstWrite\<close>. The
  file is written under a temporary name and renamed when it is complete; the lemmas show
  that the destination never holds anything but its old or the whole new contents.
\<close>

section \<open>Writing chunks\<close>

definition dstWrite ::
  "string \<Rightarrow> bytes \<Rightarrow> int \<Rightarrow> 'f ft_state \<Rightarrow> (nat \<times> gerror option) \<times> 'f ft_state" where
  "dstWrite dst body offset s =
     (let ((n, err), fs) = fs_Write dst body (ft_fs s);
          offset = offset + int n;
          (belowLimit, p) = BytesReceived (of_nat n) (ft_permit s);
          s = s\<lparr>ft_fs := fs, ft_permit := p\<rparr>
      in if \<not> belowLimit \<or> \<not> BelowMaxAllowedFileSize (pm_limits p) offset
         then ((n, Some (Sentinel ErrTxBytesLimitExhausted)), s)
         else ((n, err), s))"

text \<open>The closure \<open>writeChunk\<close>: its error is \<open>io.EOF\<close> for an empty chunk.\<close>

datatype chunk_result = ChunkOk | ChunkEOF | ChunkErr gerror

definition writeChunk ::
  "string \<Rightarrow> ProtoMsg \<Rightarrow> int \<Rightarrow> 'f ft_state \<Rightarrow> chunk_result \<times> int \<times> 'f ft_state" where
  "writeChunk dst msg offset s =
     (if MsgType (Header msg) \<noteq> MessageTypeChunk then
        if MsgType (Header msg) = MessageTypeError
        then (ChunkErr (Sentinel ErrFileTransferAbort), offset, s)
        else (ChunkErr (ErrText (''received unexpected message type '' @ apos
                 @ MsgType (Header msg) @ apos @ '' during file upload'')), offset, s)
      else case prop_int64 (Properties (Header msg)) ''offset'' of
        None \<Rightarrow> (ChunkErr (ErrText ''invalid file chunk message: missing offset property''), offset, s)
      | Some chunkOffset \<Rightarrow>
          if chunkOffset \<noteq> offset
          then (ChunkErr (ErrText ''received unexpected chunk offset''), offset, s)
          else if Body msg \<noteq> [] then
            (case dstWrite dst (Body msg) offset s of
               ((n, Some e), s) \<Rightarrow>
                 (ChunkErr (Wrapped ''failed to write file chunk'' e), offset + int n, s)
             | ((n, None), s) \<Rightarrow> (ChunkOk, offset + int n, s))
          else (ChunkEOF, offset, s))"

text \<open>
  \<open>InnerLoop\<close>: up to \<open>k\<close> more chunks are taken without waiting before the next
  acknowledgement. The result is the last message received and whether an end of file was
  seen, or the error that ends the upload.
\<close>

fun ack_batch ::
  "string \<Rightarrow> nat \<Rightarrow> ProtoMsg \<Rightarrow> bool \<Rightarrow> int \<Rightarrow> chan_ev list \<Rightarrow> 'f ft_state \<Rightarrow>
     (gerror + ProtoMsg \<times> bool) \<times> int \<times> chan_ev list \<times> 'f ft_state" where
  "ack_batch dst 0 msg eof offset evs s = (Inr (msg, eof), offset, evs, s)"
| "ack_batch dst (Suc k) msg eof offset evs s =
     (case chan_poll evs of
        PNothing r \<Rightarrow> (Inr (msg, eof), offset, r, s)
      | PClosed \<Rightarrow> (Inl (Sentinel ErrFileTransferAbort), offset, evs, s)
      | PMsg m r \<Rightarrow>
          (case writeChunk dst m offset s of
             (ChunkErr e, offset, s) \<Rightarrow> (Inl e, offset, r, s)
           | (ChunkEOF, offset, s) \<Rightarrow> ack_batch dst k m True offset r s
           | (ChunkOk, offset, s) \<Rightarrow> ack_batch dst k m eof offset r s))"

lemma ack_batch_rest:
  "ack_batch dst k msg eof offset evs s = (res, offset', r, s') \<Longrightarrow> length r \<le> length evs"
proof (induction k arbitrary: msg eof offset evs s)
  case (Suc k)
  from Suc.prems show ?case
    by (auto split: poll.splits chunk_result.splits prod.splits dest!: chan_poll_length Suc.IH)
qed simp

function writeFile ::
  "string \<Rightarrow> int \<Rightarrow> chan_ev list \<Rightarrow> 'f ft_state \<Rightarrow> gerror option \<times> int \<times> chan_ev list \<times> 'f ft_state"
where
  "writeFile dst offset evs s =
     (case chan_recv evs of
        None \<Rightarrow> (Some (Sentinel ErrFileTransferAbort), offset, [], s)
      | Some (msg, r) \<Rightarrow>
          (case writeChunk dst msg offset s of
             (ChunkErr e, offset, s) \<Rightarrow> (Some e, offset, r, s)
           | (res, offset, s) \<Rightarrow>
               if Proto (Header msg) = ProtoTypeFileTransferV2
               then if res = ChunkEOF then (None, offset, r, s) else writeFile dst offset r s
               else (case ack_batch dst (ACKSlidingWindowSend - 1) msg (res = ChunkEOF) offset r s of
                   (Inl e, offset, r, s) \<Rightarrow> (Some e, offset, r, s)
                 | (Inr (msg, eof), offset, r, s) \<Rightarrow>
                     (case send (ack_of (Header msg)) s of
                        (Some _, s) \<Rightarrow> (Some (Sentinel ErrFileTransferAbort), offset, r, s)
                      | (None, s) \<Rightarrow>
                          if eof then (None, offset, r, s) else writeFile dst offset r s))))"
  by pat_completeness auto
termination
  by (relation "measure (\<lambda>(dst, offset, evs, s). length evs)")
     (auto dest!: chan_recv_length ack_batch_rest [OF sym])

declare writeFile.simps [simp del]

section \<open>The temporary file\<close>

definition tmp_name :: "string \<Rightarrow> u32 \<Rightarrow> nat \<Rightarrow> string" where
  "tmp_name path sfx i = path @ ''.'' @ hex_pad 8 (unat sfx) @ hex_pad 2 i"

text \<open>The loop of \<open>createWrOnlyTempFile\<close>, with \<open>k\<close> attempts left and the last error.\<close>

fun create_tmp ::
  "nat \<Rightarrow> gerror \<Rightarrow> nat \<Rightarrow> string \<Rightarrow> 'f ft_state \<Rightarrow> (gerror + string) \<times> 'f ft_state" where
  "create_tmp 0 err i path s = (Inl (Wrapped ''failed to create file'' err), s)"
| "create_tmp (Suc k) err i path s =
     (let sfx = ft_suffix s + 1;
          filename = tmp_name path sfx i;
          (r, fs) = fs_OpenExcl filename 0x80 (ft_fs s);
          s = s\<lparr>ft_suffix := sfx, ft_fs := fs\<rparr>
      in case r of
           None \<Rightarrow> (Inr filename, s)
         | Some e \<Rightarrow> if is_exist e then create_tmp k e (Suc i) path s
                      else (Inl (Wrapped ''failed to create file'' e), s))"

definition createWrOnlyTempFile :: "string \<Rightarrow> 'f ft_state \<Rightarrow> (gerror + string) \<times> 'f ft_state" where
  "createWrOnlyTempFile path s = create_tmp 100 EEXIST 0 path s"

section \<open>The handler\<close>

text \<open>\<open>os.FileMode.String\<close>, used in one error message.\<close>

definition mode_String :: "u32 \<Rightarrow> string" where
  "mode_String m =
     (let kind = map snd (filter (\<lambda>(i, c). bit m (31 - i))
                   (enumerate 0 ''dalTLDpSugct?''));
          perm = map (\<lambda>(i, c). if bit m (8 - i) then c else CHR ''-'') (enumerate 0 ''rwxrwxrwx'')
      in (if kind = [] then ''-'' else kind) @ perm)"

text \<open>How the handler's goroutine ends. An unrecovered panic ends the process.\<close>

datatype up_end = UpOk | UpErr gerror | UpPanic

text \<open>The deferred function: \<open>fd\<close> and \<open>closeFd\<close> are the variables it reads.\<close>

definition upload_cleanup ::
  "codec \<Rightarrow> ProtoMsg \<Rightarrow> string option \<Rightarrow> bool \<Rightarrow> gerror option \<Rightarrow> 'f ft_state \<Rightarrow> 'f ft_state" where
  "upload_cleanup cd msg fd closeFd err s =
     (let s = (case fd of
                 None \<Rightarrow> s
               | Some name \<Rightarrow>
                   let s = (if closeFd then s\<lparr>ft_fs := snd (fs_Close name (ft_fs s))\<rparr> else s)
                   in s\<lparr>ft_fs := snd (fs_Remove name (ft_fs s))\<rparr>);
          s = (case err of
                 None \<Rightarrow> s
               | Some e \<Rightarrow>
                   if err_cause e \<noteq> Sentinel ErrFileTransferAbort
                   then ft_reply_error cd msg e s else s)
      in s\<lparr>ft_busy := False\<rparr>)"

text \<open>An operation of the file system lifted to the handler's state.\<close>

definition on_fs ::
  "(fsys \<Rightarrow> gerror option \<times> fsys) \<Rightarrow> 'f ft_state \<Rightarrow> gerror option \<times> 'f ft_state" where
  "on_fs f s = (let (r, fs) = f (ft_fs s) in (r, s\<lparr>ft_fs := fs\<rparr>))"

text \<open>
  From the permissions to the last acknowledgement. The result carries the values of \<open>fd\<close>
  and \<open>closeFd\<close> for the deferred function.
\<close>

definition upload_commit ::
  "os_env \<Rightarrow> ProtoMsg \<Rightarrow> UploadRequest \<Rightarrow> string \<Rightarrow> string \<Rightarrow> 'f ft_state \<Rightarrow>
     up_end \<times> string option \<times> bool \<times> 'f ft_state" where
  "upload_commit os msg params path name s =
     (case ur_Mode params of
        None \<Rightarrow> (UpPanic, Some name, True, s)
      | Some mode \<Rightarrow> (case on_fs (fs_Chmod name (mode AND ModePerm)) s of
        (Some e, s) \<Rightarrow> (UpErr (Wrapped ''failed to set file permissions'' e), Some name, True, s)
      | (None, s) \<Rightarrow> (case (ur_UID params, ur_GID params) of
        (Some uid, Some gid) \<Rightarrow>
          (case on_fs (fs_Chown name (uint uid) (uint gid)) s of
             (Some e, s) \<Rightarrow> (UpErr (Wrapped ''failed to set file owner'' e), Some name, True, s)
           | (None, s) \<Rightarrow>
          (case on_fs (fs_Rename name path) (snd (on_fs (fs_Close name) s)) of
             (Some e, s) \<Rightarrow>
               (UpErr (Wrapped ''failed to commit uploaded file'' e), Some name, False, s)
           | (None, s) \<Rightarrow>
          (case on_fs (PreserveOwnerGroup os (pm_limits (ft_permit s)) path (uint uid) (uint gid)) s of
             (Some e, s) \<Rightarrow>
               (UpErr (Wrapped (''failed to preserve file owner/group ''
                  @ itoa (uint uid) @ ''/'' @ itoa (uint gid)) e), Some name, False, s)
           | (None, s) \<Rightarrow>
          (case on_fs (PreserveModes (pm_limits (ft_permit s)) path mode) s of
             (Some e, s) \<Rightarrow>
               (UpErr (Wrapped (''failed to preserve file mode ('' @ mode_String mode @ '')'') e),
                Some name, False, s)
           | (None, s) \<Rightarrow>
               if Proto (Header msg) = ProtoTypeFileTransferV2
               then (case send (ack_of (Header msg)) s of
                   (Some e, s) \<Rightarrow> (UpErr e, Some name, False, s)
                 | (None, s) \<Rightarrow> (UpOk, None, False, s))
               else (UpOk, None, False, s)))))
      | _ \<Rightarrow> (UpPanic, Some name, True, s))))"

definition first_ack :: "ProtoMsg \<Rightarrow> ProtoMsg" where
  "first_ack msg = mk_msg (Proto (Header msg)) MessageTypeACK (SessionID (Header msg))
     (Some [''offset'' \<mapsto> int64_val 0]) []"

definition end_error :: "up_end \<Rightarrow> gerror option" where
  "end_error u = (case u of UpErr e \<Rightarrow> Some e | _ \<Rightarrow> None)"

definition FileUploadHandler ::
  "codec \<Rightarrow> os_env \<Rightarrow> ProtoMsg \<Rightarrow> UploadRequest \<Rightarrow> chan_ev list \<Rightarrow> 'f ft_state \<Rightarrow>
     up_end \<times> 'f ft_state" where
  "FileUploadHandler cd os msg params evs s =
     (case ur_Path params of
        None \<Rightarrow> (UpPanic, upload_cleanup cd msg None False None s)
      | Some path \<Rightarrow> (case createWrOnlyTempFile path s of
        (Inl e, s) \<Rightarrow>
          (UpErr e, upload_cleanup cd msg None False (Some e)
             (ft_reply_error cd msg (Wrapped ''failed to create target file'' e) s))
      | (Inr name, s) \<Rightarrow>
          (case (if Proto (Header msg) = ProtoTypeFileTransfer then send (first_ack msg) s
                 else (None, s)) of
             (Some _, s) \<Rightarrow>
               (UpErr (Sentinel ErrFileTransferAbort),
                upload_cleanup cd msg (Some name) True (Some (Sentinel ErrFileTransferAbort)) s)
           | (None, s) \<Rightarrow>
          (case writeFile name 0 evs s of
             (Some e, _, _, s) \<Rightarrow> (UpErr e, upload_cleanup cd msg (Some name) True (Some e) s)
           | (None, _, _, s) \<Rightarrow>
               (case upload_commit os msg params path name s of
                  (u, fd, closeFd, s) \<Rightarrow> (u, upload_cleanup cd msg fd closeFd (end_error u) s))))))"

section \<open>What a run of writeFile takes in\<close>

definition content :: "string \<Rightarrow> 'f ft_state \<Rightarrow> bytes option" where
  "content p s = map_option f_content (fs_files (ft_fs s) p)"

text \<open>What is counted for a list of chunks: one call for each that is not empty.\<close>

definition counted_sizes :: "ProtoMsg list \<Rightarrow> u64 list" where
  "counted_sizes ms = map (\<lambda>m. of_nat (length (Body m))) (filter (\<lambda>m. Body m \<noteq> []) ms)"

lemma counted_sizes_append [simp]: "counted_sizes (xs @ ys) = counted_sizes xs @ counted_sizes ys"
  by (simp add: counted_sizes_def)

text \<open>The messages \<open>ms\<close> have been taken in completely: the file has grown by their bodies,
  the offset by their length, and the permit has counted them.\<close>

definition took ::
  "string \<Rightarrow> ProtoMsg list \<Rightarrow> int \<Rightarrow> 'f ft_state \<Rightarrow> int \<Rightarrow> 'f ft_state \<Rightarrow> bool" where
  "took dst ms offset s offset' s' \<longleftrightarrow>
     chunks_from offset ms \<and> offset' = offset + int (length (bodies ms)) \<and>
     content dst s' = map_option (\<lambda>b. b @ bodies ms) (content dst s) \<and>
     ft_permit s' = rx_device.count_all (counted_sizes ms) (ft_permit s)"

lemma took_Nil [simp]: "took dst [] offset s offset s"
  by (simp add: took_def counted_sizes_def option.map_ident)

lemma took_append:
  "took dst xs o1 s1 o2 s2 \<Longrightarrow> took dst ys o2 s2 o3 s3 \<Longrightarrow> took dst (xs @ ys) o1 s1 o3 s3"
  by (auto simp: took_def rx_device.count_all_append option.map_comp comp_def)

lemma took_cong_wire: "took dst ms o1 s1 o2 s2 \<Longrightarrow> ft_fs s3 = ft_fs s2 \<Longrightarrow>
  ft_permit s3 = ft_permit s2 \<Longrightarrow> took dst ms o1 s1 o2 s3"
  by (simp add: took_def content_def)

text \<open>Whatever happens, only the file being written is touched.\<close>

definition only_file :: "string \<Rightarrow> 'f ft_state \<Rightarrow> 'f ft_state \<Rightarrow> bool" where
  "only_file dst s s' \<longleftrightarrow>
     (\<forall>q. q \<noteq> dst \<longrightarrow> fs_files (ft_fs s') q = fs_files (ft_fs s) q) \<and>
     (fs_files (ft_fs s') dst = None \<longleftrightarrow> fs_files (ft_fs s) dst = None) \<and>
     fs_fault (ft_fs s') = fs_fault (ft_fs s) \<and>
     ft_busy s' = ft_busy s \<and> ft_suffix s' = ft_suffix s \<and>
     pm_limits (ft_permit s') = pm_limits (ft_permit s) \<and>
     wire_fault (ft_wire s') = wire_fault (ft_wire s)"

lemma only_file_refl [simp]: "only_file dst s s"
  by (simp add: only_file_def)

lemma only_file_trans: "only_file dst s1 s2 \<Longrightarrow> only_file dst s2 s3 \<Longrightarrow> only_file dst s1 s3"
  by (auto simp: only_file_def)

lemma only_file_send: "only_file dst s (snd (send m s))"
  by (simp add: only_file_def frame send_def WriteProtoMsg_def split: prod.splits option.splits)

lemma fs_Write_done:
  "fs_Write p b s = ((n, None), s') \<Longrightarrow> n = length b \<and>
     (\<exists>x. fs_files s p = Some x \<and> fs_files s' = (fs_files s)(p \<mapsto> x\<lparr>f_content := f_content x @ b\<rparr>))"
  by (auto simp: fs_Write_def fs_tick_def split: option.splits)

lemma fs_Write_dom: "(fs_files (snd (fs_Write p b s)) p = None) = (fs_files s p = None)"
  by (auto simp: fs_Write_def fs_tick_def split: option.splits prod.splits)

lemma dstWrite_only: "dstWrite dst b offset s = (r, s') \<Longrightarrow> only_file dst s s' \<and> ft_wire s' = ft_wire s"
  using fs_Write_frame [of _ dst b "ft_fs s"] fs_Write_dom [of dst b "ft_fs s"]
    fs_fault_frame(2) [of dst b "ft_fs s"] BytesReceived_frame(1) [of _ "ft_permit s"]
  by (auto simp: dstWrite_def only_file_def Let_def split: prod.splits if_splits)
     (metis snd_conv)+

lemma dstWrite_done:
  "dstWrite dst b offset s = ((n, None), s') \<Longrightarrow> n = length b \<and>
     content dst s' = map_option (\<lambda>c. c @ b) (content dst s) \<and>
     ft_permit s' = snd (BytesReceived (of_nat (length b)) (ft_permit s))"
  by (auto simp: dstWrite_def content_def Let_def split: prod.splits if_splits dest!: fs_Write_done)

lemma writeChunk_only:
  "writeChunk dst m offset s = (res, offset', s') \<Longrightarrow> only_file dst s s' \<and> ft_wire s' = ft_wire s"
  by (auto simp: writeChunk_def split: if_splits option.splits prod.splits dest: dstWrite_only)

lemma writeChunk_took:
  assumes "writeChunk dst m offset s = (res, offset', s')" and "\<forall>e. res \<noteq> ChunkErr e"
  shows "took dst [m] offset s offset' s' \<and> (res = ChunkEOF \<longleftrightarrow> Body m = [])"
  using assms
  by (auto simp: writeChunk_def took_def counted_sizes_def option.map_ident
        split: if_splits option.splits prod.splits dest: dstWrite_done)

lemma ack_batch_only:
  "ack_batch dst k msg eof offset evs s = (res, offset', r, s') \<Longrightarrow>
   only_file dst s s' \<and> ft_wire s' = ft_wire s"
proof (induction k arbitrary: msg eof offset evs s)
  case (Suc k)
  show ?case
  proof (cases "chan_poll evs")
    case (PMsg m r1)
    obtain cr o1 s1 where w: "writeChunk dst m offset s = (cr, o1, s1)"
      by (cases "writeChunk dst m offset s") auto
    note w1 = writeChunk_only [OF w]
    show ?thesis
      using Suc.prems PMsg w w1
      by (cases cr) (auto dest!: Suc.IH intro: only_file_trans)
  qed (use Suc.prems in auto)
qed simp

lemma ack_batch_took:
  "ack_batch dst k msg eof offset evs s = (Inr (msg', eof'), offset', r, s') \<Longrightarrow>
   \<exists>ms. chan_msgs evs = ms @ chan_msgs r \<and> length ms \<le> k \<and> took dst ms offset s offset' s' \<and>
        (eof' \<longleftrightarrow> eof \<or> (\<exists>m \<in> set ms. Body m = [])) \<and> msg' = last (msg # ms)"
proof (induction k arbitrary: msg eof offset evs s)
  case 0
  then show ?case by (intro exI [of _ "[]"]) auto
next
  case (Suc k)
  show ?case
  proof (cases "chan_poll evs")
    case (PNothing r1)
    with Suc.prems show ?thesis
      by (intro exI [of _ "[]"]) (auto dest: chan_poll_msgs)
  next
    case (PMsg m r1)
    obtain cr o1 s1 where w: "writeChunk dst m offset s = (cr, o1, s1)"
      by (cases "writeChunk dst m offset s") auto
    have ne: "\<forall>e. cr \<noteq> ChunkErr e" using Suc.prems PMsg w by auto
    note t1 = writeChunk_took [OF w ne]
    have "ack_batch dst k m (eof \<or> cr = ChunkEOF) o1 r1 s1 = (Inr (msg', eof'), offset', r, s')"
      using Suc.prems PMsg w ne by (cases cr) auto
    from Suc.IH [OF this] obtain ms where
      ms: "chan_msgs r1 = ms @ chan_msgs r" "length ms \<le> k" "took dst ms o1 s1 offset' s'"
      "eof' \<longleftrightarrow> (eof \<or> cr = ChunkEOF) \<or> (\<exists>m \<in> set ms. Body m = [])" "msg' = last (m # ms)"
      by blast
    with t1 PMsg show ?thesis
      by (intro exI [of _ "m # ms"])
         (auto dest: chan_poll_msgs took_append [of dst "[m]" offset s o1 s1 ms])
  qed (use Suc.prems in auto)
qed

section \<open>writeFile as a whole\<close>

abbreviation is_ack :: "ProtoMsg \<Rightarrow> bool" where
  "is_ack m \<equiv> MsgType (Header m) = MessageTypeACK"

lemma writeFile_only:
  "writeFile dst offset evs s = (res, offset', r, s') \<Longrightarrow>
   only_file dst s s' \<and> ftw.extends_by is_ack s s'"
proof (induction evs arbitrary: offset s rule: measure_induct_rule [where f = length])
  case (less evs)
  note step = less.prems [unfolded writeFile.simps [of dst offset evs s]]
  show ?case
  proof (cases "chan_recv evs")
    case (Some mr)
    obtain msg r1 where mr: "mr = (msg, r1)" by (cases mr)
    note r1 = chan_recv_length [OF Some [unfolded mr]]
    obtain cr o1 s1 where w: "writeChunk dst msg offset s = (cr, o1, s1)"
      by (cases "writeChunk dst msg offset s") auto
    note w1 = writeChunk_only [OF w]
    then have x1: "ftw.extends_by is_ack s s1" by (simp add: ftw.extends_by_def)
    obtain br o2 r2 s2 where b:
      "ack_batch dst (ACKSlidingWindowSend - 1) msg (cr = ChunkEOF) o1 r1 s1 = (br, o2, r2, s2)"
      by (metis prod_cases4)
    note b1 = ack_batch_only [OF b] and b2 = ack_batch_rest [OF b]
    from b1 w1 have o2: "only_file dst s s2" by (auto intro: only_file_trans)
    from b1 x1 have x2: "ftw.extends_by is_ack s s2" by (simp add: ftw.extends_by_def)
    let ?m = "fst (projr br)"
    have o3: "only_file dst s (snd (send (ack_of (Header ?m)) s2))"
      using o2 only_file_send by (rule only_file_trans)
    have x3: "ftw.extends_by is_ack s (snd (send (ack_of (Header ?m)) s2))"
      using x2 by (rule ftw.extends_by_trans) (simp add: ftw.extends_by_wr)
    have IH1: "only_file dst s s' \<and> ftw.extends_by is_ack s s'"
      if "writeFile dst o1 r1 s1 = (res, offset', r, s')"
      using less.IH [OF r1 that] w1 x1 by (auto intro: only_file_trans ftw.extends_by_trans)
    have IH3: "only_file dst s s' \<and> ftw.extends_by is_ack s s'"
      if "writeFile dst o2 r2 (snd (send (ack_of (Header ?m)) s2)) = (res, offset', r, s')"
      using less.IH [OF _ that] r1 b2 o3 x3 by (auto intro: only_file_trans ftw.extends_by_trans)
    show ?thesis
      using step Some mr w b o2 x2 o3 x3 w1 x1 IH1 IH3
      by (cases cr; cases br) (auto split: if_splits prod.splits option.splits)
  qed (use step in auto)
qed

lemma writeFile_took:
  "writeFile dst offset evs s = (None, offset', r, s') \<Longrightarrow>
   \<exists>ms acks. chan_msgs evs = ms @ chan_msgs r \<and> took dst ms offset s offset' s' \<and>
     (\<exists>m \<in> set ms. Body m = []) \<and> ft_out s' = ft_out s @ acks \<and>
     ((\<forall>m \<in> set ms. Proto (Header m) \<noteq> ProtoTypeFileTransferV2) \<longrightarrow>
        length ms \<le> ACKSlidingWindowSend * length acks) \<and>
     ((\<forall>m \<in> set ms. Proto (Header m) = ProtoTypeFileTransferV2) \<longrightarrow> acks = [])"
  (is "_ \<Longrightarrow> ?P offset evs s")
proof (induction evs arbitrary: offset s rule: measure_induct_rule [where f = length])
  case (less evs)
  note step = less.prems [unfolded writeFile.simps [of dst offset evs s]]
  obtain msg r1 where recv: "chan_recv evs = Some (msg, r1)"
    using step by (auto split: option.splits)
  note r1 = chan_recv_length [OF recv] and m1 = chan_recv_msgs [OF recv]
  obtain cr o1 s1 where w: "writeChunk dst msg offset s = (cr, o1, s1)"
    by (cases "writeChunk dst msg offset s") auto
  have ne: "\<forall>e. cr \<noteq> ChunkErr e" using step recv w by auto
  note t1 = writeChunk_took [OF w ne] and w1 = writeChunk_only [OF w]
  show ?case
  proof (cases "Proto (Header msg) = ProtoTypeFileTransferV2")
    case True
    show ?thesis
    proof (cases "cr = ChunkEOF")
      case eof: True
      with True step recv w m1 t1 w1 show ?thesis
        by (intro exI [of _ "[msg]"] exI [of _ "[]"]) auto
    next
      case False
      with ne have "cr = ChunkOk" by (cases cr) auto
      with True step recv w have "writeFile dst o1 r1 s1 = (None, offset', r, s')" by simp
      from less.IH [OF r1 this] obtain ms acks where
        "chan_msgs r1 = ms @ chan_msgs r" "took dst ms o1 s1 offset' s'" "\<exists>m \<in> set ms. Body m = []"
        "ft_out s' = ft_out s1 @ acks"
        "(\<forall>m \<in> set ms. Proto (Header m) = ProtoTypeFileTransferV2) \<longrightarrow> acks = []" by blast
      with True t1 m1 w1 show ?thesis
        by (intro exI [of _ "msg # ms"] exI [of _ acks])
           (auto dest: took_append [of dst "[msg]" offset s o1 s1 ms])
    qed
  next
    case False
    obtain msg2 eof2 o2 r2 s2 where b: "ack_batch dst (ACKSlidingWindowSend - 1) msg (cr = ChunkEOF) o1 r1 s1
        = (Inr (msg2, eof2), o2, r2, s2)"
      using step recv w ne False
      by (cases cr; cases "ack_batch dst (ACKSlidingWindowSend - 1) msg (cr = ChunkEOF) o1 r1 s1")
         (auto split: sum.splits)
    from ack_batch_took [OF b] obtain ms where
      ms: "chan_msgs r1 = ms @ chan_msgs r2" "length ms \<le> ACKSlidingWindowSend - 1"
      "took dst ms o1 s1 o2 s2" "eof2 \<longleftrightarrow> cr = ChunkEOF \<or> (\<exists>m \<in> set ms. Body m = [])"
      by blast
    note b1 = ack_batch_only [OF b] and b2 = ack_batch_rest [OF b]
    have t2: "took dst (msg # ms) offset s o2 s2"
      using took_append [of dst "[msg]" offset s o1 s1 ms] t1 ms(3) by auto
    obtain s3 where send: "send (ack_of (Header msg2)) s2 = (None, s3)"
      using step recv w ne False b
      by (cases cr; cases "send (ack_of (Header msg2)) s2") (auto split: option.splits)
    have s3: "ft_out s3 = ft_out s @ [ack_of (Header msg2)]"
      using ftw.wr_ok [OF send] b1 w1 by simp
    have t3: "took dst (msg # ms) offset s o2 s3"
      using t2 send_frame [of "ack_of (Header msg2)" s2] send by (auto intro: took_cong_wire)
    have n10: "length (msg # ms) \<le> ACKSlidingWindowSend"
      using ms(2) by (simp add: ACKSlidingWindowSend_def)
    show ?thesis
    proof (cases eof2)
      case True
      then have "(o2, r2, s3) = (offset', r, s')"
        using step recv w ne False b send by (cases cr) auto
      with True t3 s3 n10 ms m1 t1 False show ?thesis
        by (intro exI [of _ "msg # ms"] exI [of _ "[ack_of (Header msg2)]"]) auto
    next
      case nd: False
      then have "writeFile dst o2 r2 s3 = (None, offset', r, s')"
        using step recv w ne False b send by (cases cr) auto
      from less.IH [OF _ this] r1 b2 obtain ms' acks where ms':
        "chan_msgs r2 = ms' @ chan_msgs r" "took dst ms' o2 s3 offset' s'" "\<exists>m \<in> set ms'. Body m = []"
        "ft_out s' = ft_out s3 @ acks"
        "(\<forall>m \<in> set ms'. Proto (Header m) \<noteq> ProtoTypeFileTransferV2) \<longrightarrow>
           length ms' \<le> ACKSlidingWindowSend * length acks" by force
      with took_append [OF t3 ms'(2)] s3 n10 ms m1 False show ?thesis
        by (intro exI [of _ "(msg # ms) @ ms'"] exI [of _ "ack_of (Header msg2) # acks"]) auto
    qed
  qed
qed


section \<open>The temporary file and the commit\<close>

text \<open>The contents of every file: what the handler's promise is about.\<close>

definition conts :: "fsys \<Rightarrow> string \<Rightarrow> bytes option" where
  "conts fs q = map_option f_content (fs_files fs q)"

lemma content_conts: "content p s = conts (ft_fs s) p"
  by (simp add: content_def conts_def)

lemma conts_modify:
  "(\<And>x. f_content (f x) = f_content x) \<Longrightarrow> conts (snd (fs_modify p f fs)) = conts fs"
  by (auto simp: fs_modify_def fs_tick_def conts_def fun_eq_iff split: option.splits)

lemma conts_meta [simp]:
  "conts (snd (fs_Chmod p m fs)) = conts fs"
  "conts (snd (fs_Chown p u g fs)) = conts fs"
  "conts (snd (fs_Close p fs)) = conts fs"
  by (simp_all add: fs_Chmod_def fs_Chown_def conts_modify)
     (simp add: fs_Close_def fs_tick_def conts_def fun_eq_iff)

lemma conts_PreserveModes [simp]: "conts (snd (PreserveModes lim p m fs)) = conts fs"
  by (simp add: PreserveModes_def split: sum.splits)

lemma conts_PreserveOwnerGroup [simp]: "conts (snd (PreserveOwnerGroup os lim p u g fs)) = conts fs"
  by (simp add: PreserveOwnerGroup_def Let_def split: sum.splits)

lemma conts_Remove: "q \<noteq> p \<Longrightarrow> conts (snd (fs_Remove p fs)) q = conts fs q"
  by (simp add: conts_def frame)

lemma conts_Rename:
  "fs_Rename old new fs = (None, fs') \<Longrightarrow> conts fs old \<noteq> None \<and>
     conts fs' = (conts fs)(old := None, new := conts fs old)"
  "fs_Rename old new fs = (Some e, fs') \<Longrightarrow> conts fs' = conts fs"
  by (auto simp: fs_Rename_def fs_tick_def conts_def fun_eq_iff split: option.splits)

lemma on_fs_sel:
  "fst (on_fs f s) = fst (f (ft_fs s))" "ft_fs (snd (on_fs f s)) = snd (f (ft_fs s))"
  "ft_wire (snd (on_fs f s)) = ft_wire s" "ft_permit (snd (on_fs f s)) = ft_permit s"
  "ft_busy (snd (on_fs f s)) = ft_busy s" "ft_suffix (snd (on_fs f s)) = ft_suffix s"
  by (simp_all add: on_fs_def split: prod.splits)

lemma tmp_name_longer: "length path < length (tmp_name path sfx i)"
  by (simp add: tmp_name_def)

lemma create_tmp_ok:
  "create_tmp k err i path s = (Inr name, s') \<Longrightarrow>
     length path < length name \<and> fs_files (ft_fs s) name = None \<and>
     fs_files (ft_fs s') =
       (fs_files (ft_fs s))(name \<mapsto> \<lparr>f_content = [], f_mode = 0x80, f_uid = 0, f_gid = 0\<rparr>) \<and>
     ft_wire s' = ft_wire s \<and> ft_permit s' = ft_permit s \<and> ft_busy s' = ft_busy s"
proof (induction k arbitrary: err i s)
  case (Suc k)
  let ?n = "tmp_name path (ft_suffix s + 1) i"
  obtain r fs where o: "fs_OpenExcl ?n 0x80 (ft_fs s) = (r, fs)"
    by (cases "fs_OpenExcl ?n 0x80 (ft_fs s)")
  show ?case
  proof (cases r)
    case None
    with Suc.prems o show ?thesis
      by (auto simp: Let_def tmp_name_longer dest!: fs_OpenExcl_ok)
  next
    case (Some e)
    then have "fs_files fs = fs_files (ft_fs s)"
      using o by (auto simp: fs_OpenExcl_def fs_tick_def split: option.splits if_splits)
    with Suc.prems o Some show ?thesis
      by (auto simp: Let_def split: if_splits dest!: Suc.IH)
  qed
qed simp

lemma create_tmp_err:
  "create_tmp k err i path s = (Inl e, s') \<Longrightarrow>
     fs_files (ft_fs s') = fs_files (ft_fs s) \<and> (\<exists>e'. e = Wrapped ''failed to create file'' e') \<and>
     ft_wire s' = ft_wire s \<and> ft_permit s' = ft_permit s \<and> ft_busy s' = ft_busy s"
proof (induction k arbitrary: err i s)
  case (Suc k)
  let ?n = "tmp_name path (ft_suffix s + 1) i"
  obtain r fs where o: "fs_OpenExcl ?n 0x80 (ft_fs s) = (r, fs)"
    by (cases "fs_OpenExcl ?n 0x80 (ft_fs s)")
  show ?case
  proof (cases r)
    case None
    with Suc.prems o show ?thesis by (simp add: Let_def)
  next
    case (Some e')
    then have "fs_files fs = fs_files (ft_fs s)"
      using o by (auto simp: fs_OpenExcl_def fs_tick_def split: option.splits if_splits)
    with Suc.prems o Some show ?thesis
      by (auto simp: Let_def split: if_splits dest!: Suc.IH)
  qed
qed auto

text \<open>Each step of the commit, by what it does to the contents.\<close>

lemma on_fs_conts:
  "on_fs f s = (r, s') \<Longrightarrow> conts (snd (f (ft_fs s))) = conts (ft_fs s) \<Longrightarrow>
   conts (ft_fs s') = conts (ft_fs s)"
  using on_fs_sel(2) [of f s] by simp

lemma commit_steps:
  "on_fs (fs_Chmod p m) s = (r, s') \<Longrightarrow> conts (ft_fs s') = conts (ft_fs s)"
  "on_fs (fs_Chown p u g) s = (r, s') \<Longrightarrow> conts (ft_fs s') = conts (ft_fs s)"
  "on_fs (PreserveModes lim p m) s = (r, s') \<Longrightarrow> conts (ft_fs s') = conts (ft_fs s)"
  "on_fs (PreserveOwnerGroup os lim p u g) s = (r, s') \<Longrightarrow> conts (ft_fs s') = conts (ft_fs s)"
  "send msg s = (r, s') \<Longrightarrow> conts (ft_fs s') = conts (ft_fs s)"
  by (simp_all add: on_fs_conts) (metis send_frame(1) snd_conv)

lemma commit_rename:
  assumes "on_fs (fs_Rename p q) (snd (on_fs (fs_Close p) s)) = (r, s')"
  shows "r = None \<Longrightarrow> conts (ft_fs s) p \<noteq> None \<and>
           conts (ft_fs s') = (conts (ft_fs s))(p := None, q := conts (ft_fs s) p)"
    and "r \<noteq> None \<Longrightarrow> conts (ft_fs s') = conts (ft_fs s)"
proof -
  let ?fs = "snd (fs_Close p (ft_fs s))"
  have "fs_Rename p q ?fs = (r, ft_fs s')"
    using assms by (auto simp: on_fs_def split: prod.splits)
  then show "r = None \<Longrightarrow> conts (ft_fs s) p \<noteq> None \<and>
           conts (ft_fs s') = (conts (ft_fs s))(p := None, q := conts (ft_fs s) p)"
    and "r \<noteq> None \<Longrightarrow> conts (ft_fs s') = conts (ft_fs s)"
    using conts_Rename(1) [of p q ?fs "ft_fs s'"] conts_Rename(2) [of p q ?fs _ "ft_fs s'"]
    by (auto simp del: fun_upd_apply)
qed

text \<open>
  A commit that stops before the rename changes no contents, and one that gets past it has
  moved the temporary file onto the destination; there is nothing in between.
\<close>

lemma upload_commit_conts:
  assumes "upload_commit os msg params path name s = (u, fd, closeFd, s')"
  shows "conts (ft_fs s') = conts (ft_fs s) \<and> u \<noteq> UpOk \<or>
     conts (ft_fs s) name \<noteq> None \<and>
     conts (ft_fs s') = (conts (ft_fs s))(name := None, path := conts (ft_fs s) name)"
  using assms unfolding upload_commit_def
  by (auto split: option.splits prod.splits if_splits dest!: commit_steps dest: commit_rename)

lemma upload_commit_fd:
  "upload_commit os msg params path name s = (u, fd, closeFd, s') \<Longrightarrow>
   (fd = None \<and> u = UpOk) \<or> (fd = Some name \<and> u \<noteq> UpOk)"
  unfolding upload_commit_def by (auto split: option.splits prod.splits if_splits)


section \<open>The size limit\<close>

text \<open>Writing never takes an upload to the limit: an offset that has moved is below it.\<close>

abbreviation below_max :: "'f ft_state \<Rightarrow> int \<Rightarrow> bool" where
  "below_max s \<equiv> BelowMaxAllowedFileSize (pm_limits (ft_permit s))"

lemma BytesReceived_limits: "BytesReceived n p = (b, p') \<Longrightarrow> pm_limits p' = pm_limits p"
  using BytesReceived_frame(1) [of n p] by simp

lemma writeChunk_below:
  "writeChunk dst m offset s = (res, offset', s') \<Longrightarrow> \<forall>e. res \<noteq> ChunkErr e \<Longrightarrow>
   offset' = offset \<or> below_max s offset'"
  by (auto simp: writeChunk_def dstWrite_def Let_def
        split: if_splits option.splits prod.splits dest!: BytesReceived_limits)

lemma below_only: "only_file dst s s' \<Longrightarrow> below_max s' = below_max s"
  by (simp add: only_file_def)

lemma ack_batch_below:
  "ack_batch dst k msg eof offset evs s = (Inr x, offset', r, s') \<Longrightarrow>
   offset' = offset \<or> below_max s offset'"
proof (induction k arbitrary: msg eof offset evs s)
  case (Suc k)
  show ?case
  proof (cases "chan_poll evs")
    case (PMsg m r1)
    obtain cr o1 s1 where w: "writeChunk dst m offset s = (cr, o1, s1)" by (rule prod_cases3)
    have s1: "below_max s1 = below_max s" using writeChunk_only [OF w] below_only by blast
    have "\<exists>eof'. ack_batch dst k m eof' o1 r1 s1 = (Inr x, offset', r, s')" "\<forall>e. cr \<noteq> ChunkErr e"
      using Suc.prems PMsg w by (cases cr; auto)+
    with writeChunk_below [OF w] Suc.IH s1 show ?thesis by metis
  qed (use Suc.prems in auto)
qed simp

lemma writeFile_below:
  "writeFile dst offset evs s = (None, offset', r, s') \<Longrightarrow> offset' = offset \<or> below_max s offset'"
proof (induction evs arbitrary: offset s rule: measure_induct_rule [where f = length])
  case (less evs)
  note step = less.prems [unfolded writeFile.simps [of dst offset evs s]]
  show ?case
  proof (cases "chan_recv evs")
    case (Some mr)
    obtain msg r1 where mr: "mr = (msg, r1)" by (cases mr)
    note r1 = chan_recv_length [OF Some [unfolded mr]]
    obtain cr o1 s1 where w: "writeChunk dst msg offset s = (cr, o1, s1)" by (rule prod_cases3)
    have ne: "\<forall>e. cr \<noteq> ChunkErr e" using step Some mr w by auto
    have s1: "below_max s1 = below_max s" using writeChunk_only [OF w] below_only by blast
    obtain br o2 r2 s2 where b:
      "ack_batch dst (ACKSlidingWindowSend - 1) msg (cr = ChunkEOF) o1 r1 s1 = (br, o2, r2, s2)"
      by (rule prod_cases4)
    have s2: "below_max s2 = below_max s" using ack_batch_only [OF b] below_only s1 by metis
    note b2 = ack_batch_rest [OF b]
    have o1: "o1 = offset \<or> below_max s o1" using writeChunk_below [OF w ne] .
    have o2: "o2 = offset \<or> below_max s o2" if "\<not> isl br"
      using that ack_batch_below [of dst _ msg _ o1 r1 s1 "projr br" o2 r2 s2] b o1 s1
      by (cases br) auto
    have IH1: "offset' = offset \<or> below_max s offset'" if "writeFile dst o1 r1 s1 = (None, offset', r, s')"
      using less.IH [OF r1 that] o1 s1 by auto
    let ?s = "snd (send (ack_of (Header (fst (projr br)))) s2)"
    have IH2: "offset' = offset \<or> below_max s offset'"
      if "\<not> isl br" "writeFile dst o2 r2 ?s = (None, offset', r, s')"
      using less.IH [OF _ that(2)] r1 b2 o2 [OF that(1)] s2 by (auto simp: frame)
    show ?thesis
      using step Some mr w b ne o1 o2 IH1 IH2
      by (cases cr; cases br) (auto split: if_splits prod.splits option.splits)
  qed (use step in auto)
qed

section \<open>The handler as a whole\<close>

lemma create_tmp_fault:
  "create_tmp k err i path s = (r, s') \<Longrightarrow> fs_fault (ft_fs s') = fs_fault (ft_fs s)"
proof (induction k arbitrary: err i s)
  case (Suc k)
  obtain r1 fs where o: "fs_OpenExcl (tmp_name path (ft_suffix s + 1) i) 0x80 (ft_fs s) = (r1, fs)"
    by (cases "fs_OpenExcl (tmp_name path (ft_suffix s + 1) i) 0x80 (ft_fs s)")
  have "fs_fault (snd (fs_OpenExcl (tmp_name path (ft_suffix s + 1) i) 0x80 (ft_fs s))) =
      fs_fault (ft_fs s)"
    by (simp add: frame)
  with o have "fs_fault fs = fs_fault (ft_fs s)" by simp
  with Suc.prems o show ?case
    by (auto simp: Let_def split: option.splits if_splits dest!: Suc.IH)
qed simp

lemma on_fs_fault:
  "on_fs f s = (r, s') \<Longrightarrow> fs_fault (snd (f (ft_fs s))) = fs_fault (ft_fs s) \<Longrightarrow>
   fs_fault (ft_fs s') = fs_fault (ft_fs s)"
  using on_fs_sel(2) [of f s] by simp

lemma Preserve_fault [frame]:
  "fs_fault (snd (PreserveModes lim p m fs)) = fs_fault fs"
  "fs_fault (snd (PreserveOwnerGroup os lim p u g fs)) = fs_fault fs"
  by (simp_all add: PreserveModes_def PreserveOwnerGroup_def Let_def frame split: sum.splits)

lemma commit_faults:
  "on_fs (fs_Chmod p m) s = (r, s') \<Longrightarrow> fs_fault (ft_fs s') = fs_fault (ft_fs s)"
  "on_fs (fs_Chown p u g) s = (r, s') \<Longrightarrow> fs_fault (ft_fs s') = fs_fault (ft_fs s)"
  "on_fs (fs_Rename p q) (snd (on_fs (fs_Close p) s)) = (r, s') \<Longrightarrow>
     fs_fault (ft_fs s') = fs_fault (ft_fs s)"
  "on_fs (PreserveModes lim p m) s = (r, s') \<Longrightarrow> fs_fault (ft_fs s') = fs_fault (ft_fs s)"
  "on_fs (PreserveOwnerGroup os lim p u g) s = (r, s') \<Longrightarrow> fs_fault (ft_fs s') = fs_fault (ft_fs s)"
  "send msg s = (r, s') \<Longrightarrow> fs_fault (ft_fs s') = fs_fault (ft_fs s)"
  by (auto simp: frame on_fs_sel dest: on_fs_fault) (metis send_frame(1) snd_conv)

lemma upload_commit_fault:
  "upload_commit os msg params path name s = (u, fd, closeFd, s') \<Longrightarrow>
   fs_fault (ft_fs s') = fs_fault (ft_fs s)"
  unfolding upload_commit_def
  by (auto split: option.splits prod.splits if_splits dest!: commit_faults)

lemma cleanup_conts:
  "fd \<noteq> Some q \<Longrightarrow> conts (ft_fs (upload_cleanup cd msg fd closeFd err s)) q = conts (ft_fs s) q"
  by (auto simp: upload_cleanup_def Let_def frame conts_Remove split: option.splits)

lemma cleanup_removes:
  "healthy (ft_fs s) \<Longrightarrow>
   conts (ft_fs (upload_cleanup cd msg (Some name) closeFd err s)) name = None"
proof -
  assume h: "healthy (ft_fs s)"
  have "conts (snd (fs_Remove name fs)) name = None" if "healthy fs" for fs
    using that by (auto simp: fs_Remove_def fs_tick_def conts_def split: option.splits)
  with h show ?thesis
    by (auto simp: upload_cleanup_def Let_def frame split: option.splits)
qed

lemma cleanup_busy [simp]: "ft_busy (upload_cleanup cd msg fd closeFd err s) = False"
  by (simp add: upload_cleanup_def Let_def)

text \<open>
  The three ways a run goes: no temporary file could be made; the destination was never
  reached; or the whole stream was received and renamed into place.
\<close>

lemma upload_run_cases:
  assumes run: "FileUploadHandler cd os msg params evs s = (u, s')"
    and path: "ur_Path params = Some path"
  obtains (no_tmp) s1 err where "s' = upload_cleanup cd msg None False err s1"
      "conts (ft_fs s1) = conts (ft_fs s)" "u \<noteq> UpOk"
  | (not_committed) s1 name closeFd err where "name \<noteq> path" "conts (ft_fs s) name = None"
      "s' = upload_cleanup cd msg (Some name) closeFd err s1" "u \<noteq> UpOk"
      "\<And>q. q \<noteq> name \<Longrightarrow> conts (ft_fs s1) q = conts (ft_fs s) q"
      "fs_fault (ft_fs s1) = fs_fault (ft_fs s)"
  | (committed) s1 name fd closeFd err ms rest where "name \<noteq> path" "conts (ft_fs s) name = None"
      "s' = upload_cleanup cd msg fd closeFd err s1" "fd = None \<or> fd = Some name"
      "chan_msgs evs = ms @ rest" "chunks_from 0 ms" "\<exists>m \<in> set ms. Body m = []"
      "conts (ft_fs s1) = (conts (ft_fs s))(path \<mapsto> bodies ms)"
      "fs_fault (ft_fs s1) = fs_fault (ft_fs s)"
      "bodies ms = [] \<or> below_max s (int (length (bodies ms)))"
proof (cases "createWrOnlyTempFile path s")
  case (Pair r s1)
  show thesis
  proof (cases r)
    case (Inl e)
    then have "conts (ft_fs s1) = conts (ft_fs s)"
      using Pair create_tmp_err [of 100 EEXIST 0 path s e s1]
      by (simp add: createWrOnlyTempFile_def conts_def fun_eq_iff)
    with Inl Pair run path show thesis
      by (intro no_tmp [of "Some e" "ft_reply_error cd msg (Wrapped ''failed to create target file'' e) s1"])
         (auto simp: FileUploadHandler_def frame)
  next
    case (Inr name)
    note tmp = create_tmp_ok [OF Pair [unfolded createWrOnlyTempFile_def Inr]]
      and fault1 = create_tmp_fault [OF Pair [unfolded createWrOnlyTempFile_def Inr]]
    have name: "name \<noteq> path" "conts (ft_fs s) name = None" using tmp by (auto simp: conts_def)
    have c1: "conts (ft_fs s1) = (conts (ft_fs s))(name \<mapsto> [])"
      using tmp by (auto simp: conts_def fun_eq_iff)
    obtain r2 s2 where a: "(if Proto (Header msg) = ProtoTypeFileTransfer
        then send (first_ack msg) s1 else (None, s1)) = (r2, s2)" by fastforce
    then have s2: "ft_fs s2 = ft_fs s1" and p2: "ft_permit s2 = ft_permit s"
      using send_frame(1,2) [of "first_ack msg" s1] tmp by (auto split: if_splits)
    show thesis
    proof (cases r2)
      case (Some e)
      with Inr Pair run path name c1 s2 a fault1 show thesis
        by (intro not_committed [of name True "Some (Sentinel ErrFileTransferAbort)" s2])
           (auto simp: FileUploadHandler_def)
    next
      case None
      obtain r3 off rest s3 where wf: "writeFile name 0 evs s2 = (r3, off, rest, s3)"
        by (metis prod_cases4)
      note w1 = writeFile_only [OF wf]
      have c3: "conts (ft_fs s3) q = conts (ft_fs s) q" if "q \<noteq> name" for q
        using that w1 c1 s2 by (simp add: only_file_def conts_def fun_eq_iff)
      have fault3: "fs_fault (ft_fs s3) = fs_fault (ft_fs s)"
        using w1 s2 fault1 by (simp add: only_file_def)
      show thesis
      proof (cases r3)
        case (Some e)
        with Inr Pair run path name c3 a None wf fault3 show thesis
          by (intro not_committed [of name True "Some e" s3]) (auto simp: FileUploadHandler_def)
      next
        case r3: None
        from writeFile_took [OF wf [unfolded r3]] obtain ms where
          ms: "chan_msgs evs = ms @ chan_msgs rest" "took name ms 0 s2 off s3" "\<exists>m \<in> set ms. Body m = []"
          by blast
        then have c3n: "conts (ft_fs s3) name = Some (bodies ms)"
          using c1 s2 by (simp add: took_def content_conts)
        have small: "bodies ms = [] \<or> below_max s (int (length (bodies ms)))"
          using writeFile_below [OF wf [unfolded r3]] ms(2) p2 by (auto simp: took_def)
        obtain fd closeFd s4 where uc: "upload_commit os msg params path name s3 = (u, fd, closeFd, s4)"
          and s': "s' = upload_cleanup cd msg fd closeFd (end_error u) s4"
          using Inr Pair run path a None wf r3
          by (auto simp: FileUploadHandler_def split: prod.splits)
        note fd = upload_commit_fd [OF uc] and fault4 = upload_commit_fault [OF uc]
        consider "conts (ft_fs s4) = conts (ft_fs s3)" "u \<noteq> UpOk"
          | "conts (ft_fs s4) = (conts (ft_fs s3))(name := None, path := conts (ft_fs s3) name)"
          using upload_commit_conts [OF uc] by blast
        then show thesis
        proof cases
          case 1
          with fd name c3 s' fault3 fault4 show thesis
            by (intro not_committed [of name closeFd "end_error u" s4]) auto
        next
          case 2
          have "conts (ft_fs s4) = (conts (ft_fs s))(path \<mapsto> bodies ms)"
            using 2 c3 c3n name by (auto simp: fun_eq_iff)
          with fd name ms small s' fault3 fault4 show thesis
            by (intro committed [of name fd closeFd "end_error u" s4 ms "chan_msgs rest"])
               (auto simp: took_def)
        qed
      qed
    qed
  qed
qed


section \<open>Uploads that meet no obstacle\<close>

text \<open>No fault ahead, no limits in force, and the file open.\<close>

definition smooth :: "string \<Rightarrow> 'f ft_state \<Rightarrow> bool" where
  "smooth dst s \<longleftrightarrow> healthy (ft_fs s) \<and> \<not> Enabled (pm_limits (ft_permit s)) \<and>
     reliable (ft_wire s) \<and> fs_files (ft_fs s) dst \<noteq> None"

lemma smooth_only: "smooth dst s \<Longrightarrow> only_file dst s s' \<Longrightarrow> smooth dst s'"
  by (simp add: smooth_def only_file_def healthy_def reliable_def)

lemma smooth_send: "smooth dst s \<Longrightarrow> fst (send m s) = None \<and> smooth dst (snd (send m s))"
  using smooth_only [OF _ only_file_send, of dst s m] send_reliable [of s m]
  by (simp add: smooth_def)

text \<open>A stream the client meant to be complete: non-empty chunks, then one empty chunk.\<close>

definition complete_stream :: "int \<Rightarrow> ProtoMsg list \<Rightarrow> bool" where
  "complete_stream offset ms \<longleftrightarrow> chunks_from offset ms \<and> ms \<noteq> [] \<and> Body (last ms) = [] \<and>
     (\<forall>m \<in> set (butlast ms). Body m \<noteq> [])"

lemma complete_stream_Cons:
  "complete_stream offset (m # ms) \<longleftrightarrow>
     MsgType (Header m) = MessageTypeChunk \<and>
     prop_int64 (Properties (Header m)) ''offset'' = Some offset \<and>
     (if ms = [] then Body m = []
      else Body m \<noteq> [] \<and> complete_stream (offset + int (length (Body m))) ms)"
  by (auto simp: complete_stream_def)

lemma writeChunk_smooth:
  assumes "smooth dst s" "MsgType (Header m) = MessageTypeChunk"
    "prop_int64 (Properties (Header m)) ''offset'' = Some offset"
  obtains s' where
    "writeChunk dst m offset s =
       (if Body m = [] then ChunkEOF else ChunkOk, offset + int (length (Body m)), s')"
    "smooth dst s'"
proof -
  obtain res o1 s1 where w: "writeChunk dst m offset s = (res, o1, s1)"
    by (cases "writeChunk dst m offset s") auto
  have "res = (if Body m = [] then ChunkEOF else ChunkOk) \<and> o1 = offset + int (length (Body m))"
    using w assms
    by (auto simp: writeChunk_def dstWrite_def smooth_def fs_Write_def BytesReceived_def
          BelowMaxAllowedFileSize_def Let_def split: if_splits option.splits)
  with w smooth_only [OF assms(1)] writeChunk_only [OF w] show thesis
    by (intro that) auto
qed

text \<open>The messages \<open>ms\<close> reach the handler at whatever moments, and the channel is still open after
  the last of them.\<close>

definition arrives :: "ProtoMsg list \<Rightarrow> chan_ev list \<Rightarrow> bool" where
  "arrives ms evs \<longleftrightarrow> chan_msgs evs = ms \<and> evs \<noteq> [] \<and> last evs = Idle"

lemma arrives_recv:
  "arrives (m # ms) evs \<Longrightarrow> \<exists>r. chan_recv evs = Some (m, r) \<and> arrives ms r \<and> length r < length evs"
proof (induction evs)
  case (Cons ev evs)
  show ?case
  proof (cases ev)
    case (Recv x)
    with Cons.prems show ?thesis by (auto simp: arrives_def split: if_splits)
  next
    case Idle
    with Cons.prems have "arrives (m # ms) evs" by (cases evs) (auto simp: arrives_def)
    from Cons.IH [OF this] Idle show ?thesis by auto
  qed
qed (simp add: arrives_def)

lemma arrives_poll:
  assumes "arrives ms evs"
  obtains (none) r where "chan_poll evs = PNothing r" "ms \<noteq> [] \<Longrightarrow> arrives ms r" "length r < length evs"
  | (some) m ms' r where "ms = m # ms'" "chan_poll evs = PMsg m r" "arrives ms' r" "length r < length evs"
proof (cases evs)
  case (Cons ev r)
  show thesis
  proof (cases ev)
    case (Recv m)
    with assms Cons show thesis by (intro some [of m "chan_msgs r" r]) (auto simp: arrives_def split: if_splits)
  next
    case Idle
    with assms Cons show thesis by (intro none [of r]) (auto simp: arrives_def split: if_splits)
  qed
qed (use assms in \<open>simp add: arrives_def\<close>)

lemma arrives_queued: "arrives ms (map Recv ms @ [Idle])"
proof -
  have "chan_msgs (map Recv ms @ [Idle]) = ms" by (induction ms) auto
  then show ?thesis by (simp add: arrives_def)
qed

lemma ack_batch_done:
  "arrives [] evs \<Longrightarrow> \<exists>msg' r. ack_batch dst k msg True offset evs s = (Inr (msg', True), offset, r, s)"
  by (cases k; erule arrives_poll) auto

lemma ack_batch_smooth:
  "smooth dst s \<Longrightarrow> complete_stream offset ms \<Longrightarrow> arrives ms evs \<Longrightarrow>
   \<exists>msg' offset' r s'.
     ack_batch dst k msg eof offset evs s = (Inr (msg', True), offset', r, s') \<or>
     (\<exists>ms'. ack_batch dst k msg eof offset evs s = (Inr (msg', eof), offset', r, s') \<and>
        complete_stream offset' ms' \<and> arrives ms' r \<and> length r \<le> length evs)"
proof (induction k arbitrary: msg eof offset ms evs s)
  case 0
  then show ?case by simp blast
next
  case (Suc k)
  from Suc.prems(2) obtain m ms1 where ms: "ms = m # ms1" by (cases ms) (auto simp: complete_stream_def)
  note cs = Suc.prems(2) [unfolded ms complete_stream_Cons]
  from Suc.prems(3) show ?case
  proof (cases rule: arrives_poll)
    case (none r)
    with Suc.prems(2) ms show ?thesis by (force simp: less_imp_le)
  next
    case (some m' ms' r)
    then have e: "m' = m" "ms' = ms1" using ms by simp_all
    obtain s1 where w: "writeChunk dst m offset s =
        (if Body m = [] then ChunkEOF else ChunkOk, offset + int (length (Body m)), s1)" "smooth dst s1"
      using writeChunk_smooth [OF Suc.prems(1)] cs by blast
    show ?thesis
    proof (cases "ms1 = []")
      case True
      then have b: "Body m = []" using cs by simp
      from ack_batch_done [of r dst k m offset s1] some(3) e True obtain msg' r' where
        "ack_batch dst k m True offset r s1 = (Inr (msg', True), offset, r', s1)" by blast
      with some(2) e w b show ?thesis
        by (intro exI [of _ msg'] exI [of _ offset] exI [of _ r'] exI [of _ s1]) simp
    next
      case False
      then have c1: "complete_stream (offset + int (length (Body m))) ms1" "Body m \<noteq> []"
        using cs by auto
      have "ack_batch dst (Suc k) msg eof offset evs s = ack_batch dst k m eof (offset + int (length (Body m))) r s1"
        using some(2) e w c1 by simp
      moreover have "arrives ms1 r" using some(3) e by simp
      ultimately show ?thesis using Suc.IH [OF w(2) c1(1), of r m eof] some(4) by (metis le_trans less_imp_le)
    qed
  qed
qed

lemma writeFile_smooth:
  "smooth dst s \<Longrightarrow> complete_stream offset ms \<Longrightarrow> arrives ms evs \<Longrightarrow>
   \<exists>offset' r s'. writeFile dst offset evs s = (None, offset', r, s')"
proof (induction evs arbitrary: ms offset s rule: measure_induct_rule [where f = length])
  case (less evs)
  from less.prems(2) obtain m ms1 where ms: "ms = m # ms1"
    by (cases ms) (auto simp: complete_stream_def)
  note cs = less.prems(2) [unfolded ms complete_stream_Cons]
  from arrives_recv less.prems(3) ms obtain r1 where r1: "chan_recv evs = Some (m, r1)" "arrives ms1 r1"
    "length r1 < length evs" by blast
  let ?o1 = "offset + int (length (Body m))"
  obtain s1 where w: "writeChunk dst m offset s =
      (if Body m = [] then ChunkEOF else ChunkOk, ?o1, s1)" "smooth dst s1"
    using writeChunk_smooth [OF less.prems(1)] cs by blast
  note step = writeFile.simps [of dst offset evs s]
  show ?case
  proof (cases "Proto (Header m) = ProtoTypeFileTransferV2")
    case True
    show ?thesis
    proof (cases "ms1 = []")
      case t: True
      with True r1 w cs step show ?thesis by simp
    next
      case False
      with cs have "complete_stream ?o1 ms1" by simp
      from less.IH [OF r1(3) w(2) this r1(2)] obtain o' r s' where
        "writeFile dst ?o1 r1 s1 = (None, o', r, s')" by auto
      with False True r1 w cs step show ?thesis by simp
    qed
  next
    case False
    let ?b = "ack_batch dst (ACKSlidingWindowSend - 1) m (Body m = []) ?o1 r1 s1"
    have sends: "fst (send x s2) = None \<and> smooth dst (snd (send x s2))" if "?b = (y, o2, r2, s2)" for x y o2 r2 s2
      by (intro smooth_send smooth_only [OF w(2)]) (use ack_batch_only [OF that] in simp)
    have eof: ?thesis if b: "?b = (Inr (msg', True), o2, r2, s2)" for msg' o2 r2 s2
      using sends [OF b, of "ack_of (Header msg')"] b False r1 w step by (auto split: prod.splits if_splits)
    show ?thesis
    proof (cases "ms1 = []")
      case t: True
      then have "Body m = []" using cs by simp
      with ack_batch_done [of r1 dst "ACKSlidingWindowSend - 1" m ?o1 s1] r1(2) t eof show ?thesis by auto
    next
      case nt: False
      then have c1: "complete_stream ?o1 ms1" and ne: "Body m \<noteq> []" using cs by auto
      then have f: "(Body m = []) = False" by simp
      from ack_batch_smooth [OF w(2) c1 r1(2), of "ACKSlidingWindowSend - 1" m "Body m = []", unfolded f] obtain msg' o2 r2 s2 where
        "?b = (Inr (msg', True), o2, r2, s2) \<or>
         (\<exists>ms'. ?b = (Inr (msg', False), o2, r2, s2) \<and> complete_stream o2 ms' \<and> arrives ms' r2 \<and> length r2 \<le> length r1)"
        by (elim exE) (rule that [unfolded f])
      then show ?thesis
      proof
        assume "\<exists>ms'. ?b = (Inr (msg', False), o2, r2, s2) \<and> complete_stream o2 ms' \<and> arrives ms' r2 \<and> length r2 \<le> length r1"
        then obtain ms' where b: "?b = (Inr (msg', False), o2, r2, s2)"
          and ms': "complete_stream o2 ms'" "arrives ms' r2" "length r2 \<le> length r1" by blast
        obtain s3 where s3: "send (ack_of (Header msg')) s2 = (None, s3)" "smooth dst s3"
          using sends [OF b, of "ack_of (Header msg')"]
          by (cases "send (ack_of (Header msg')) s2") auto
        from less.IH [OF _ s3(2) ms'(1,2)] ms'(3) r1(3) obtain o' r s' where
          "writeFile dst o2 r2 s3 = (None, o', r, s')" by auto
        with b s3 False r1 w ne step show ?thesis by simp
      qed (rule eof)
    qed
  qed
qed


section \<open>Commit without obstacles\<close>

lemma fs_modify_healthy:
  "healthy fs \<Longrightarrow> fs_files fs p = Some x \<Longrightarrow>
   fs_modify p f fs = (None, (fs_tick fs)\<lparr>fs_files := (fs_files fs)(p \<mapsto> f x)\<rparr>)"
  by (simp add: fs_modify_def)

lemma fs_Rename_healthy:
  "healthy fs \<Longrightarrow> fs_files fs p = Some x \<Longrightarrow>
   fs_Rename p q fs = (None, (fs_tick fs)\<lparr>fs_files := (fs_files fs)(p := None, q \<mapsto> x)\<rparr>)"
  by (simp add: fs_Rename_def)

lemma healthy_upd [simp]:
  "healthy (fs\<lparr>fs_files := m\<rparr>) = healthy fs" "healthy (fs_tick fs) = healthy fs"
  "fs_files (fs_tick fs) = fs_files fs"
  by (simp_all add: healthy_def fs_tick_def)

lemma upload_commit_smooth:
  assumes sm: "smooth name s" and x: "fs_files (ft_fs s) name = Some x" "name \<noteq> path"
    and fields: "ur_Mode params = Some mode" "ur_UID params = Some uid" "ur_GID params = Some gid"
  shows "\<exists>s'. upload_commit os msg params path name s = (UpOk, None, False, s') \<and> ftw.extends_by is_ack s s' \<and>
     fs_files (ft_fs s') =
       (fs_files (ft_fs s))(name := None,
          path \<mapsto> x\<lparr>f_mode := mode AND ModePerm, f_uid := uint uid, f_gid := uint gid\<rparr>)"
proof -
  let ?x1 = "x\<lparr>f_mode := mode AND ModePerm\<rparr>"
  let ?x2 = "?x1\<lparr>f_uid := uint uid, f_gid := uint gid\<rparr>"
  let ?fs0 = "ft_fs s"
  let ?fs1 = "(fs_tick ?fs0)\<lparr>fs_files := (fs_files ?fs0)(name \<mapsto> ?x1)\<rparr>"
  let ?fs2 = "(fs_tick ?fs1)\<lparr>fs_files := (fs_files ?fs1)(name \<mapsto> ?x2)\<rparr>"
  let ?fs3 = "fs_tick ?fs2"
  let ?fs4 = "(fs_tick ?fs3)\<lparr>fs_files := (fs_files ?fs3)(name := None, path \<mapsto> ?x2)\<rparr>"
  have h: "healthy ?fs0" "\<not> permit_on (ft_permit s)" "reliable (ft_wire s)"
    using sm by (auto simp: smooth_def)
  have s1: "on_fs (fs_Chmod name (mode AND ModePerm)) s = (None, s\<lparr>ft_fs := ?fs1\<rparr>)"
    using h x by (simp add: on_fs_def fs_Chmod_def fs_modify_healthy)
  have s2: "on_fs (fs_Chown name (uint uid) (uint gid)) (s\<lparr>ft_fs := ?fs1\<rparr>) = (None, s\<lparr>ft_fs := ?fs2\<rparr>)"
    using h by (simp add: on_fs_def fs_Chown_def fs_modify_healthy)
  have s3: "snd (on_fs (fs_Close name) (s\<lparr>ft_fs := ?fs2\<rparr>)) = s\<lparr>ft_fs := ?fs3\<rparr>"
    by (simp add: on_fs_def fs_Close_def)
  have s4: "on_fs (fs_Rename name path) (s\<lparr>ft_fs := ?fs3\<rparr>) = (None, s\<lparr>ft_fs := ?fs4\<rparr>)"
    using h by (simp add: on_fs_def fs_Rename_healthy)
  have s5: "on_fs (PreserveOwnerGroup os (pm_limits (ft_permit s)) path u g) (s\<lparr>ft_fs := ?fs4\<rparr>) =
      (None, s\<lparr>ft_fs := ?fs4\<rparr>)" for u g
    using h by (simp add: on_fs_def PreserveOwnerGroup_def)
  have s6: "on_fs (PreserveModes (pm_limits (ft_permit s)) path mode) (s\<lparr>ft_fs := ?fs4\<rparr>) =
      (None, s\<lparr>ft_fs := ?fs4\<rparr>)"
    using h by (simp add: on_fs_def PreserveModes_def)
  obtain s7 where s7: "send (ack_of (Header msg)) (s\<lparr>ft_fs := ?fs4\<rparr>) = (None, s7)" "ft_fs s7 = ?fs4" "ftw.extends_by is_ack (s\<lparr>ft_fs := ?fs4\<rparr>) s7"
    using send_reliable [of "s\<lparr>ft_fs := ?fs4\<rparr>" "ack_of (Header msg)"] h
      send_frame(1) [of "ack_of (Header msg)" "s\<lparr>ft_fs := ?fs4\<rparr>"]
      ftw.extends_by_wr [of is_ack "ack_of (Header msg)" "s\<lparr>ft_fs := ?fs4\<rparr>"]
    by (cases "send (ack_of (Header msg)) (s\<lparr>ft_fs := ?fs4\<rparr>)") auto
  show ?thesis
    unfolding upload_commit_def
    using s1 s2 s3 s4 s5 s6 s7 fields x by (simp add: fun_eq_iff ftw.extends_by_def)
qed

lemma upload_commit_missing:
  assumes sm: "smooth name s"
    and "ur_Mode params = None \<or> ur_UID params = None \<or> ur_GID params = None"
  shows "fst (upload_commit os msg params path name s) = UpPanic"
proof (cases "ur_Mode params")
  case (Some mode)
  obtain x where "fs_files (ft_fs s) name = Some x" using sm by (auto simp: smooth_def)
  then have "fst (on_fs (fs_Chmod name (mode AND ModePerm)) s) = None"
    using sm by (simp add: on_fs_def fs_Chmod_def fs_modify_healthy smooth_def)
  with Some assms(2) show ?thesis
    by (auto simp: upload_commit_def split: option.splits prod.splits)
qed (simp add: upload_commit_def)

lemma complete_stream_whole:
  assumes "complete_stream offset (xs @ ys)" "\<exists>m \<in> set xs. Body m = []"
  shows "ys = []"
proof (rule ccontr)
  assume ys: "ys \<noteq> []"
  then have "set xs \<subseteq> set (butlast (xs @ ys))" by (simp add: butlast_append)
  with assms show False by (auto simp: complete_stream_def)
qed

lemma chan_msgs_append [simp]: "chan_msgs (xs @ ys) = chan_msgs xs @ chan_msgs ys"
  by (induction xs rule: chan_msgs.induct) auto

lemma chan_msgs_Recv [simp]: "chan_msgs (map Recv ms) = ms"
  by (induction ms) auto

text \<open>Up to the commit, an unobstructed upload has the whole file under its temporary name.\<close>

lemma upload_to_commit:
  assumes h: "healthy (ft_fs s)" "\<not> Enabled (pm_limits (ft_permit s))" "reliable (ft_wire s)"
    and path: "ur_Path params = Some path"
    and free: "fs_files (ft_fs s) (tmp_name path (ft_suffix s + 1) 0) = None"
    and ms: "complete_stream 0 ms" "arrives ms evs"
  obtains name s1 x where "name \<noteq> path" "smooth name s1"
    "fs_files (ft_fs s1) name = Some x" "f_content x = bodies ms" "ftw.extends_by is_ack s s1"
    "FileUploadHandler cd os msg params evs s =
       (case upload_commit os msg params path name s1 of
          (u, fd, closeFd, s) \<Rightarrow> (u, upload_cleanup cd msg fd closeFd (end_error u) s))"
proof -
  let ?n = "tmp_name path (ft_suffix s + 1) 0"
  obtain s1 where t: "createWrOnlyTempFile path s = (Inr ?n, s1)" "fs_fault (ft_fs s1) = fs_fault (ft_fs s)"
    using h free
    by (simp add: createWrOnlyTempFile_def numeral_eq_Suc fs_OpenExcl_def fs_tick_def Let_def domIff)
  note tmp = create_tmp_ok [OF t(1) [unfolded createWrOnlyTempFile_def]]
  have sm1: "smooth ?n s1" using tmp t(2) h by (simp add: smooth_def healthy_def)
  obtain s2 where a: "(if Proto (Header msg) = ProtoTypeFileTransfer
        then send (first_ack msg) s1 else (None, s1)) = (None, s2)" "smooth ?n s2" "ft_fs s2 = ft_fs s1"
    using smooth_send [OF sm1, of "first_ack msg"] sm1 send_frame(1) [of "first_ack msg" s1]
    by (cases "Proto (Header msg) = ProtoTypeFileTransfer"; cases "send (first_ack msg) s1") auto
  obtain off r s3 where w: "writeFile ?n 0 evs s2 = (None, off, r, s3)"
    using writeFile_smooth [OF a(2) ms] by blast
  from writeFile_took [OF w] ms(2) obtain ms' where ms':
    "ms = ms' @ chan_msgs r" "took ?n ms' 0 s2 off s3" "\<exists>m \<in> set ms'. Body m = []" by (auto simp: arrives_def)
  then have "ms' = ms" using complete_stream_whole [of 0 ms' "chan_msgs r"] ms by simp
  then have c3: "content ?n s3 = Some (bodies ms)"
    using ms'(2) tmp a(3) by (simp add: took_def content_def)
  then obtain x where x: "fs_files (ft_fs s3) ?n = Some x" "f_content x = bodies ms"
    by (auto simp: content_def)
  note w3 = writeFile_only [OF w]
  have sm3: "smooth ?n s3" using smooth_only [OF a(2)] w3 by blast
  show thesis
  proof (rule that [of ?n s3 x])
    have "ftw.extends_by is_ack s s1" using tmp by (simp add: ftw.extends_by_def)
    moreover have "ftw.extends_by is_ack s1 s2"
      using a(1) ftw.extends_by_wr [of is_ack "first_ack msg" s1] by (auto simp: first_ack_def split: if_splits)
    ultimately show "ftw.extends_by is_ack s s3" using w3 by (blast intro: ftw.extends_by_trans)
    show "FileUploadHandler cd os msg params evs s =
       (case upload_commit os msg params path ?n s3 of
          (u, fd, closeFd, s) \<Rightarrow> (u, upload_cleanup cd msg fd closeFd (end_error u) s))"
      using path t(1) a(1) w by (simp add: FileUploadHandler_def)
  qed (use x sm3 tmp in auto)
qed


section \<open>Properties\<close>

definition sample_upload :: UploadRequest where
  "sample_upload = \<lparr>ur_SrcPath = None, ur_Path = Some ''/f'', ur_Size = None,
     ur_UID = Some 1, ur_GID = Some 2, ur_Mode = Some 0x1A4\<rparr>"

definition sample_stream :: "ProtoMsg list" where
  "sample_stream = [chunk_msg ProtoTypeFileTransfer 0 ''ab'', chunk_msg ProtoTypeFileTransfer 2 []]"

definition sample_put :: ProtoMsg where
  "sample_put = mk_msg ProtoTypeFileTransfer MessageTypePut ''s1'' None []"

lemma sample_stream_complete: "complete_stream 0 sample_stream"
  by (simp add: complete_stream_def sample_stream_def chunk_msg_def prop_int64_def prop_get_def
        as_int64_int64_val)

text \<open>
  C1. An upload is atomic. However it ends, and whatever fails on the way, the destination
  holds its old contents, or the concatenation of the bodies of a sequence of chunks the
  client sent, contiguous from offset 0 and including the empty chunk that ends the file.
  When it reports success the second is the case.
\<close>

theorem upload_atomic:
  assumes "FileUploadHandler cd os msg params evs s = (u, s')" and "ur_Path params = Some path"
  shows "(content path s' = content path s \<and> u \<noteq> UpOk) \<or>
     (\<exists>ms rest. chan_msgs evs = ms @ rest \<and> chunks_from 0 ms \<and> (\<exists>m \<in> set ms. Body m = []) \<and>
        content path s' = Some (bodies ms))"
  using assms
proof (cases rule: upload_run_cases)
  case (no_tmp s1 err)
  then show ?thesis by (simp add: content_conts cleanup_conts)
next
  case (not_committed s1 name closeFd err)
  then show ?thesis by (simp add: content_conts cleanup_conts)
next
  case (committed s1 name fd closeFd err ms rest)
  then have "content path s' = Some (bodies ms)"
    by (auto simp: content_conts cleanup_conts)
  with committed(5-7) show ?thesis by blast
qed

text \<open>
  C20. An upload touches no other file: a file that existed before under any other name has
  the same contents afterwards, and when no system call fails by itself no file appears
  under any other name, so no temporary file is left behind.
\<close>

theorem upload_footprint:
  assumes run: "FileUploadHandler cd os msg params evs s = (u, s')" and path: "ur_Path params = Some path"
    and q: "q \<noteq> path"
  shows "(content q s \<noteq> None \<longrightarrow> content q s' = content q s) \<and>
     (healthy (ft_fs s) \<longrightarrow> content q s' = content q s)"
  using run path
proof (cases rule: upload_run_cases)
  case (no_tmp s1 err)
  then show ?thesis by (simp add: content_conts cleanup_conts)
next
  case (not_committed s1 name closeFd err)
  then have "healthy (ft_fs s1) = healthy (ft_fs s)" by (simp add: healthy_def)
  with not_committed show ?thesis
    by (cases "q = name") (auto simp: content_conts cleanup_conts cleanup_removes)
next
  case (committed s1 name fd closeFd err ms rest)
  then have h: "healthy (ft_fs s1) = healthy (ft_fs s)" by (simp add: healthy_def)
  from committed(4) show ?thesis
  proof
    assume "fd = None"
    with committed q show ?thesis by (simp add: content_conts cleanup_conts)
  next
    assume "fd = Some name"
    with committed q h show ?thesis
      by (cases "q = name") (auto simp: content_conts cleanup_conts cleanup_removes)
  qed
qed

text \<open>
  An upload succeeds when nothing stands in its way: with limits off, a free temporary
  name, no failing call or write, and a complete stream of chunks, the handler ends without
  error, the destination holds the stream's contents with the requested permission bits,
  owner and group, and the handler is free for the next transfer.
\<close>

theorem upload_completes:
  assumes "healthy (ft_fs s)" "\<not> Enabled (pm_limits (ft_permit s))" "reliable (ft_wire s)"
    and path: "ur_Path params = Some path"
    and "fs_files (ft_fs s) (tmp_name path (ft_suffix s + 1) 0) = None"
    and "complete_stream 0 ms" "arrives ms evs"
    and fields: "ur_Mode params = Some mode" "ur_UID params = Some uid" "ur_GID params = Some gid"
  shows "\<exists>s' acks. FileUploadHandler cd os msg params evs s = (UpOk, s') \<and>
     fs_files (ft_fs s') path = Some \<lparr>f_content = bodies ms, f_mode = mode AND ModePerm,
       f_uid = uint uid, f_gid = uint gid\<rparr> \<and> \<not> ft_busy s' \<and>
     ft_out s' = ft_out s @ acks \<and> (\<forall>m \<in> set acks. is_ack m)"
proof -
  obtain name s1 x where c: "name \<noteq> path" "smooth name s1"
    "fs_files (ft_fs s1) name = Some x" "f_content x = bodies ms" "ftw.extends_by is_ack s s1"
    "FileUploadHandler cd os msg params evs s =
       (case upload_commit os msg params path name s1 of
          (u, fd, closeFd, s) \<Rightarrow> (u, upload_cleanup cd msg fd closeFd (end_error u) s))"
    by (rule upload_to_commit [OF assms(1-7), of cd os msg])
  from upload_commit_smooth [OF c(2,3,1) fields, of os msg] obtain s2 where s2:
    "upload_commit os msg params path name s1 = (UpOk, None, False, s2)" "ftw.extends_by is_ack s1 s2"
    "fs_files (ft_fs s2) path =
       Some (x\<lparr>f_mode := mode AND ModePerm, f_uid := uint uid, f_gid := uint gid\<rparr>)" by auto
  from ftw.extends_by_trans [OF c(5) s2(2)] obtain acks where "ft_out s2 = ft_out s @ acks" "\<forall>m \<in> set acks. is_ack m"
    by (auto simp: ftw.extends_by_def)
  with c(4,6) s2 show ?thesis
    by (cases x) (simp add: end_error_def upload_cleanup_def)
qed

text \<open>
  A request that names the path but leaves the mode, the user or the group without a
  value ends the process: the handler's goroutine dereferences the missing pointer after
  the last chunk, and nothing recovers a panic there.
\<close>

theorem upload_missing_owner_panics:
  assumes "healthy (ft_fs s)" "\<not> Enabled (pm_limits (ft_permit s))" "reliable (ft_wire s)"
    and "ur_Path params = Some path"
    and "fs_files (ft_fs s) (tmp_name path (ft_suffix s + 1) 0) = None"
    and "complete_stream 0 ms" "arrives ms evs"
    and "ur_Mode params = None \<or> ur_UID params = None \<or> ur_GID params = None"
  shows "fst (FileUploadHandler cd os msg params evs s) = UpPanic"
proof -
  obtain name s1 x where c: "name \<noteq> path" "smooth name s1"
    "fs_files (ft_fs s1) name = Some x" "f_content x = bodies ms" "ftw.extends_by is_ack s s1"
    "FileUploadHandler cd os msg params evs s =
       (case upload_commit os msg params path name s1 of
          (u, fd, closeFd, s) \<Rightarrow> (u, upload_cleanup cd msg fd closeFd (end_error u) s))"
    by (rule upload_to_commit [OF assms(1-7), of cd os msg])
  from c(6) upload_commit_missing [OF c(2) assms(8), of os msg path] show ?thesis
    by (cases "upload_commit os msg params path name s1") simp
qed

text \<open>
  When the temporary file cannot be created the client is told twice: the handler sends
  an error message itself, and its deferred function sends another for the same failure.
\<close>

theorem upload_tmp_failure_reported_twice:
  assumes "createWrOnlyTempFile path s = (Inl e, s1)" and "ur_Path params = Some path"
    and "reliable (ft_wire s)" and "err_cause e \<noteq> Sentinel ErrFileTransferAbort"
  shows "ft_out (snd (FileUploadHandler cd os msg params evs s)) =
     ft_out s @ [ft_error_msg cd msg (Wrapped ''failed to create target file'' e), ft_error_msg cd msg e]"
proof -
  have "ft_wire s1 = ft_wire s"
    using create_tmp_err [OF assms(1) [unfolded createWrOnlyTempFile_def]] by simp
  with assms show ?thesis
    by (simp add: FileUploadHandler_def upload_cleanup_def Let_def ft_reply_error_def
          send_reliable)
qed

text \<open>
  \<open>writeFile\<close> succeeds only on a contiguous sequence of chunks that contains an empty
  one; it has then appended exactly their bodies, advanced the offset by their length and
  counted every byte. While no chunk is of version 2 it acknowledges at least every tenth
  chunk, and for version 2 alone it acknowledges none.
\<close>

theorem writeFile_absorbs:
  assumes "writeFile dst offset evs s = (None, offset', r, s')"
  shows "\<exists>ms acks. chan_msgs evs = ms @ chan_msgs r \<and> chunks_from offset ms \<and>
     (\<exists>m \<in> set ms. Body m = []) \<and> offset' = offset + int (length (bodies ms)) \<and>
     content dst s' = map_option (\<lambda>b. b @ bodies ms) (content dst s) \<and>
     ft_permit s' = rx_device.count_all (counted_sizes ms) (ft_permit s) \<and>
     ft_out s' = ft_out s @ acks \<and> list_all is_ack acks \<and>
     ((\<forall>m \<in> set ms. Proto (Header m) \<noteq> ProtoTypeFileTransferV2) \<longrightarrow> length ms \<le> 10 * length acks) \<and>
     ((\<forall>m \<in> set ms. Proto (Header m) = ProtoTypeFileTransferV2) \<longrightarrow> acks = [])"
proof -
  obtain ms acks where ms: "chan_msgs evs = ms @ chan_msgs r" "took dst ms offset s offset' s'"
     "\<exists>m \<in> set ms. Body m = []" "ft_out s' = ft_out s @ acks"
     "(\<forall>m \<in> set ms. Proto (Header m) \<noteq> ProtoTypeFileTransferV2) \<longrightarrow>
        length ms \<le> ACKSlidingWindowSend * length acks"
     "(\<forall>m \<in> set ms. Proto (Header m) = ProtoTypeFileTransferV2) \<longrightarrow> acks = []"
    using writeFile_took [OF assms] by blast
  moreover have "list_all is_ack acks"
    using writeFile_only [OF assms] ms(4) by (auto simp: ftw.extends_by_def list_all_iff)
  ultimately show ?thesis
    by (intro exI [of _ ms] exI [of _ acks]) (auto simp: took_def ACKSlidingWindowSend_def)
qed

section \<open>Witnesses\<close>

lemma sample_ft_smooth:
  "healthy (ft_fs sample_ft)" "\<not> Enabled (pm_limits (ft_permit sample_ft))"
  "reliable (ft_wire sample_ft)" "fs_files (ft_fs sample_ft) q = None" "ft_suffix sample_ft = 0"
  by (simp_all add: sample_ft_def sample_permit_def NewPermit_def) (simp add: sample_fs_def)

theorem upload_atomic_witness:
  "\<exists>u s'. FileUploadHandler sample_codec sample_os sample_put sample_upload
       (map Recv sample_stream @ [Idle]) sample_ft = (u, s') \<and>
     ((content ''/f'' s' = content ''/f'' sample_ft \<and> u \<noteq> UpOk) \<or>
      (\<exists>ms rest. chan_msgs (map Recv sample_stream @ [Idle]) = ms @ rest \<and> chunks_from 0 ms \<and>
         (\<exists>m \<in> set ms. Body m = []) \<and> content ''/f'' s' = Some (bodies ms)))"
proof -
  obtain u s' where run: "FileUploadHandler sample_codec sample_os sample_put sample_upload
      (map Recv sample_stream @ [Idle]) sample_ft = (u, s')" by fastforce
  have p: "ur_Path sample_upload = Some ''/f''" by (simp add: sample_upload_def)
  from run upload_atomic [OF run p] show ?thesis by blast
qed

theorem upload_footprint_witness:
  "\<exists>u s'. FileUploadHandler sample_codec sample_os sample_put sample_upload
       (map Recv sample_stream @ [Idle]) sample_ft = (u, s') \<and> ''/g'' \<noteq> ''/f'' \<and>
     content ''/g'' s' = content ''/g'' sample_ft"
proof -
  obtain u s' where run: "FileUploadHandler sample_codec sample_os sample_put sample_upload
      (map Recv sample_stream @ [Idle]) sample_ft = (u, s')" by fastforce
  have "ur_Path sample_upload = Some ''/f''" "''/g'' \<noteq> ''/f''" by (simp_all add: sample_upload_def)
  from upload_footprint [OF run this] run show ?thesis by (simp add: sample_ft_smooth)
qed

theorem upload_completes_witness:
  "\<exists>s'. FileUploadHandler sample_codec sample_os sample_put sample_upload
       (map Recv sample_stream @ [Idle]) sample_ft = (UpOk, s') \<and>
     fs_files (ft_fs s') ''/f'' = Some \<lparr>f_content = ''ab'', f_mode = 0x1A4, f_uid = 1, f_gid = 2\<rparr>"
proof -
  have b: "bodies sample_stream = ''ab''" by (simp add: sample_stream_def chunk_msg_def)
  have m: "(0x1A4 :: u32) AND ModePerm = 0x1A4" by (simp add: ModePerm_def)
  show ?thesis
    using upload_completes [of sample_ft sample_upload "''/f''" sample_stream "map Recv sample_stream @ [Idle]" "0x1A4" 1 2
        sample_codec sample_os sample_put]
    by (simp add: sample_ft_smooth sample_stream_complete arrives_queued sample_upload_def b m) blast
qed

theorem upload_missing_owner_panics_witness:
  "fst (FileUploadHandler sample_codec sample_os sample_put (sample_upload\<lparr>ur_UID := None\<rparr>)
     (map Recv sample_stream @ [Idle]) sample_ft) = UpPanic"
  by (rule upload_missing_owner_panics [where path = "''/f''" and ms = sample_stream])
     (simp_all add: arrives_queued sample_ft_smooth sample_stream_complete sample_upload_def)

definition full_disk :: "nat ft_state" where
  "full_disk = sample_ft\<lparr>ft_fs := sample_fs\<lparr>fs_fault :=
     (\<lambda>_. Some (ErrOS EOther ''no space left on device'', 0))\<rparr>\<rparr>"

theorem upload_tmp_failure_reported_twice_witness:
  "length (ft_out (snd (FileUploadHandler sample_codec sample_os sample_put sample_upload
     [] full_disk))) = 2"
proof -
  obtain e s1 where c: "createWrOnlyTempFile ''/f'' full_disk = (Inl e, s1)"
    "err_cause e = ErrOS EOther ''no space left on device''"
    by (simp add: createWrOnlyTempFile_def numeral_eq_Suc full_disk_def fs_OpenExcl_def fs_now_def Let_def)
  have "ur_Path sample_upload = Some ''/f''" "reliable (ft_wire full_disk)"
    "err_cause e \<noteq> Sentinel ErrFileTransferAbort"
    using c(2) by (simp_all add: sample_upload_def full_disk_def sample_ft_smooth)
  from upload_tmp_failure_reported_twice [OF c(1) this, of sample_codec sample_os sample_put "[]"]
  show ?thesis by (simp add: full_disk_def sample_ft_def good_wire_def)
qed

definition open_file :: "nat ft_state" where
  "open_file = sample_ft\<lparr>ft_fs := sample_fs\<lparr>fs_files :=
     [''/f.tmp'' \<mapsto> \<lparr>f_content = [], f_mode = 0x80, f_uid = 0, f_gid = 0\<rparr>]\<rparr>\<rparr>"

theorem writeFile_absorbs_witness:
  "\<exists>offset' r s' ms. writeFile ''/f.tmp'' 0 (map Recv sample_stream @ [Idle]) open_file =
       (None, offset', r, s') \<and> chunks_from 0 ms \<and>
     content ''/f.tmp'' s' = map_option (\<lambda>b. b @ bodies ms) (content ''/f.tmp'' open_file)"
proof -
  have "smooth ''/f.tmp'' open_file"
    by (simp add: smooth_def open_file_def sample_ft_smooth)
  from writeFile_smooth [OF this sample_stream_complete arrives_queued] obtain offset' r s' where
    w: "writeFile ''/f.tmp'' 0 (map Recv sample_stream @ [Idle]) open_file = (None, offset', r, s')"
    by blast
  from writeFile_absorbs [OF w] w show ?thesis by blast
qed


section \<open>The size of an upload\<close>

text \<open>
  C23. No upload gets past the size limit, however it ends. With limits on and a maximum size
  set, the destination has the contents it had before, or contents that are empty or strictly
  smaller than the maximum, whatever size the request announced: this covers the uploads that
  fail after the file has been put in its place as well as those that succeed, for which it is
  the second. The sizes spoken of are those below 2 to the 63, the range of the offset.
\<close>

theorem upload_size_limit:
  assumes run: "FileUploadHandler cd os msg params evs s = (u, s')" and path: "ur_Path params = Some path"
    and on: "Enabled (pm_limits (ft_permit s))" "MaxFileSize (lim_ft (pm_limits (ft_permit s))) > 0"
  shows "(content path s' = content path s \<and> u \<noteq> UpOk) \<or>
     (\<exists>b. content path s' = Some b \<and>
        (length b < 2 ^ 63 \<longrightarrow> b = [] \<or> length b < unat (MaxFileSize (lim_ft (pm_limits (ft_permit s))))))"
  using run path
proof (cases rule: upload_run_cases)
  case (no_tmp s1 err)
  then show ?thesis by (simp add: content_conts cleanup_conts)
next
  case (not_committed s1 name closeFd err)
  then show ?thesis by (simp add: content_conts cleanup_conts)
next
  case (committed s1 name fd closeFd err ms rest)
  then have c: "content path s' = Some (bodies ms)"
    by (auto simp: content_conts cleanup_conts)
  have "length (bodies ms) < unat (MaxFileSize (lim_ft (pm_limits (ft_permit s))))"
    if "length (bodies ms) < 2 ^ 63" "bodies ms \<noteq> []"
    using committed(10) that on
    by (simp add: BelowMaxAllowedFileSize_def word_le_nat_alt unsigned_of_nat take_bit_nat_eq_self)
  with c show ?thesis by blast
qed

definition small_ft :: "nat ft_state" where
  "small_ft = sample_ft\<lparr>ft_permit := (ft_permit sample_ft)\<lparr>pm_limits :=
     \<lparr>Enabled = True, lim_ft = zero_FileTransferLimits\<lparr>MaxFileSize := 8\<rparr>\<rparr>\<rparr>\<rparr>"


lemma small_upload:
  "fst (FileUploadHandler sample_codec sample_os sample_put sample_upload
     (map Recv sample_stream @ [Idle]) small_ft) = UpOk"
  by code_simp

text \<open>A file that is put in its place by an upload that then fails: its last acknowledgement is lost.\<close>

definition lossy_ft :: "nat ft_state" where
  "lossy_ft = small_ft\<lparr>ft_wire := (ft_wire small_ft)\<lparr>wire_fault := (\<lambda>k. Some ENOENT)\<rparr>\<rparr>"

definition put_v2 :: ProtoMsg where
  "put_v2 = mk_msg ProtoTypeFileTransferV2 MessageTypePut ''s1'' None []"

definition stream_v2 :: "ProtoMsg list" where
  "stream_v2 = map (\<lambda>m. m\<lparr>Header := (Header m)\<lparr>Proto := ProtoTypeFileTransferV2\<rparr>\<rparr>) sample_stream"

lemma lossy_upload:
  "fst (FileUploadHandler sample_codec sample_os put_v2 sample_upload (map Recv stream_v2 @ [Idle]) lossy_ft) = UpErr ENOENT"
  "content ''/f'' (snd (FileUploadHandler sample_codec sample_os put_v2 sample_upload
     (map Recv stream_v2 @ [Idle]) lossy_ft)) = Some ''ab''"
  by code_simp+

theorem upload_size_limit_witness:
  "\<exists>s'. FileUploadHandler sample_codec sample_os put_v2 sample_upload
       (map Recv stream_v2 @ [Idle]) lossy_ft = (UpErr ENOENT, s') \<and> content ''/f'' s' = Some ''ab'' \<and> length ''ab'' < 8"
proof -
  obtain s' where run: "FileUploadHandler sample_codec sample_os put_v2 sample_upload
       (map Recv stream_v2 @ [Idle]) lossy_ft = (UpErr ENOENT, s')" by (metis lossy_upload(1) prod.collapse)
  with lossy_upload(2) have c: "content ''/f'' s' = Some ''ab''" by simp
  have "content ''/f'' lossy_ft = None" by code_simp
  with upload_size_limit [OF run, of "''/f''"] c run show ?thesis
    by (simp add: sample_upload_def lossy_ft_def small_ft_def)
qed


end
