(* ===== verification/FtDownload.thy ===== *)
theory FtDownload
  imports FtCommon
begin

text \<open>
  Downloading a file from the device: \<open>chunkWriter\<close>, \<open>waitAck\<close> and the asynchronous
  \<open>DownloadHandler\<close> of \<open>session/filetransfer.go\<close>. The lemmas show that the client is sent a
  prefix of the file in contiguous chunks, the whole file when the handler succeeds, and
  that no chunk ends further than the window beyond the acknowledged offset.
\<close>

section \<open>The file being read\<close>

text \<open>
  An open file as its reader meets it: the bytes from the current position on, the most the
  \<open>n\<close>-th \<open>Read\<close> returns (never nothing before the end), and the reads that fail.
\<close>

record source =
  src_data :: bytes
  src_sched :: "nat \<Rightarrow> nat"
  src_fault :: "nat \<Rightarrow> gerror option"
  src_count :: nat

datatype read_result = ReadEOF | ReadErr gerror | ReadOk bytes

definition src_Read :: "nat \<Rightarrow> source \<Rightarrow> read_result \<times> source" where
  "src_Read k f =
     (let f' = f\<lparr>src_count := Suc (src_count f)\<rparr> in
      case src_fault f (src_count f) of
        Some e \<Rightarrow> (ReadErr e, f')
      | None \<Rightarrow>
          if src_data f = [] then (ReadEOF, f')
          else let n = min k (max 1 (src_sched f (src_count f)))
               in (ReadOk (take n (src_data f)), f'\<lparr>src_data := drop n (src_data f)\<rparr>))"

section \<open>Sending chunks\<close>

text \<open>The variables of \<open>DownloadHandler\<close>: the handler, the file and \<open>chunker.Offset\<close>.\<close>

record 'f dl_state =
  dl_ft :: "'f ft_state"
  dl_src :: source
  dl_off :: int

definition chunk_at :: "ProtoMsg \<Rightarrow> int \<Rightarrow> bytes \<Rightarrow> ProtoMsg" where
  "chunk_at req off b =
     mk_msg (Proto (Header req)) MessageTypeChunk (SessionID (Header req))
       (Some [''offset'' \<mapsto> int64_val off]) b"

definition chunk_Write :: "ProtoMsg \<Rightarrow> bytes \<Rightarrow> 'f dl_state \<Rightarrow> gerror option \<times> 'f dl_state" where
  "chunk_Write req b d =
     (case send (chunk_at req (dl_off d) b) (dl_ft d) of
        (Some e, s) \<Rightarrow> (Some e, d\<lparr>dl_ft := s\<rparr>)
      | (None, s) \<Rightarrow> (None, d\<lparr>dl_ft := s, dl_off := i64 (dl_off d + int (length b))\<rparr>))"

text \<open>
  \<open>io.CopyBuffer\<close> into the chunk writer with buffers of \<open>bufsz\<close> bytes. The limit is that of
  \<open>io.LimitReader\<close>, which cuts the buffer to what is left and then reports the end;
  \<open>None\<close> is the file itself. The result is \<open>written\<close> and the error.
\<close>

definition read_size :: "nat \<Rightarrow> int option \<Rightarrow> nat" where
  "read_size bufsz limit = (case limit of None \<Rightarrow> bufsz | Some l \<Rightarrow> min bufsz (nat l))"

lemma chunk_Write_src: "dl_src (snd (chunk_Write req b d)) = dl_src d"
  by (auto simp: chunk_Write_def split: prod.splits option.splits)

lemma src_Read_ok:
  "src_Read k f = (ReadOk b, f') \<Longrightarrow> 0 < k \<Longrightarrow>
     src_data f = b @ src_data f' \<and> b \<noteq> [] \<and> length b \<le> k \<and>
     src_fault f' = src_fault f \<and> src_sched f' = src_sched f"
  by (auto simp: src_Read_def Let_def split: option.splits if_splits)

lemma CopyBuffer_step:
  "(ReadOk b, f) = src_Read k (dl_src d) \<Longrightarrow> 0 < k \<Longrightarrow>
   (r, d') = chunk_Write req b (d\<lparr>dl_src := f\<rparr>) \<Longrightarrow>
   length (src_data (dl_src d')) < length (src_data (dl_src d))"
  using src_Read_ok [of k "dl_src d" b f] chunk_Write_src [of req b "d\<lparr>dl_src := f\<rparr>"]
  by (cases "chunk_Write req b (d\<lparr>dl_src := f\<rparr>)") auto

function CopyBuffer ::
  "ProtoMsg \<Rightarrow> nat \<Rightarrow> int option \<Rightarrow> int \<Rightarrow> 'f dl_state \<Rightarrow> (int \<times> gerror option) \<times> 'f dl_state"
where
  "CopyBuffer req bufsz limit written d =
     (if read_size bufsz limit = 0 then ((written, None), d)
      else case src_Read (read_size bufsz limit) (dl_src d) of
        (ReadEOF, f) \<Rightarrow> ((written, None), d\<lparr>dl_src := f\<rparr>)
      | (ReadErr e, f) \<Rightarrow> ((written, Some e), d\<lparr>dl_src := f\<rparr>)
      | (ReadOk b, f) \<Rightarrow>
          (case chunk_Write req b (d\<lparr>dl_src := f\<rparr>) of
             (Some e, d) \<Rightarrow> ((written, Some e), d)
           | (None, d) \<Rightarrow>
               CopyBuffer req bufsz (map_option (\<lambda>l. l - int (length b)) limit)
                 (written + int (length b)) d))"
  by pat_completeness auto
termination
  by (relation "measure (\<lambda>(req, bufsz, limit, written, d). length (src_data (dl_src d)))")
     (auto dest: CopyBuffer_step)

declare CopyBuffer.simps [simp del]

section \<open>Acknowledgements\<close>

definition waitAck :: "chan_ev list \<Rightarrow> (gerror + int) \<times> chan_ev list" where
  "waitAck evs =
     (case chan_recv evs of
        None \<Rightarrow> (Inl (Sentinel ErrFileTransferAbort), [])
      | Some (msg, r) \<Rightarrow>
          if MsgType (Header msg) = MessageTypeACK then
            (let offset = (case prop_int64 (Properties (Header msg)) ''offset'' of
                             None \<Rightarrow> -1 | Some off \<Rightarrow> off)
             in if offset < 0
                then (Inl (ErrText ''ack message: offset property cannot be blank''), r)
                else (Inr offset, r))
          else if MsgType (Header msg) = MessageTypeError
          then (Inl (Sentinel ErrFileTransferAbort), r)
          else (Inl (ErrText (''received unexpected message type '' @ apos
                  @ MsgType (Header msg) @ apos @ ''; expected '' @ apos @ ''ack'' @ apos)), r))"

section \<open>The handler\<close>

definition window_bytes :: int where
  "window_bytes = ACKSlidingWindowRecv * int FileTransferBufSize"

text \<open>One turn of the acknowledged protocol up to the wait: the bytes the window has room for
  are sent and counted. The result tells whether the end of the file has been reached.\<close>

definition send_window :: "ProtoMsg \<Rightarrow> int \<Rightarrow> 'f dl_state \<Rightarrow> (gerror + bool) \<times> 'f dl_state" where
  "send_window req ackOffset d =
     (let windowBytes = i64 (ackOffset - dl_off d + window_bytes)
      in if windowBytes > 0 then
           (case CopyBuffer req FileTransferBufSize (Some windowBytes) 0 d of
              ((N, Some e), d) \<Rightarrow> (Inl (Wrapped ''failed to copy file chunk to session'' e), d)
            | ((N, None), d) \<Rightarrow>
                (let (belowLimit, p) = BytesSent (word_of_int N) (ft_permit (dl_ft d));
                     d = d\<lparr>dl_ft := (dl_ft d)\<lparr>ft_permit := p\<rparr>\<rparr>
                 in if \<not> belowLimit then (Inl (Sentinel ErrTxBytesLimitExhausted), d)
                    else (Inr (N < windowBytes), d)))
         else (Inr False, d))"

lemma waitAck_ok:
  "waitAck evs = (Inr off, r) \<Longrightarrow> length r < length evs \<and> 0 \<le> off \<and>
     (\<exists>m. chan_msgs evs = m # chan_msgs r \<and> MsgType (Header m) = MessageTypeACK \<and>
          prop_int64 (Properties (Header m)) ''offset'' = Some off)"
  by (auto simp: waitAck_def Let_def split: option.splits if_splits
        dest: chan_recv_length chan_recv_msgs)

text \<open>The loop leaves with the last acknowledged offset when the end has been reached.\<close>

function send_loop ::
  "ProtoMsg \<Rightarrow> int \<Rightarrow> chan_ev list \<Rightarrow> 'f dl_state \<Rightarrow> (gerror + int) \<times> chan_ev list \<times> 'f dl_state"
where
  "send_loop req ackOffset evs d =
     (case send_window req ackOffset d of
        (Inl e, d) \<Rightarrow> (Inl e, evs, d)
      | (Inr done, d) \<Rightarrow>
          if done then (Inr ackOffset, evs, d)
          else (case waitAck evs of
                  (Inl e, r) \<Rightarrow> (Inl e, r, d)
                | (Inr off, r) \<Rightarrow> send_loop req off r d))"
  by pat_completeness auto
termination
  by (relation "measure (\<lambda>(req, ack, evs, d). length evs)") (auto dest!: waitAck_ok [OF sym])

declare send_loop.simps [simp del]

text \<open>The loop after the last chunk.\<close>

function final_acks ::
  "int \<Rightarrow> int \<Rightarrow> chan_ev list \<Rightarrow> gerror option" where
  "final_acks ackOffset offset evs =
     (if ackOffset < offset then
        (case waitAck evs of
           (Inl e, r) \<Rightarrow> Some e
         | (Inr off, r) \<Rightarrow> final_acks off offset r)
      else None)"
  by pat_completeness auto
termination
  by (relation "measure (\<lambda>(ack, offset, evs). length evs)") (auto dest!: waitAck_ok [OF sym])

declare final_acks.simps [simp del]

definition download_cleanup :: "codec \<Rightarrow> ProtoMsg \<Rightarrow> gerror option \<Rightarrow> 'f ft_state \<Rightarrow> 'f ft_state" where
  "download_cleanup cd req err s =
     (let s = (case err of
                 None \<Rightarrow> s
               | Some e \<Rightarrow> if e \<noteq> Sentinel ErrFileTransferAbort then ft_reply_error cd req e s else s)
      in s\<lparr>ft_busy := False\<rparr>)"

text \<open>
  The body between the declarations and the deferred function. \<open>bufsz\<close> is the buffer
  \<open>io.CopyBuffer\<close> uses when it is handed the file itself: since Go 1.22 \<open>os.File\<close> has a
  \<open>WriteTo\<close> method, which \<open>CopyBuffer\<close> prefers to the buffer it was given.
\<close>

definition download_body ::
  "nat \<Rightarrow> ProtoMsg \<Rightarrow> chan_ev list \<Rightarrow> 'f dl_state \<Rightarrow> gerror option \<times> 'f dl_state" where
  "download_body bufsz req evs d =
     (case (if Proto (Header req) = ProtoTypeFileTransferV2
            then (case CopyBuffer req bufsz None 0 d of
                ((_, Some e), d) \<Rightarrow> (Inl e, evs, d)
              | ((_, None), d) \<Rightarrow> (Inr (dl_off d), evs, d))
            else send_loop req 0 evs d) of
        (Inl e, _, d) \<Rightarrow> (Some e, d)
      | (Inr ackOffset, evs, d) \<Rightarrow>
          (case chunk_Write req [] d of
             (Some e, d) \<Rightarrow> (Some e, d)
           | (None, d) \<Rightarrow> (final_acks ackOffset (dl_off d) evs, d)))"

definition DownloadHandler ::
  "codec \<Rightarrow> nat \<Rightarrow> source \<Rightarrow> ProtoMsg \<Rightarrow> chan_ev list \<Rightarrow> 'f ft_state \<Rightarrow>
     gerror option \<times> 'f ft_state" where
  "DownloadHandler cd bufsz fd req evs s =
     (let (err, d) = download_body bufsz req evs \<lparr>dl_ft = s, dl_src = fd, dl_off = 0\<rparr>
      in (err, download_cleanup cd req err (dl_ft d)))"

section \<open>What the client is sent\<close>

text \<open>
  Offsets and file sizes are \<open>int64\<close> values: \<open>in_range\<close> says that no sum of the two leaves
  that type, as holds for every file the operating system can hold.
\<close>

definition in_range :: "'f dl_state \<Rightarrow> bool" where
  "in_range d \<longleftrightarrow> 0 \<le> dl_off d \<and> dl_off d + int (length (src_data (dl_src d))) < 2 ^ 62"

text \<open>The chunks \<open>ms\<close> have been sent: contiguous from the old offset on, none of them empty,
  in the name of the request, with the bytes the file had next. \<open>rest\<close> is what the file
  holds after them. Nothing but the wire, the file position and the offset has changed.\<close>

definition sent :: "ProtoMsg \<Rightarrow> ProtoMsg list \<Rightarrow> bytes \<Rightarrow> 'f dl_state \<Rightarrow> 'f dl_state \<Rightarrow> bool" where
  "sent req ms rest d d' \<longleftrightarrow>
     ft_out (dl_ft d') = ft_out (dl_ft d) @ ms \<and> chunks_from (dl_off d) ms \<and>
     (\<forall>m \<in> set ms. Body m \<noteq> [] \<and> Proto (Header m) = Proto (Header req) \<and>
        SessionID (Header m) = SessionID (Header req)) \<and>
     dl_off d' = dl_off d + int (length (bodies ms)) \<and>
     src_data (dl_src d) = bodies ms @ rest"

definition same_host :: "'f dl_state \<Rightarrow> 'f dl_state \<Rightarrow> bool" where
  "same_host d d' \<longleftrightarrow>
     wire_fault (ft_wire (dl_ft d')) = wire_fault (ft_wire (dl_ft d)) \<and>
     src_fault (dl_src d') = src_fault (dl_src d) \<and>
     ft_fs (dl_ft d') = ft_fs (dl_ft d) \<and> ft_busy (dl_ft d') = ft_busy (dl_ft d) \<and>
     pm_limits (ft_permit (dl_ft d')) = pm_limits (ft_permit (dl_ft d))"

lemma same_host_refl [simp]: "same_host d d"
  by (simp add: same_host_def)

lemma same_host_trans: "same_host d1 d2 \<Longrightarrow> same_host d2 d3 \<Longrightarrow> same_host d1 d3"
  by (simp add: same_host_def)

lemma sent_Nil: "ft_out (dl_ft d') = ft_out (dl_ft d) \<Longrightarrow> dl_off d' = dl_off d \<Longrightarrow>
   sent req [] (src_data (dl_src d)) d d'"
  by (simp add: sent_def)

lemma sent_append:
  "sent req xs (src_data (dl_src d2)) d1 d2 \<Longrightarrow> sent req ys rest d2 d3 \<Longrightarrow>
   sent req (xs @ ys) rest d1 d3"
  by (auto simp: sent_def)

lemma sent_range: "sent req ms (src_data (dl_src d')) d d' \<Longrightarrow> in_range d \<Longrightarrow> in_range d'"
  by (simp add: sent_def in_range_def)

lemma chunk_at_offset:
  "- (2 ^ 63) \<le> off \<Longrightarrow> off < 2 ^ 63 \<Longrightarrow>
   prop_int64 (Properties (Header (chunk_at req off b))) ''offset'' = Some off"
  by (simp add: chunk_at_def prop_int64_def prop_get_def as_int64_int64_val)

lemma chunk_at_sel [simp]:
  "MsgType (Header (chunk_at req off b)) = MessageTypeChunk"
  "Proto (Header (chunk_at req off b)) = Proto (Header req)"
  "SessionID (Header (chunk_at req off b)) = SessionID (Header req)"
  "Body (chunk_at req off b) = b"
  by (simp_all add: chunk_at_def)

lemma send_wire_fault: "wire_fault (ft_wire (snd (send m s))) = wire_fault (ft_wire s)"
  by (simp add: send_def frame split: prod.splits) (metis WriteProtoMsg_fault snd_conv)

lemma chunk_Write_host: "same_host d (snd (chunk_Write req b d)) \<and>
   ft_permit (dl_ft (snd (chunk_Write req b d))) = ft_permit (dl_ft d) \<and>
   dl_src (snd (chunk_Write req b d)) = dl_src d"
  using send_frame [of "chunk_at req (dl_off d) b" "dl_ft d"]
    send_wire_fault [of "chunk_at req (dl_off d) b" "dl_ft d"]
  by (auto simp: chunk_Write_def same_host_def split: prod.splits option.splits)

lemma chunk_Write_ok:
  assumes "chunk_Write req b d = (None, d')" "0 \<le> dl_off d" "dl_off d + int (length b) < 2 ^ 62"
  shows "ft_out (dl_ft d') = ft_out (dl_ft d) @ [chunk_at req (dl_off d) b] \<and>
     dl_off d' = dl_off d + int (length b) \<and>
     prop_int64 (Properties (Header (chunk_at req (dl_off d) b))) ''offset'' = Some (dl_off d)"
  using assms chunk_at_offset [of "dl_off d" req b]
  by (auto simp: chunk_Write_def split: prod.splits option.splits dest: ftw.wr_ok)

lemma chunk_Write_fail:
  "chunk_Write req b d = (Some e, d') \<Longrightarrow>
     ft_out (dl_ft d') = ft_out (dl_ft d) \<and> dl_off d' = dl_off d"
  by (auto simp: chunk_Write_def split: prod.splits option.splits dest: ftw.wr_fail)

lemma src_Read_frame:
  "src_fault (snd (src_Read k f)) = src_fault f \<and>
   (fst (src_Read k f) = ReadEOF \<longrightarrow> src_data f = []) \<and>
   ((\<forall>b. fst (src_Read k f) \<noteq> ReadOk b) \<longrightarrow> src_data (snd (src_Read k f)) = src_data f)"
  by (auto simp: src_Read_def Let_def split: option.splits)

definition copied ::
  "ProtoMsg \<Rightarrow> int option \<Rightarrow> 'f dl_state \<Rightarrow> int \<Rightarrow> gerror option \<Rightarrow> 'f dl_state \<Rightarrow> bool" where
  "copied req limit d N r d' \<longleftrightarrow>
     same_host d d' \<and> ft_permit (dl_ft d') = ft_permit (dl_ft d) \<and>
     (\<exists>ms rest. sent req ms rest d d' \<and> N = int (length (bodies ms)) \<and>
        (r = None \<longrightarrow> rest = src_data (dl_src d')) \<and>
        (case limit of
           None \<Rightarrow> r = None \<longrightarrow> rest = []
         | Some l \<Rightarrow> N \<le> max 0 l \<and> (r = None \<longrightarrow> N < l \<longrightarrow> rest = [])))"

lemma copied_stop:
  assumes "same_host d d'" "ft_permit (dl_ft d') = ft_permit (dl_ft d)"
    "ft_out (dl_ft d') = ft_out (dl_ft d)" "dl_off d' = dl_off d"
    "r = None \<Longrightarrow> src_data (dl_src d') = src_data (dl_src d) \<and>
       (src_data (dl_src d) = [] \<or> (\<exists>l. limit = Some l \<and> l \<le> 0))"
  shows "copied req limit d 0 r d'"
  unfolding copied_def
  by (intro conjI exI [of _ "[]"] exI [of _ "src_data (dl_src d)"])
     (use assms in \<open>auto simp: sent_def split: option.splits\<close>)

lemma copied_Cons:
  assumes "sent req [m] (src_data (dl_src d1)) d d1" "same_host d d1"
    "ft_permit (dl_ft d1) = ft_permit (dl_ft d)"
    "copied req (map_option (\<lambda>l. l - int (length (Body m))) limit) d1 (N - int (length (Body m))) r d'"
    and lim: "\<And>l. limit = Some l \<Longrightarrow> int (length (Body m)) \<le> l"
  shows "copied req limit d N r d'"
proof -
  from assms(4) obtain ms rest where ms: "same_host d1 d'"
    "ft_permit (dl_ft d') = ft_permit (dl_ft d1)" "sent req ms rest d1 d'"
    "N - int (length (Body m)) = int (length (bodies ms))"
    "r = None \<longrightarrow> rest = src_data (dl_src d')"
    "case map_option (\<lambda>l. l - int (length (Body m))) limit of None \<Rightarrow> r = None \<longrightarrow> rest = []
     | Some l \<Rightarrow> N - int (length (Body m)) \<le> max 0 l \<and>
         (r = None \<longrightarrow> N - int (length (Body m)) < l \<longrightarrow> rest = [])"
    unfolding copied_def by blast
  have "sent req (m # ms) rest d d'" using sent_append [OF assms(1) ms(3)] by simp
  moreover have "case limit of None \<Rightarrow> r = None \<longrightarrow> rest = []
     | Some l \<Rightarrow> N \<le> max 0 l \<and> (r = None \<longrightarrow> N < l \<longrightarrow> rest = [])"
    using ms(6) lim by (auto split: option.splits)
  moreover have "N = int (length (bodies (m # ms)))" using ms(4) by simp
  ultimately show ?thesis
    unfolding copied_def using same_host_trans [OF assms(2) ms(1)] assms(3) ms(2,5)
    by (intro conjI exI [of _ "m # ms"] exI [of _ rest]) (assumption | simp)+
qed

lemma CopyBuffer_copied:
  assumes "CopyBuffer req bufsz limit w d = ((N, r), d')" "in_range d" "0 < bufsz"
  shows "copied req limit d (N - w) r d'"
  using assms
proof (induction req bufsz limit w d arbitrary: N r d' rule: CopyBuffer.induct)
  case (1 req bufsz limit w d)
  let ?k = "read_size bufsz limit"
  show ?case
  proof (cases "?k = 0")
    case True
    with 1(2,4) show ?thesis
      by (auto simp: CopyBuffer.simps read_size_def split: option.splits intro!: copied_stop)
  next
    case k: False
    obtain res f where rd: "src_Read ?k (dl_src d) = (res, f)" by fastforce
    note fr = src_Read_frame [of ?k "dl_src d", unfolded rd]
    show ?thesis
    proof (cases "\<exists>b. res = ReadOk b")
      case False
      with 1(2) k rd fr show ?thesis
        by (cases res)
           (auto simp: CopyBuffer.simps same_host_def intro!: copied_stop)
    next
      case True
      then obtain b where b: "res = ReadOk b" by blast
      have data: "src_data (dl_src d) = b @ src_data f" "b \<noteq> []" "length b \<le> ?k"
        "src_fault f = src_fault (dl_src d)"
        using src_Read_ok [OF rd [unfolded b]] k by simp_all
      let ?d = "d\<lparr>dl_src := f\<rparr>"
      have rng: "0 \<le> dl_off ?d" "dl_off ?d + int (length b) < 2 ^ 62"
        using 1(3) data(1) by (simp_all add: in_range_def)
      obtain q d1 where cw: "chunk_Write req b ?d = (q, d1)" by fastforce
      have hd: "same_host d d1" "ft_permit (dl_ft d1) = ft_permit (dl_ft d)" "dl_src d1 = f"
        using chunk_Write_host [of ?d req b, unfolded cw] data(4) by (simp_all add: same_host_def)
      show ?thesis
      proof (cases q)
        case (Some e)
        then show ?thesis
          using 1(2) k rd b cw hd(1,2) chunk_Write_fail [of req b ?d e d1]
          by (auto simp: CopyBuffer.simps intro!: copied_stop)
      next
        case None
        have run: "CopyBuffer req bufsz (map_option (\<lambda>l. l - int (length b)) limit)
            (w + int (length b)) d1 = ((N, r), d')"
          using 1(2) k rd b cw None by (simp add: CopyBuffer.simps)
        have one: "sent req [chunk_at req (dl_off d) b] (src_data (dl_src d1)) d d1"
          using chunk_Write_ok [OF cw [unfolded None] rng] data hd(3) by (simp add: sent_def)
        have "copied req (map_option (\<lambda>l. l - int (length b)) limit) d1 (N - w - int (length b)) r d'"
          using 1(1) [OF k rd [symmetric] b cw [symmetric] None run sent_range [OF one 1(3)] 1(4)]
          by (simp add: algebra_simps)
        moreover have "int (length b) \<le> l" if "limit = Some l" for l
          using data(2,3) that by (cases "0 \<le> l") (auto simp: read_size_def)
        ultimately show ?thesis
          by (intro copied_Cons [OF one hd(1,2)]) simp_all
      qed
    qed
  qed
qed


section \<open>The acknowledged protocol\<close>

definition acks_below :: "int \<Rightarrow> chan_ev list \<Rightarrow> bool" where
  "acks_below A evs \<longleftrightarrow>
     (\<forall>m \<in> set (chan_msgs evs). \<forall>off. prop_int64 (Properties (Header m)) ''offset'' = Some off \<longrightarrow> off \<le> A)"

lemma window_bytes_eq: "window_bytes = 81920"
  by (simp add: window_bytes_def ACKSlidingWindowRecv_def FileTransferBufSize_def)

text \<open>What a part of the loop has done: \<open>ns\<close> are the sizes counted, and they add up to the
  bytes sent unless an error ended it.\<close>

definition advanced ::
  "ProtoMsg \<Rightarrow> 'f dl_state \<Rightarrow> bool \<Rightarrow> 'f dl_state \<Rightarrow> bool" where
  "advanced req d ok d' \<longleftrightarrow>
     same_host d d' \<and>
     (\<exists>ms rest ns. sent req ms rest d d' \<and>
        ft_permit (dl_ft d') = tx_device.count_all ns (ft_permit (dl_ft d)) \<and>
        (ok \<longrightarrow> rest = src_data (dl_src d') \<and> sum_list (map unat ns) = length (bodies ms)))"

lemma advancedI:
  "same_host d d' \<Longrightarrow> sent req ms rest d d' \<Longrightarrow>
   ft_permit (dl_ft d') = tx_device.count_all ns (ft_permit (dl_ft d)) \<Longrightarrow>
   (ok \<Longrightarrow> rest = src_data (dl_src d') \<and> sum_list (map unat ns) = length (bodies ms)) \<Longrightarrow>
   advanced req d ok d'"
  unfolding advanced_def by blast

lemma advanced_trans:
  assumes "advanced req d1 True d2" "advanced req d2 ok d3"
  shows "advanced req d1 ok d3"
proof -
  from assms obtain xs ns ys rest ks where
    "sent req xs (src_data (dl_src d2)) d1 d2"
    "ft_permit (dl_ft d2) = tx_device.count_all ns (ft_permit (dl_ft d1))"
    "sum_list (map unat ns) = length (bodies xs)"
    "sent req ys rest d2 d3"
    "ft_permit (dl_ft d3) = tx_device.count_all ks (ft_permit (dl_ft d2))"
    "ok \<longrightarrow> rest = src_data (dl_src d3) \<and> sum_list (map unat ks) = length (bodies ys)"
    unfolding advanced_def by auto
  moreover have "same_host d1 d3"
    using assms unfolding advanced_def by (blast intro: same_host_trans)
  ultimately show ?thesis unfolding advanced_def
    by (intro conjI exI [of _ "xs @ ys"] exI [of _ rest] exI [of _ "ns @ ks"])
       (auto simp: tx_device.count_all_append intro: sent_append)
qed

lemma advanced_range: "advanced req d True d' \<Longrightarrow> in_range d \<Longrightarrow> in_range d'"
  unfolding advanced_def using sent_range by blast

lemma advanced_refl [simp]: "advanced req d ok d"
  unfolding advanced_def
  by (auto intro!: exI [of _ "[]"] exI [of _ "src_data (dl_src d)"] sent_Nil)

lemma send_window_advanced:
  assumes run: "send_window req ack d = (res, d')" and rng: "in_range d" and ack: "0 \<le> ack"
  shows "advanced req d (isl res = False) d' \<and> dl_off d' \<le> max (dl_off d) (ack + window_bytes) \<and>
     (res = Inr True \<longrightarrow> src_data (dl_src d') = [])"
proof -
  let ?w = "i64 (ack - dl_off d + window_bytes)"
  have "- (2 ^ 63) \<le> ack - dl_off d + window_bytes"
    using rng ack by (simp add: in_range_def window_bytes_eq)
  then have w: "?w \<le> ack - dl_off d + window_bytes" by (rule i64_le)
  show ?thesis
  proof (cases "?w > 0")
    case False
    with run show ?thesis by (auto simp: send_window_def)
  next
    case True
    obtain x d1 where x: "CopyBuffer req FileTransferBufSize (Some ?w) 0 d = (x, d1)"
      by (rule prod.exhaust)
    obtain N r where "x = (N, r)" by (rule prod.exhaust)
    with x have cp: "CopyBuffer req FileTransferBufSize (Some ?w) 0 d = ((N, r), d1)" by simp
    then obtain ms rest where ms: "same_host d d1" "ft_permit (dl_ft d1) = ft_permit (dl_ft d)"
      "sent req ms rest d d1" "N = int (length (bodies ms))" "r = None \<longrightarrow> rest = src_data (dl_src d1)"
      "N \<le> max 0 ?w" "r = None \<longrightarrow> N < ?w \<longrightarrow> rest = []"
      using CopyBuffer_copied [OF cp rng] by (auto simp: copied_def FileTransferBufSize_def)
    have off: "dl_off d1 \<le> max (dl_off d) (ack + window_bytes)"
      using ms(3,4,6) w True by (simp add: sent_def)
    have "length (bodies ms) < 2 ^ 62"
      using ms(3) rng by (simp add: sent_def in_range_def)
    then have N: "unat (word_of_int N :: u64) = length (bodies ms)"
      unfolding ms(4) by (simp add: unsigned_of_nat take_bit_nat_eq_self)
    show ?thesis
    proof (cases r)
      case (Some e)
      with run True cp have "res = Inl (Wrapped ''failed to copy file chunk to session'' e)" "d' = d1"
        by (auto simp: send_window_def Let_def)
      then show ?thesis
        using ms(1-3) off by (simp add: advancedI [of d d1 req ms rest "[]"])
    next
      case None
      obtain ok p where bs: "BytesSent (word_of_int N) (ft_permit (dl_ft d1)) = (ok, p)" by fastforce
      then have p: "p = tx_device.count_all [word_of_int N] (ft_permit (dl_ft d))"
        using ms(2) by simp
      have lim: "pm_limits p = pm_limits (ft_permit (dl_ft d))"
        using BytesSent_frame(1) [of "word_of_int N" "ft_permit (dl_ft d1)"] bs ms(2) by simp
      have d': "d' = d1\<lparr>dl_ft := (dl_ft d1)\<lparr>ft_permit := p\<rparr>\<rparr>"
        and res: "res = (if ok then Inr (N < ?w) else Inl (Sentinel ErrTxBytesLimitExhausted))"
        using run True cp None bs by (auto simp: send_window_def Let_def split: if_splits)
      have "advanced req d True d'"
        by (rule advancedI [of _ _ _ ms rest "[word_of_int N]"])
           (use ms lim N None p in \<open>simp_all add: d' same_host_def sent_def\<close>)
      moreover from this have "advanced req d ok' d'" for ok' unfolding advanced_def by blast
      ultimately show ?thesis
        using off ms(5,7) None res by (auto simp: d')
    qed
  qed
qed


section \<open>A whole download\<close>

definition in_window :: "int \<Rightarrow> chan_ev list \<Rightarrow> 'f dl_state \<Rightarrow> 'f dl_state \<Rightarrow> bool" where
  "in_window ack evs d d' \<longleftrightarrow>
     (\<forall>A. ack \<le> A \<longrightarrow> acks_below A evs \<longrightarrow> dl_off d' \<le> max (dl_off d) (A + window_bytes))"

definition acked :: "int \<Rightarrow> chan_ev list \<Rightarrow> bool" where
  "acked off evs \<longleftrightarrow> (\<exists>m \<in> set (chan_msgs evs). MsgType (Header m) = MessageTypeACK \<and>
     prop_int64 (Properties (Header m)) ''offset'' = Some off)"

lemma waitAck_rest: "waitAck evs = (r, evs') \<Longrightarrow> set (chan_msgs evs') \<subseteq> set (chan_msgs evs)"
  by (auto simp: waitAck_def Let_def split: option.splits if_splits dest: chan_recv_msgs)

lemma send_loop_advanced:
  "send_loop req ack evs d = (res, r, d') \<Longrightarrow> in_range d \<Longrightarrow> 0 \<le> ack \<Longrightarrow>
   advanced req d (\<not> isl res) d' \<and> in_window ack evs d d' \<and>
   set (chan_msgs r) \<subseteq> set (chan_msgs evs) \<and>
   (\<forall>a. res = Inr a \<longrightarrow> src_data (dl_src d') = [] \<and> (a = ack \<or> acked a evs))"
proof (induction req ack evs d arbitrary: res r d' rule: send_loop.induct)
  case (1 req ack evs d)
  obtain q d1 where w: "send_window req ack d = (q, d1)" by fastforce
  note step = send_window_advanced [OF w 1(3,4)]
  have win: "in_window ack evs d d1" using step by (auto simp: in_window_def)
  show ?case
  proof (cases "q = Inr False")
    case False
    with 1(2) w have "r = evs" "d' = d1" "q = Inr True \<and> res = Inr ack \<or> isl q \<and> isl res"
      by (auto simp: send_loop.simps split: sum.splits if_splits)
    with step win show ?thesis by auto
  next
    case True
    with step have adv: "advanced req d True d1" by simp
    show ?thesis
    proof (cases "waitAck evs")
      case (Pair a evs')
      show ?thesis
      proof (cases a)
        case (Inl e)
        with 1(2) w True Pair have "res = Inl e" "r = evs'" "d' = d1"
          by (auto simp: send_loop.simps)
        moreover have "advanced req d False d1"
          using adv unfolding advanced_def by blast
        ultimately show ?thesis using win waitAck_rest [OF Pair] by simp
      next
        case (Inr off)
        with 1(2) w True Pair have run: "send_loop req off evs' d1 = (res, r, d')"
          by (simp add: send_loop.simps)
        from waitAck_ok Pair Inr obtain m where m: "0 \<le> off" "chan_msgs evs = m # chan_msgs evs'"
          "MsgType (Header m) = MessageTypeACK"
          "prop_int64 (Properties (Header m)) ''offset'' = Some off" by blast
        have ih: "advanced req d1 (\<not> isl res) d'" "in_window off evs' d1 d'"
          "set (chan_msgs r) \<subseteq> set (chan_msgs evs')"
          "\<forall>a. res = Inr a \<longrightarrow> src_data (dl_src d') = [] \<and> (a = off \<or> acked a evs')"
          using 1(1) [OF w [symmetric] True _ Pair [symmetric] Inr run] advanced_range [OF adv 1(3)] m(1)
          by auto
        have "in_window ack evs d d'"
          using win ih(2) m(2,4) by (fastforce simp: in_window_def acks_below_def)
        moreover have "advanced req d (\<not> isl res) d'"
          by (rule advanced_trans [OF adv ih(1)])
        ultimately show ?thesis using ih(3,4) m by (auto simp: acked_def)
      qed
    qed
  qed
qed

lemma acked_step: "waitAck evs = (Inr off, r) \<Longrightarrow> acked off evs \<and> (acked a r \<longrightarrow> acked a evs)"
  by (auto simp: acked_def dest!: waitAck_ok)

lemma final_acks_done:
  "final_acks ack offset evs = None \<Longrightarrow> offset \<le> ack \<or> (\<exists>a. acked a evs \<and> offset \<le> a)"
proof (induction ack offset evs rule: final_acks.induct)
  case (1 ack offset evs)
  show ?case
  proof (cases "offset \<le> ack")
    case False
    with 1(2) obtain off r where r: "waitAck evs = (Inr off, r)" "final_acks off offset r = None"
      by (auto simp: final_acks.simps [of ack] split: prod.splits sum.splits)
    with False have "offset \<le> off \<or> (\<exists>a. acked a r \<and> offset \<le> a)"
      by (intro 1(1)) simp_all
    with acked_step [OF r(1)] show ?thesis by blast
  qed simp
qed

lemma download_phases:
  assumes run: "download_body bufsz req evs d = (err, d')" and rng: "in_range d" and sz: "0 < bufsz"
    and z: "dl_off d = 0"
  obtains (failed) ms rest ns where
      "err \<noteq> None" "sent req ms rest d d'" "same_host d d'"
      "ft_permit (dl_ft d') = tx_device.count_all ns (ft_permit (dl_ft d))"
      "Proto (Header req) = ProtoTypeFileTransferV2 \<longrightarrow> ns = []"
      "Proto (Header req) \<noteq> ProtoTypeFileTransferV2 \<longrightarrow> in_window 0 evs d d'"
  | (eof) d1 ms ns q ack r where
      "sent req ms [] d d1" "same_host d d1" "chunk_Write req [] d1 = (q, d')"
      "err = (case q of Some e \<Rightarrow> Some e | None \<Rightarrow> final_acks ack (dl_off d') r)"
      "ft_permit (dl_ft d1) = tx_device.count_all ns (ft_permit (dl_ft d))"
      "Proto (Header req) = ProtoTypeFileTransferV2 \<longrightarrow> ns = []"
      "Proto (Header req) \<noteq> ProtoTypeFileTransferV2 \<longrightarrow> in_window 0 evs d d1 \<and>
         sum_list (map unat ns) = length (bodies ms) \<and> (ack = 0 \<or> acked ack evs) \<and>
         set (chan_msgs r) \<subseteq> set (chan_msgs evs)"
proof (cases "Proto (Header req) = ProtoTypeFileTransferV2")
  case True
  obtain N q d1 where cp: "CopyBuffer req bufsz None 0 d = ((N, q), d1)"
    by (rule prod.exhaust [of "CopyBuffer req bufsz None 0 d"]) (metis prod.exhaust)
  from CopyBuffer_copied [OF cp rng sz] obtain ms rest where ms: "same_host d d1"
    "ft_permit (dl_ft d1) = ft_permit (dl_ft d)" "sent req ms rest d d1" "q = None \<longrightarrow> rest = []"
    by (auto simp: copied_def)
  show thesis
  proof (cases q)
    case (Some e)
    with run True cp have "err = Some e" "d' = d1" by (auto simp: download_body_def)
    with ms True show thesis by (intro failed [of ms rest "[]"]) auto
  next
    case None
    obtain c d2 where cw: "chunk_Write req [] d1 = (c, d2)" by fastforce
    with run True cp None have "err = (case c of Some e \<Rightarrow> Some e | None \<Rightarrow> final_acks (dl_off d1) (dl_off d2) evs)"
      "d' = d2" by (auto simp: download_body_def split: option.splits)
    with ms True None cw show thesis by (intro eof [of ms d1 c "dl_off d1" evs "[]"]) auto
  qed
next
  case False
  obtain res r d1 where sl: "send_loop req 0 evs d = (res, r, d1)" by (rule prod_cases3)
  note adv = send_loop_advanced [OF sl rng order_refl]
  then obtain ms rest ns where ms: "same_host d d1" "sent req ms rest d d1"
    "ft_permit (dl_ft d1) = tx_device.count_all ns (ft_permit (dl_ft d))"
    "\<not> isl res \<longrightarrow> rest = src_data (dl_src d1) \<and> sum_list (map unat ns) = length (bodies ms)"
    unfolding advanced_def by blast
  show thesis
  proof (cases res)
    case (Inl e)
    with run False sl have "err = Some e" "d' = d1" by (auto simp: download_body_def)
    with ms False adv show thesis by (intro failed [of ms rest ns]) auto
  next
    case (Inr ack)
    obtain c d2 where cw: "chunk_Write req [] d1 = (c, d2)" by fastforce
    with run False sl Inr have "err = (case c of Some e \<Rightarrow> Some e | None \<Rightarrow> final_acks ack (dl_off d2) r)"
      "d' = d2" by (auto simp: download_body_def split: option.splits)
    with ms False Inr cw adv show thesis by (intro eof [of ms d1 c ack r ns]) auto
  qed
qed


section \<open>A download nothing stands in the way of\<close>

definition unfaulty :: "'f dl_state \<Rightarrow> bool" where
  "unfaulty d \<longleftrightarrow> reliable (ft_wire (dl_ft d)) \<and> (\<forall>n. src_fault (dl_src d) n = None) \<and>
     \<not> Enabled (pm_limits (ft_permit (dl_ft d)))"

lemma unfaulty_host: "same_host d d' \<Longrightarrow> unfaulty d' = unfaulty d"
  by (simp add: same_host_def unfaulty_def reliable_def)

lemma chunk_Write_unfaulty: "unfaulty d \<Longrightarrow> fst (chunk_Write req b d) = None"
  using send_reliable [of "dl_ft d" "chunk_at req (dl_off d) b"]
  by (auto simp: chunk_Write_def unfaulty_def split: prod.splits option.splits)

lemma CopyBuffer_unfaulty:
  "CopyBuffer req bufsz limit w d = ((N, r), d') \<Longrightarrow> unfaulty d \<Longrightarrow> r = None"
proof (induction req bufsz limit w d arbitrary: N r d' rule: CopyBuffer.induct)
  case (1 req bufsz limit w d)
  let ?k = "read_size bufsz limit"
  obtain res f where rd: "src_Read ?k (dl_src d) = (res, f)" by fastforce
  have "res \<noteq> ReadErr e" for e
    using rd 1(3) by (auto simp: src_Read_def unfaulty_def Let_def split: option.splits if_splits)
  moreover have "r = None" if k: "?k \<noteq> 0" and b: "res = ReadOk b" for b
  proof -
    let ?d = "d\<lparr>dl_src := f\<rparr>"
    obtain q d1 where cw: "chunk_Write req b ?d = (q, d1)" by fastforce
    have "same_host d ?d" using src_Read_ok [OF rd [unfolded b]] k by (simp add: same_host_def)
    then have u: "unfaulty ?d" using 1(3) by (simp add: unfaulty_host)
    then have q: "q = None" using chunk_Write_unfaulty [of ?d req b] cw by simp
    have "same_host ?d d1" using chunk_Write_host [of ?d req b] cw by simp
    with u have "unfaulty d1" by (simp add: unfaulty_host)
    moreover have "CopyBuffer req bufsz (map_option (\<lambda>l. l - int (length b)) limit)
        (w + int (length b)) d1 = ((N, r), d')"
      using 1(2) k rd b cw q by (simp add: CopyBuffer.simps)
    ultimately show ?thesis using 1(1) [OF k rd [symmetric] b cw [symmetric] q] by blast
  qed
  ultimately show ?case
    using 1(2) rd by (cases res; cases "?k = 0") (auto simp: CopyBuffer.simps)
qed

text \<open>The size the file has in total, when \<open>dl_off\<close> of it have been sent.\<close>

definition total :: "'f dl_state \<Rightarrow> int" where
  "total d = dl_off d + int (length (src_data (dl_src d)))"

lemma advanced_total: "advanced req d True d' \<Longrightarrow> total d' = total d"
  by (auto simp: advanced_def sent_def total_def)

lemma send_window_ok:
  assumes "unfaulty d" "in_range d" "0 \<le> ack"
  obtains ok d' where "send_window req ack d = (Inr ok, d')" "advanced req d True d'" "unfaulty d'"
    "ack = total d \<longrightarrow> ok"
proof -
  let ?w = "i64 (ack - dl_off d + window_bytes)"
  obtain res d' where run: "send_window req ack d = (res, d')" by fastforce
  have "\<exists>ok. res = Inr ok \<and> (ack = total d \<longrightarrow> ok)"
  proof (cases "?w > 0")
    case False
    then have "ack \<noteq> total d"
      using assms(2) by (auto simp: total_def in_range_def window_bytes_eq)
    with False run show ?thesis by (auto simp: send_window_def)
  next
    case True
    obtain x d1 where x: "CopyBuffer req FileTransferBufSize (Some ?w) 0 d = (x, d1)"
      by (rule prod.exhaust)
    obtain N r where "x = (N, r)" by (rule prod.exhaust)
    with x have cp: "CopyBuffer req FileTransferBufSize (Some ?w) 0 d = ((N, r), d1)" by simp
    then have r: "r = None" using CopyBuffer_unfaulty assms(1) by blast
    from CopyBuffer_copied [OF cp assms(2)] have c: "copied req (Some ?w) d N r d1"
      by (simp add: FileTransferBufSize_def)
    then have "N \<le> int (length (src_data (dl_src d)))" "pm_limits (ft_permit (dl_ft d1)) = pm_limits (ft_permit (dl_ft d))"
      by (auto simp: copied_def sent_def)
    moreover from this(1) have "ack = total d \<Longrightarrow> N < ?w"
      using assms(2) by (simp add: total_def in_range_def window_bytes_eq)
    moreover from calculation(2) assms(1) have "BytesSent n (ft_permit (dl_ft d1)) = (True, ft_permit (dl_ft d1))" for n
      by (simp add: BytesSent_def unfaulty_def)
    ultimately show ?thesis
      using run True cp r by (auto simp: send_window_def)
  qed
  then obtain ok where ok: "res = Inr ok" "ack = total d \<longrightarrow> ok" by blast
  with send_window_advanced [OF run assms(2,3)] have adv: "advanced req d True d'" by simp
  then have "unfaulty d'" using assms(1) unfaulty_host unfolding advanced_def by blast
  with that run ok adv show thesis by blast
qed

text \<open>A client that acknowledges: offsets that are not negative, the last one the size.\<close>

definition is_ack_of :: "int \<Rightarrow> ProtoMsg \<Rightarrow> bool" where
  "is_ack_of a m \<longleftrightarrow> MsgType (Header m) = MessageTypeACK \<and>
     prop_int64 (Properties (Header m)) ''offset'' = Some a \<and> 0 \<le> a"

definition good_acks :: "int \<Rightarrow> ProtoMsg list \<Rightarrow> bool" where
  "good_acks L ms \<longleftrightarrow> ms \<noteq> [] \<and> (\<forall>m \<in> set ms. \<exists>a. is_ack_of a m) \<and> is_ack_of L (last ms)"

lemma waitAck_good: "is_ack_of a m \<Longrightarrow> waitAck (Recv m # evs) = (Inr a, evs)"
  by (simp add: waitAck_def is_ack_of_def)

lemma good_acks_Cons:
  "good_acks L (m # ms) \<Longrightarrow> \<exists>a. is_ack_of a m \<and> (ms = [] \<and> a = L \<or> good_acks L ms)"
  by (cases ms) (auto simp: good_acks_def is_ack_of_def)

lemma send_loop_ok:
  assumes "unfaulty d" "in_range d" "0 \<le> ack" "total d = L"
    and "ms = [] \<and> ack = L \<or> good_acks L ms"
  shows "\<exists>a r d'. send_loop req ack (map Recv ms) d = (Inr a, map Recv r, d') \<and>
     advanced req d True d' \<and> unfaulty d' \<and> (r = [] \<and> a = L \<or> good_acks L r)"
  using assms
proof (induction ms arbitrary: ack d)
  case Nil
  obtain ok d' where w: "send_window req ack d = (Inr ok, d')" "advanced req d True d'" "unfaulty d'"
    "ack = total d \<longrightarrow> ok" by (rule send_window_ok [OF Nil(1-3)])
  moreover have "ok" using w(4) Nil(4,5) by (auto simp: good_acks_def)
  ultimately show ?case
    using Nil(4,5) by (auto simp: send_loop.simps good_acks_def intro!: exI [of _ "[]"])
next
  case (Cons m ms)
  then have ga: "good_acks L (m # ms)" by simp
  then obtain a where a: "is_ack_of a m" "ms = [] \<and> a = L \<or> good_acks L ms"
    using good_acks_Cons by blast
  obtain ok d1 where w: "send_window req ack d = (Inr ok, d1)" "advanced req d True d1" "unfaulty d1"
    "ack = total d \<longrightarrow> ok" by (rule send_window_ok [OF Cons(2-4)])
  show ?case
  proof (cases ok)
    case True
    with w ga show ?thesis
      by (intro exI [of _ ack] exI [of _ "m # ms"] exI [of _ d1]) (simp add: send_loop.simps)
  next
    case False
    have "0 \<le> a" using a(1) by (simp add: is_ack_of_def)
    from Cons.IH [OF w(3) advanced_range [OF w(2) Cons(3)] this _ a(2)]
    obtain b r d' where ih: "send_loop req a (map Recv ms) d1 = (Inr b, map Recv r, d')"
      "advanced req d1 True d'" "unfaulty d'" "r = [] \<and> b = L \<or> good_acks L r"
      using advanced_total [OF w(2)] Cons(5) by auto
    then show ?thesis
      using w False waitAck_good [OF a(1)] advanced_trans [OF w(2) ih(2)]
      by (intro exI [of _ b] exI [of _ r] exI [of _ d']) (simp add: send_loop.simps [of _ ack])
  qed
qed

lemma final_acks_ok:
  "ms = [] \<and> ack = L \<or> good_acks L ms \<Longrightarrow> final_acks ack L (map Recv ms) = None"
proof (induction ms arbitrary: ack)
  case (Cons m ms)
  then obtain a where "is_ack_of a m" "ms = [] \<and> a = L \<or> good_acks L ms"
    using good_acks_Cons by blast
  with Cons.IH [of a] show ?case by (simp add: final_acks.simps [of ack] waitAck_good)
qed (simp add: final_acks.simps good_acks_def)

lemma download_body_ok:
  assumes "unfaulty d" "in_range d" "0 < bufsz" "dl_off d = 0"
    and "Proto (Header req) = ProtoTypeFileTransferV2 \<or> good_acks (total d) ms"
  shows "fst (download_body bufsz req (map Recv ms) d) = None"
proof (cases "Proto (Header req) = ProtoTypeFileTransferV2")
  case True
  obtain x d1 where x: "CopyBuffer req bufsz None 0 d = (x, d1)" by (rule prod.exhaust)
  obtain N r where "x = (N, r)" by (rule prod.exhaust)
  with x have cp: "CopyBuffer req bufsz None 0 d = ((N, r), d1)" by simp
  then have r: "r = None" using CopyBuffer_unfaulty assms(1) by blast
  from CopyBuffer_copied [OF cp assms(2,3)] r obtain xs where
    c: "same_host d d1" "sent req xs (src_data (dl_src d1)) d d1" by (auto simp: copied_def)
  then have "unfaulty d1" "in_range d1" using assms(1,2) unfaulty_host sent_range by blast+
  then have "\<exists>d2. chunk_Write req [] d1 = (None, d2) \<and> dl_off d2 = dl_off d1"
    using chunk_Write_unfaulty [of d1 req "[]"] chunk_Write_ok [of req "[]" d1]
    by (cases "chunk_Write req [] d1") (auto simp: in_range_def)
  with True cp r show ?thesis by (auto simp: download_body_def final_acks.simps)
next
  case False
  with assms(5) have ga: "good_acks (total d) ms" by simp
  obtain a r d1 where sl: "send_loop req 0 (map Recv ms) d = (Inr a, map Recv r, d1)"
    "advanced req d True d1" "unfaulty d1" "r = [] \<and> a = total d \<or> good_acks (total d) r"
    using send_loop_ok [OF assms(1,2) order_refl refl disjI2 [OF ga], of req] by blast
  have "dl_off d1 = total d"
    using send_loop_advanced [OF sl(1) assms(2) order_refl] advanced_total [OF sl(2)]
    by (simp add: total_def)
  moreover have "in_range d1" by (rule advanced_range [OF sl(2) assms(2)])
  ultimately have "\<exists>d2. chunk_Write req [] d1 = (None, d2) \<and> dl_off d2 = total d"
    using sl(3) chunk_Write_unfaulty [of d1 req "[]"] chunk_Write_ok [of req "[]" d1]
    by (cases "chunk_Write req [] d1") (auto simp: in_range_def)
  with False sl(1) final_acks_ok [OF sl(4)] show ?thesis
    by (auto simp: download_body_def)
qed


section \<open>Properties of a download\<close>

definition start :: "source \<Rightarrow> 'f ft_state \<Rightarrow> 'f dl_state" where
  "start fd s = \<lparr>dl_ft = s, dl_src = fd, dl_off = 0\<rparr>"

lemma start_sel [simp]:
  "dl_ft (start fd s) = s" "dl_src (start fd s) = fd" "dl_off (start fd s) = 0"
  "total (start fd s) = int (length (src_data fd))"
  by (simp_all add: start_def total_def)

lemma DownloadHandler_start:
  "DownloadHandler cd bufsz fd req evs s = (err, s') \<Longrightarrow>
     \<exists>d. download_body bufsz req evs (start fd s) = (err, d) \<and>
         s' = download_cleanup cd req err (dl_ft d)"
  by (auto simp: DownloadHandler_def start_def split: prod.splits)

lemma in_range_start: "int (length (src_data fd)) < 2 ^ 62 \<Longrightarrow> in_range (start fd s)"
  by (simp add: in_range_def)

lemma exI3: "P a b c \<Longrightarrow> \<exists>x y z. P x y z"
  by blast

text \<open>The deferred function sends at most one message, and an error only.\<close>

lemma download_cleanup_out:
  "\<exists>tail. ft_out (download_cleanup cd req err s) = ft_out s @ tail \<and> length tail \<le> 1 \<and>
     (\<forall>m \<in> set tail. MsgType (Header m) = MessageTypeError) \<and> (err = None \<longrightarrow> tail = [])"
proof (cases err)
  case (Some e)
  obtain q s1 where s: "send (ft_error_msg cd req e) s = (q, s1)" by fastforce
  then have "ft_out s1 = ft_out s \<or> ft_out s1 = ft_out s @ [ft_error_msg cd req e]"
    by (cases q) (auto dest: ftw.wr_ok ftw.wr_fail)
  with Some s show ?thesis
    by (auto simp: download_cleanup_def ft_reply_error_def)
qed (simp add: download_cleanup_def)

lemma download_cleanup_frame [frame]:
  "ft_permit (download_cleanup cd req err s) = ft_permit s"
  "ft_fs (download_cleanup cd req err s) = ft_fs s"
  "ft_busy (download_cleanup cd req err s) = False"
  by (simp_all add: download_cleanup_def frame split: option.splits)

lemma chunk_Write_out:
  assumes "chunk_Write req [] d = (q, d')" "0 \<le> dl_off d" "dl_off d < 2 ^ 62"
  shows "ft_out (dl_ft d') = ft_out (dl_ft d) @
       (if q = None then [chunk_at req (dl_off d) []] else []) \<and>
     dl_off d' = dl_off d \<and> chunks_from (dl_off d) [chunk_at req (dl_off d) []]"
  using assms chunk_Write_ok [of req "[]" d d'] chunk_Write_fail [of req "[]" d _ d']
    chunk_at_offset [of "dl_off d" req "[]"]
  by (cases q) auto

lemma chunk_ends:
  "chunks_from z ms \<Longrightarrow> z + int (length (bodies ms)) \<le> B \<Longrightarrow> m \<in> set ms \<Longrightarrow>
   \<exists>off. prop_int64 (Properties (Header m)) ''offset'' = Some off \<and> off + int (length (Body m)) \<le> B"
  by (induction ms arbitrary: z) force+

lemma sent_start:
  "sent req ms [] (start fd s) d \<Longrightarrow> int (length (src_data fd)) < 2 ^ 62 \<Longrightarrow>
     0 \<le> dl_off d \<and> dl_off d < 2 ^ 62 \<and> bodies ms = src_data fd \<and> chunks_from 0 ms"
  by (simp add: sent_def)

text \<open>What a download sends, by the two ways it can end.\<close>

lemma download_sends:
  assumes run: "DownloadHandler cd bufsz fd req evs s = (err, s')" and "0 < bufsz"
    and small: "int (length (src_data fd)) < 2 ^ 62"
  shows "\<exists>ms tail rest. ft_out s' = ft_out s @ ms @ tail \<and> chunks_from 0 ms \<and>
     src_data fd = bodies ms @ rest \<and>
     (\<forall>m \<in> set ms. Proto (Header m) = Proto (Header req) \<and> SessionID (Header m) = SessionID (Header req)) \<and>
     length tail \<le> 1 \<and> (\<forall>m \<in> set tail. MsgType (Header m) = MessageTypeError) \<and>
     (err = None \<longrightarrow> tail = [] \<and> rest = [] \<and> ms \<noteq> [] \<and> Body (last ms) = [] \<and>
        (\<forall>m \<in> set (butlast ms). Body m \<noteq> [])) \<and>
     \<not> ft_busy s' \<and> ft_fs s' = ft_fs s"
proof -
  obtain d where body: "download_body bufsz req evs (start fd s) = (err, d)"
    and s': "s' = download_cleanup cd req err (dl_ft d)" using DownloadHandler_start [OF run] by blast
  obtain tail where tail: "ft_out s' = ft_out (dl_ft d) @ tail" "length tail \<le> 1"
    "\<forall>m \<in> set tail. MsgType (Header m) = MessageTypeError" "err = None \<longrightarrow> tail = []"
    unfolding s' using download_cleanup_out by blast
  note rng = in_range_start [OF small, of s]
  from body rng \<open>0 < bufsz\<close> start_sel(3) show ?thesis
  proof (cases rule: download_phases)
    case (failed ms rest ns)
    with tail show ?thesis
      by (intro exI3 [of _ ms tail rest])
         (auto simp: sent_def same_host_def s' frame)
  next
    case (eof d1 ms ns q ack r)
    note st = sent_start [OF eof(1) small]
    then have w: "ft_out (dl_ft d) = ft_out (dl_ft d1) @ (if q = None then [chunk_at req (dl_off d1) []] else [])"
      "chunks_from (dl_off d1) [chunk_at req (dl_off d1) []]"
      using chunk_Write_out [OF eof(3)] by simp_all
    let ?e = "if q = None then [chunk_at req (dl_off d1) []] else []"
    have "ft_fs (dl_ft d) = ft_fs s"
      using eof(2) chunk_Write_host [of d1 req "[]"] eof(3) by (simp add: same_host_def)
    moreover have "err = None \<longrightarrow> q = None" using eof(4) by (cases q) auto
    ultimately show ?thesis
      using eof(1) w tail st
      by (intro exI3 [of _ "ms @ ?e" tail "[]"])
         (auto simp: sent_def s' frame split: if_splits)
  qed
qed

text \<open>
  C5. Whatever happens, the client is sent a sequence of chunks with contiguous offsets from
  0 on, in the protocol and session of its request, whose bodies are a prefix of the file,
  and after them at most one message, an error. When the handler succeeds the bodies are the
  whole file, the last chunk and no other is empty, and no error is sent. The handler ends
  free for the next transfer and the device's files are as before.
\<close>

theorem download_prefix:
  assumes run: "DownloadHandler cd bufsz fd req evs s = (err, s')" and "0 < bufsz"
    and small: "int (length (src_data fd)) < 2 ^ 62"
  shows "\<exists>ms tail rest. ft_out s' = ft_out s @ ms @ tail \<and> chunks_from 0 ms \<and>
     src_data fd = bodies ms @ rest \<and>
     (\<forall>m \<in> set ms. Proto (Header m) = Proto (Header req) \<and> SessionID (Header m) = SessionID (Header req)) \<and>
     length tail \<le> 1 \<and> (\<forall>m \<in> set tail. MsgType (Header m) = MessageTypeError) \<and>
     (err = None \<longrightarrow> tail = [] \<and> rest = [] \<and> ms \<noteq> [] \<and> Body (last ms) = [] \<and>
        (\<forall>m \<in> set (butlast ms). Body m \<noteq> [])) \<and>
     \<not> ft_busy s' \<and> ft_fs s' = ft_fs s"
  by (rule download_sends [OF assms])

text \<open>
  C13. Version 1 never runs ahead of its client by more than the window: if no
  acknowledgement the client sends exceeds \<open>A\<close>, every chunk ends at most 20 times 4096 bytes
  after \<open>A\<close>.
\<close>

theorem download_window:
  assumes run: "DownloadHandler cd bufsz fd req evs s = (err, s')" and "0 < bufsz"
    and small: "int (length (src_data fd)) < 2 ^ 62"
    and v1: "Proto (Header req) \<noteq> ProtoTypeFileTransferV2" and A: "0 \<le> A" "acks_below A evs"
  shows "\<exists>ms. ft_out s' = ft_out s @ ms \<and>
     (\<forall>m \<in> set ms. MsgType (Header m) = MessageTypeChunk \<longrightarrow>
        (\<exists>off. prop_int64 (Properties (Header m)) ''offset'' = Some off \<and>
           off + int (length (Body m)) \<le> A + 20 * 4096))"
proof -
  obtain d where body: "download_body bufsz req evs (start fd s) = (err, d)"
    and s': "s' = download_cleanup cd req err (dl_ft d)" using DownloadHandler_start [OF run] by blast
  obtain tail where tail: "ft_out s' = ft_out (dl_ft d) @ tail"
    "\<forall>m \<in> set tail. MsgType (Header m) = MessageTypeError"
    unfolding s' using download_cleanup_out by blast
  note rng = in_range_start [OF small, of s]
  from body rng \<open>0 < bufsz\<close> start_sel(3) show ?thesis
  proof (cases rule: download_phases)
    case (failed ms rest ns)
    then have "int (length (bodies ms)) \<le> A + 20 * 4096" "chunks_from 0 ms"
      using v1 A by (auto simp: in_window_def sent_def window_bytes_eq)
    with failed(2) tail chunk_ends [of 0 ms "A + 20 * 4096"] show ?thesis
      by (intro exI [of _ "ms @ tail"]) (auto simp: sent_def)
  next
    case (eof d1 ms ns q ack r)
    then have b: "int (length (bodies ms)) \<le> A + 20 * 4096" "chunks_from 0 ms"
      using v1 A by (auto simp: in_window_def sent_def window_bytes_eq)
    note st = sent_start [OF eof(1) small]
    then have w: "ft_out (dl_ft d) = ft_out (dl_ft d1) @ (if q = None then [chunk_at req (dl_off d1) []] else [])"
      "chunks_from (dl_off d1) [chunk_at req (dl_off d1) []]"
      using chunk_Write_out [OF eof(3)] by simp_all
    let ?e = "if q = None then [chunk_at req (dl_off d1) []] else []"
    have "chunks_from 0 (ms @ ?e)" "length (bodies (ms @ ?e)) = length (bodies ms)"
      using b(2) w eof(1) by (simp_all add: sent_def)
    with chunk_ends [of 0 "ms @ ?e" "A + 20 * 4096"] b(1) eof(1) w tail show ?thesis
      by (intro exI [of _ "(ms @ ?e) @ tail"]) (auto simp: sent_def)
  qed
qed

text \<open>
  C24. Version 1 succeeds only after the client has acknowledged the whole file, unless it is
  empty, and then every byte has been counted: the permit ends as after counting blocks that
  add up to the size of the file.
\<close>

theorem download_confirmed:
  assumes run: "DownloadHandler cd bufsz fd req evs s = (None, s')" and "0 < bufsz"
    and small: "int (length (src_data fd)) < 2 ^ 62"
    and v1: "Proto (Header req) \<noteq> ProtoTypeFileTransferV2"
  shows "(src_data fd = [] \<or> (\<exists>a. acked a evs \<and> int (length (src_data fd)) \<le> a)) \<and>
     (\<exists>ns. ft_permit s' = tx_device.count_all ns (ft_permit s) \<and>
        sum_list (map unat ns) = length (src_data fd))"
proof -
  obtain d where body: "download_body bufsz req evs (start fd s) = (None, d)"
    and s': "s' = download_cleanup cd req None (dl_ft d)" using DownloadHandler_start [OF run] by blast
  note rng = in_range_start [OF small, of s]
  from body rng \<open>0 < bufsz\<close> start_sel(3) show ?thesis
  proof (cases rule: download_phases)
    case (eof d1 ms ns q ack r)
    then have q: "q = None" "final_acks ack (dl_off d) r = None" by (auto split: option.splits)
    have len: "dl_off d = int (length (src_data fd))" "bodies ms = src_data fd"
      using sent_start [OF eof(1) small] chunk_Write_out [OF eof(3)] eof(1) by (auto simp: sent_def)
    have "acked a r \<longrightarrow> acked a evs" for a
      using eof(7) v1 by (auto simp: acked_def)
    with final_acks_done [OF q(2)] eof(7) v1 len have
      "src_data fd = [] \<or> (\<exists>a. acked a evs \<and> int (length (src_data fd)) \<le> a)" by auto
    moreover have "ft_permit (dl_ft d) = tx_device.count_all ns (ft_permit s)"
      using eof(5) chunk_Write_host [of d1 req "[]"] eof(3) by simp
    ultimately show ?thesis
      using eof(7) v1 len by (auto simp: s' frame)
  qed simp
qed

text \<open>
  Version 2 counts nothing: whatever is downloaded, the permit and with it the device's
  byte counters and the rate that limits transfers are as before.
\<close>

theorem download_v2_uncounted:
  assumes run: "DownloadHandler cd bufsz fd req evs s = (err, s')" and "0 < bufsz"
    and small: "int (length (src_data fd)) < 2 ^ 62"
    and v2: "Proto (Header req) = ProtoTypeFileTransferV2"
  shows "ft_permit s' = ft_permit s"
proof -
  obtain d where body: "download_body bufsz req evs (start fd s) = (err, d)"
    and s': "s' = download_cleanup cd req err (dl_ft d)" using DownloadHandler_start [OF run] by blast
  from body in_range_start [OF small, of s] \<open>0 < bufsz\<close> start_sel(3) show ?thesis
  proof (cases rule: download_phases)
    case (failed ms rest ns)
    with v2 show ?thesis by (simp add: s' frame)
  next
    case (eof d1 ms ns q ack r)
    with v2 chunk_Write_host [of d1 req "[]"] show ?thesis by (simp add: s' frame)
  qed
qed

text \<open>
  A download succeeds when nothing stands in its way: with limits off, a file that can be
  read and a connection that can be written, version 2 always ends without error, and
  version 1 for every client whose acknowledgements, of whatever offsets, end with the size
  of the file.
\<close>

theorem download_completes:
  assumes "reliable (ft_wire s)" "\<not> Enabled (pm_limits (ft_permit s))" "\<forall>n. src_fault fd n = None"
    and "0 < bufsz" and "int (length (src_data fd)) < 2 ^ 62"
    and "Proto (Header req) = ProtoTypeFileTransferV2 \<or> good_acks (int (length (src_data fd))) ms"
  shows "fst (DownloadHandler cd bufsz fd req (map Recv ms) s) = None"
proof -
  have "unfaulty (start fd s)" using assms(1-3) by (simp add: unfaulty_def)
  from download_body_ok [OF this in_range_start [OF assms(5)] assms(4)] assms(6)
  have "fst (download_body bufsz req (map Recv ms) (start fd s)) = None" by simp
  then show ?thesis by (simp add: DownloadHandler_def start_def case_prod_beta Let_def)
qed


section \<open>The properties at concrete inputs\<close>

text \<open>A file of three bytes read two bytes at a time, requested over version 1 or 2.\<close>

definition sample_src :: source where
  "sample_src = \<lparr>src_data = ''abc'', src_sched = (\<lambda>_. 2), src_fault = (\<lambda>_. None), src_count = 0\<rparr>"

definition sample_get :: "ProtoType \<Rightarrow> ProtoMsg" where
  "sample_get p = mk_msg p MessageTypeGet ''s1'' None ''/f''"

definition sample_ack :: "int \<Rightarrow> ProtoMsg" where
  "sample_ack a = mk_msg ProtoTypeFileTransfer MessageTypeACK ''s1'' (Some [''offset'' \<mapsto> int64_val a]) []"

lemma sample_dl_sel [simp]:
  "src_data sample_src = ''abc''" "src_fault sample_src n = None"
  "Proto (Header (sample_get p)) = p" "SessionID (Header (sample_get p)) = ''s1''"
  "reliable (ft_wire sample_ft)" "\<not> Enabled (pm_limits (ft_permit sample_ft))"
  by (simp_all add: sample_src_def sample_get_def sample_ft_def sample_permit_def NewPermit_def)

lemma sample_acks: "good_acks 3 [sample_ack 2, sample_ack 3]"
  by (simp add: good_acks_def is_ack_of_def sample_ack_def prop_int64_def prop_get_def as_int64_int64_val)

lemma sample_acks_below: "acks_below 3 [Recv (sample_ack 2), Recv (sample_ack 3)]"
  by (simp add: acks_below_def sample_ack_def prop_int64_def prop_get_def as_int64_int64_val)

theorem download_completes_witness:
  "fst (DownloadHandler sample_codec 4096 sample_src (sample_get ProtoTypeFileTransfer)
     (map Recv [sample_ack 2, sample_ack 3]) sample_ft) = None"
  by (rule download_completes) (simp_all add: sample_acks)

theorem download_prefix_witness:
  "\<exists>s' ms. DownloadHandler sample_codec 4096 sample_src (sample_get ProtoTypeFileTransferV2) [] sample_ft
     = (None, s') \<and> ft_out s' = ft_out sample_ft @ ms \<and> bodies ms = ''abc''"
proof -
  obtain s' where run: "DownloadHandler sample_codec 4096 sample_src
      (sample_get ProtoTypeFileTransferV2) (map Recv []) sample_ft = (None, s')"
    using download_body_ok [of "start sample_src sample_ft" 4096 "sample_get ProtoTypeFileTransferV2" "[]"]
    by (fastforce simp: DownloadHandler_def start_def [symmetric] unfaulty_def in_range_start case_prod_beta Let_def)
  from download_prefix [OF run] show ?thesis using run by auto
qed

theorem download_window_witness:
  "\<exists>ms. ft_out (snd (DownloadHandler sample_codec 4096 sample_src (sample_get ProtoTypeFileTransfer)
      [Recv (sample_ack 2), Recv (sample_ack 3)] sample_ft)) = ft_out sample_ft @ ms \<and>
     (\<forall>m \<in> set ms. MsgType (Header m) = MessageTypeChunk \<longrightarrow>
        (\<exists>off. prop_int64 (Properties (Header m)) ''offset'' = Some off \<and>
           off + int (length (Body m)) \<le> 3 + 20 * 4096))"
  by (rule download_window [where cd = sample_codec and bufsz = 4096 and fd = sample_src
        and req = "sample_get ProtoTypeFileTransfer" and A = 3
        and evs = "[Recv (sample_ack 2), Recv (sample_ack 3)]", OF prod.collapse [symmetric]])
     (simp_all add: sample_acks_below)

theorem download_confirmed_witness:
  "\<exists>s' ns. DownloadHandler sample_codec 4096 sample_src (sample_get ProtoTypeFileTransfer)
      (map Recv [sample_ack 2, sample_ack 3]) sample_ft = (None, s') \<and>
     ft_permit s' = tx_device.count_all ns (ft_permit sample_ft) \<and> sum_list (map unat ns) = 3"
proof -
  obtain s' where run: "DownloadHandler sample_codec 4096 sample_src
      (sample_get ProtoTypeFileTransfer) (map Recv [sample_ack 2, sample_ack 3]) sample_ft = (None, s')"
    using download_body_ok [of "start sample_src sample_ft" 4096 "sample_get ProtoTypeFileTransfer"
        "[sample_ack 2, sample_ack 3]"] sample_acks
    by (fastforce simp: DownloadHandler_def start_def [symmetric] unfaulty_def in_range_start case_prod_beta Let_def)
  from download_confirmed [OF run] show ?thesis using run by auto
qed

theorem download_v2_uncounted_witness:
  "ft_permit (snd (DownloadHandler sample_codec 4096 sample_src (sample_get ProtoTypeFileTransferV2)
     [] (sample_ft\<lparr>ft_permit := (ft_permit sample_ft)\<lparr>pm_limits := \<lparr>Enabled = True,
        lim_ft = zero_FileTransferLimits\<rparr>\<rparr>\<rparr>))) =
   (ft_permit sample_ft)\<lparr>pm_limits := \<lparr>Enabled = True, lim_ft = zero_FileTransferLimits\<rparr>\<rparr>"
  by (subst download_v2_uncounted [OF prod.collapse [symmetric]]) simp_all


end
