(* ===== verification/FtHandler.thy ===== *)
theory FtHandler
  imports FtUpload FtDownload
begin

text \<open>
  The synchronous half of \<open>session/filetransfer.go\<close>: \<open>ServeProtoMsg\<close>, which answers a
  message at once, starts one of the asynchronous handlers, or hands the message to the one
  that runs; with \<open>StatFile\<close>, \<open>InitFileUpload\<close> and \<open>InitFileDownload\<close>. The lemmas show
  which requests start a transfer, and that at most one runs at a time.
\<close>

section \<open>Requests\<close>

text \<open>\<open>Validate\<close> of the three request types (\<open>session/model\<close>): the path is required, and the
  empty string counts as missing.\<close>

definition validate_path :: "string option \<Rightarrow> gerror option" where
  "validate_path p =
     (case p of
        None \<Rightarrow> Some (ErrText ''path: cannot be blank.'')
      | Some s \<Rightarrow> if s = [] then Some (ErrText ''path: cannot be blank.'') else None)"

text \<open>How serving a message ends: with nothing more to do, with the message handed to the
  running handler, with a new handler running, or with a panic.\<close>

datatype serve_end =
    Served | Handed ProtoMsg | StartUpload UploadRequest | StartDownload string source | ServePanic

text \<open>
  What the host answers besides \<open>os_env\<close>: \<open>os.Open\<close> with the file it opens, what closing
  that file reports, and the identity of the process.
\<close>

record ft_host =
  fh_os :: os_env
  fh_Open :: "string \<Rightarrow> gerror + source"
  fh_Close :: "gerror option"
  fh_Getuid :: u32
  fh_Getgid :: u32

section \<open>File information\<close>

definition file_info :: "string \<Rightarrow> stat_info \<Rightarrow> FileInfo" where
  "file_info p st =
     \<lparr>fi_Path = Some p, fi_Size = Some (st_Size st),
      fi_UID = map_option fst (st_Sys st), fi_GID = map_option snd (st_Sys st),
      fi_Mode = Some (st_Mode st), fi_ModTime = Some (st_ModTime st)\<rparr>"

definition StatFile :: "codec \<Rightarrow> os_env \<Rightarrow> ProtoMsg \<Rightarrow> 'f ft_state \<Rightarrow> 'f ft_state" where
  "StatFile cd os msg s =
     (case unm_path cd (Body msg) of
        (_, Some e) \<Rightarrow> ft_reply_error cd msg (Wrapped ''malformed request parameters'' e) s
      | (p, None) \<Rightarrow> (case validate_path p of
          Some e \<Rightarrow> ft_reply_error cd msg (Wrapped ''invalid request parameters'' e) s
        | None \<Rightarrow> (case os_Stat os (the p) of
            Inl e \<Rightarrow> ft_reply_error cd msg
              (Wrapped (''failed to get file info from path '' @ apos @ the p @ apos) e) s
          | Inr st \<Rightarrow> snd (send (mk_msg (Proto (Header msg)) MessageTypeFileInfo
              (SessionID (Header msg)) None (mar_FileInfo cd (file_info (the p) st))) s))))"

section \<open>Starting a download\<close>

text \<open>The body of \<open>InitFileDownload\<close> before its deferred function: an error, a panic, or the
  file to send.\<close>

datatype 'a init_result = InitErr gerror | InitPanic | InitOk 'a

definition download_request ::
  "codec \<Rightarrow> ft_host \<Rightarrow> ProtoMsg \<Rightarrow> 'f ft_state \<Rightarrow> (string \<times> source) init_result \<times> 'f ft_state" where
  "download_request cd h msg s =
     (case unm_path cd (Body msg) of
        (_, Some e) \<Rightarrow> (InitErr (Wrapped ''malformed request parameters'' e), s)
      | (p, None) \<Rightarrow> (case validate_path p of
          Some e \<Rightarrow> (InitErr (Wrapped ''invalid request parameters'' e), s)
        | None \<Rightarrow> (case DownloadFile (fh_os h) (pm_limits (ft_permit s)) (the p) of
            Some e \<Rightarrow> (InitErr (Wrapped ''access denied'' e), s)
          | None \<Rightarrow>
             (let (belowLimit, pm) = BytesSent 0 (ft_permit s);
                  s = s\<lparr>ft_permit := pm\<rparr>
              in if \<not> belowLimit then (InitErr (Sentinel ErrTxBytesLimitExhausted), s)
                 else case fh_Open h (the p) of
                   Inl e \<Rightarrow> (InitErr (Wrapped ''failed to open file for reading'' e), s)
                 | Inr fd \<Rightarrow>
                     if \<not> ft_busy s then (InitOk (the p, fd), s\<lparr>ft_busy := True\<rparr>)
                     else if fh_Close h \<noteq> None then (InitPanic, s)
                     else (InitErr (ErrText ''another file transfer is in progress''), s)))))"

definition InitFileDownload ::
  "codec \<Rightarrow> ft_host \<Rightarrow> ProtoMsg \<Rightarrow> 'f ft_state \<Rightarrow> serve_end \<times> 'f ft_state" where
  "InitFileDownload cd h msg s =
     (case download_request cd h msg s of
        (InitErr e, s) \<Rightarrow> (Served, ft_reply_error cd msg e s)
      | (InitPanic, s) \<Rightarrow> (ServePanic, s)
      | (InitOk (p, fd), s) \<Rightarrow> (StartDownload p fd, s))"

section \<open>Starting an upload\<close>

text \<open>The label \<open>StatAgain\<close>: a directory is replaced by the file of the source's name in it,
  once.\<close>

function stat_target :: "os_env \<Rightarrow> string \<Rightarrow> string option \<Rightarrow> gerror + string \<times> string option" where
  "stat_target os p src =
     (case os_Lstat os p of
        Inl e \<Rightarrow> if \<not> is_not_exist e then Inl (Wrapped ''error checking file location'' e)
                 else Inr (p, src)
      | Inr info \<Rightarrow>
          if mode_IsDir (st_Mode info) then
            (case src of
               Some sp \<Rightarrow> stat_target os (path_Join p (path_Base sp)) None
             | None \<Rightarrow> Inl (ErrText ''conflicting file path: cannot overwrite directory''))
          else if \<not> mode_IsRegular (st_Mode info)
          then Inl (ErrText ''conflicting file path: cannot overwrite irregular file'')
          else Inr (p, src))"
  by pat_completeness auto
termination
  by (relation "measure (\<lambda>(os, p, src). if src = None then 0 else 1)") simp_all

declare stat_target.simps [simp del]

definition default_request :: "ft_host \<Rightarrow> UploadRequest" where
  "default_request h = \<lparr>ur_SrcPath = None, ur_Path = None, ur_Size = None,
     ur_UID = Some (fh_Getuid h), ur_GID = Some (fh_Getgid h), ur_Mode = Some 0x1A4\<rparr>"

definition upload_request ::
  "codec \<Rightarrow> ft_host \<Rightarrow> ProtoMsg \<Rightarrow> 'f ft_state \<Rightarrow> UploadRequest init_result \<times> 'f ft_state" where
  "upload_request cd h msg s =
     (case unm_Upload cd (default_request h) (Body msg) of
        (_, Some e) \<Rightarrow> (InitErr (Wrapped ''malformed request parameters'' e), s)
      | (params, None) \<Rightarrow> (case validate_path (ur_Path params) of
          Some e \<Rightarrow> (InitErr (Wrapped ''invalid request parameters'' e), s)
        | None \<Rightarrow> (case UploadFile (fh_os h) (pm_limits (ft_permit s)) (the (ur_Path params))
                        (ur_Size params) (ur_Mode params) of
            Some e \<Rightarrow> (InitErr (Wrapped ''access denied'' e), s)
          | None \<Rightarrow>
             (let (belowLimit, pm) = BytesReceived 0 (ft_permit s);
                  s = s\<lparr>ft_permit := pm\<rparr>
              in if \<not> belowLimit then (InitErr (Sentinel ErrTxBytesLimitExhausted), s)
                 else case stat_target (fh_os h) (the (ur_Path params)) (ur_SrcPath params) of
                   Inl e \<Rightarrow> (InitErr e, s)
                 | Inr (p, src) \<Rightarrow>
                     if \<not> ft_busy s
                     then (InitOk (params\<lparr>ur_Path := Some p, ur_SrcPath := src\<rparr>), s\<lparr>ft_busy := True\<rparr>)
                     else (InitErr (ErrText ''another file transfer is in progress''), s)))))"

definition InitFileUpload ::
  "codec \<Rightarrow> ft_host \<Rightarrow> ProtoMsg \<Rightarrow> 'f ft_state \<Rightarrow> serve_end \<times> 'f ft_state" where
  "InitFileUpload cd h msg s =
     (case upload_request cd h msg s of
        (InitErr e, s) \<Rightarrow> (Served, ft_reply_error cd msg e s)
      | (InitPanic, s) \<Rightarrow> (ServePanic, s)
      | (InitOk params, s) \<Rightarrow> (StartUpload params, s))"

section \<open>Dispatch\<close>

text \<open>
  \<open>ServeProtoMsg\<close>. The two \<open>select\<close> statements take the mutex when it is free, and when it
  is not wait for the running handler to receive the message; should that handler end
  instead, the mutex becomes free and the first case applies to the state it leaves.
\<close>

definition ServeProtoMsg ::
  "codec \<Rightarrow> ft_host \<Rightarrow> ProtoMsg \<Rightarrow> 'f ft_state \<Rightarrow> serve_end \<times> 'f ft_state" where
  "ServeProtoMsg cd h msg s =
     (let t = MsgType (Header msg) in
      if t = MessageTypePut then InitFileUpload cd h msg s
      else if t = MessageTypeStat then (Served, StatFile cd (fh_os h) msg s)
      else if t = MessageTypeGet then InitFileDownload cd h msg s
      else if t = MessageTypeACK \<or> t = MessageTypeChunk then
        (if \<not> ft_busy s
         then (Served, ft_reply_error cd msg (ErrText ''no file transfer in progress'') s)
         else (Handed msg, s))
      else if t = MessageTypeError then
        (if \<not> ft_busy s
         then (case unm_ft_Error cd (Body msg) of
                 (_, Some e) \<Rightarrow> (Served, s)
               | (erro, None) \<Rightarrow> if fte_Error erro = None then (ServePanic, s) else (Served, s))
         else (Handed msg, s))
      else (Served, ft_reply_error cd msg
              (ErrText (''session: filetransfer message type '' @ apos @ t @ apos @ '' not supported'')) s))"

section \<open>What serving a message does\<close>

lemma BytesSent_0 [simp]: "snd (BytesSent 0 p) = p"
  by (simp add: BytesSent_def saturating_add_def Let_def)

lemma BytesReceived_0 [simp]: "snd (BytesReceived 0 p) = p"
  by (simp add: BytesReceived_def saturating_add_def Let_def)

lemma BytesSent_0_eq: "BytesSent 0 p = (b, p') \<Longrightarrow> p' = p"
  using BytesSent_0 [of p] by simp

lemma BytesReceived_0_eq: "BytesReceived 0 p = (b, p') \<Longrightarrow> p' = p"
  using BytesReceived_0 [of p] by simp

lemmas zero_bytes = BytesSent_0_eq BytesReceived_0_eq

text \<open>A request is refused without a trace, or it takes the mutex.\<close>

lemma download_request_state:
  "download_request cd h msg s = (r, s') \<Longrightarrow>
     (case r of InitOk _ \<Rightarrow> \<not> ft_busy s \<and> s' = s\<lparr>ft_busy := True\<rparr> | _ \<Rightarrow> s' = s)"
  by (auto simp: download_request_def Let_def
        split: prod.splits option.splits sum.splits if_splits dest!: zero_bytes)

lemma upload_request_state:
  "upload_request cd h msg s = (r, s') \<Longrightarrow>
     (case r of InitOk _ \<Rightarrow> \<not> ft_busy s \<and> s' = s\<lparr>ft_busy := True\<rparr>
      | InitErr _ \<Rightarrow> s' = s | InitPanic \<Rightarrow> False)"
  by (auto simp: upload_request_def Let_def
        split: prod.splits option.splits sum.splits if_splits dest!: zero_bytes)

lemma download_request_ok:
  "download_request cd h msg s = (InitOk (p, fd), s') \<Longrightarrow>
     unm_path cd (Body msg) = (Some p, None) \<and> p \<noteq> [] \<and>
     DownloadFile (fh_os h) (pm_limits (ft_permit s)) p = None \<and>
     fst (BytesSent 0 (ft_permit s)) \<and> fh_Open h p = Inr fd"
  by (auto simp: download_request_def validate_path_def Let_def
        split: prod.splits option.splits sum.splits if_splits dest!: zero_bytes)

lemma upload_request_ok:
  "upload_request cd h msg s = (InitOk params, s') \<Longrightarrow>
     \<exists>req p q src. unm_Upload cd (default_request h) (Body msg) = (req, None) \<and>
       ur_Path req = Some p \<and> p \<noteq> [] \<and>
       UploadFile (fh_os h) (pm_limits (ft_permit s)) p (ur_Size req) (ur_Mode req) = None \<and>
       fst (BytesReceived 0 (ft_permit s)) \<and>
       stat_target (fh_os h) p (ur_SrcPath req) = Inr (q, src) \<and>
       params = req\<lparr>ur_Path := Some q, ur_SrcPath := src\<rparr>"
  by (auto simp: upload_request_def validate_path_def Let_def
        split: prod.splits option.splits sum.splits if_splits dest!: zero_bytes)

text \<open>What \<open>StatAgain\<close> settles on: a free name or a regular file, either as requested or
  inside the requested directory.\<close>

lemma stat_target_step:
  "stat_target os p src = Inr (q, src') \<Longrightarrow>
     (case os_Lstat os q of
        Inl e \<Rightarrow> is_not_exist e | Inr i \<Rightarrow> \<not> mode_IsDir (st_Mode i) \<and> mode_IsRegular (st_Mode i)) \<and>
     (q = p \<and> src' = src \<or>
      (\<exists>i sp. os_Lstat os p = Inr i \<and> mode_IsDir (st_Mode i) \<and> src = Some sp \<and>
         q = path_Join p (path_Base sp) \<and> src' = None))"
proof (induction os p src arbitrary: q src' rule: stat_target.induct)
  case (1 os p src)
  show ?case
  proof (cases "os_Lstat os p")
    case (Inl e)
    with 1(2) show ?thesis by (simp add: stat_target.simps split: if_splits)
  next
    case (Inr i)
    show ?thesis
    proof (cases "mode_IsDir (st_Mode i) \<and> src \<noteq> None")
      case True
      then obtain sp where sp: "src = Some sp" by blast
      with True Inr 1(2) have "stat_target os (path_Join p (path_Base sp)) None = Inr (q, src')"
        by (simp add: stat_target.simps [of os p])
      from 1(1) [OF Inr _ sp this] True Inr sp show ?thesis by auto
    next
      case False
      with Inr 1(2) show ?thesis
        by (auto simp: stat_target.simps [of os p] split: if_splits option.splits)
    qed
  qed
qed

text \<open>The replies.\<close>

definition reply_to :: "ProtoMsg \<Rightarrow> ProtoMsg \<Rightarrow> bool" where
  "reply_to msg m \<longleftrightarrow> Proto (Header m) = Proto (Header msg) \<and> SessionID (Header m) = SessionID (Header msg) \<and>
     MsgType (Header m) \<in> {MessageTypeError, MessageTypeFileInfo}"

lemma ft_error_msg_reply: "reply_to msg (ft_error_msg cd msg e)"
  by (simp add: reply_to_def ft_error_msg_def)

lemma ft_reply_error_reply:
  "reliable (ft_wire s) \<Longrightarrow> \<exists>m. ft_out (ft_reply_error cd msg e s) = ft_out s @ [m] \<and> reply_to msg m"
  by (simp add: ft_reply_error_out ft_error_msg_reply)

lemma StatFile_reply:
  "reliable (ft_wire s) \<Longrightarrow> \<exists>m. ft_out (StatFile cd os msg s) = ft_out s @ [m] \<and> reply_to msg m"
  by (auto simp: StatFile_def ft_reply_error_out ft_error_msg_reply send_reliable reply_to_def
        ft_error_msg_def split: option.splits sum.splits prod.splits)

lemma StatFile_frame [frame]:
  "ft_fs (StatFile cd os msg s) = ft_fs s" "ft_permit (StatFile cd os msg s) = ft_permit s"
  "ft_busy (StatFile cd os msg s) = ft_busy s"
  by (auto simp: StatFile_def frame split: option.splits sum.splits prod.splits)

lemma InitFileUpload_cases:
  assumes "InitFileUpload cd h msg s = (r, s')"
  obtains (refused) e where "r = Served" "s' = ft_reply_error cd msg e s"
  | (started) params where "r = StartUpload params" "\<not> ft_busy s" "s' = s\<lparr>ft_busy := True\<rparr>"
      "fst (upload_request cd h msg s) = InitOk params"
proof (cases "upload_request cd h msg s")
  case (Pair q s1)
  note st = upload_request_state [OF Pair]
  from assms Pair st show thesis
    by (cases q) (auto simp: InitFileUpload_def intro: refused started)
qed

lemma InitFileDownload_cases:
  assumes "InitFileDownload cd h msg s = (r, s')"
  obtains (refused) e where "r = Served" "s' = ft_reply_error cd msg e s"
  | (panic) "r = ServePanic" "s' = s"
  | (started) p fd where "r = StartDownload p fd" "\<not> ft_busy s" "s' = s\<lparr>ft_busy := True\<rparr>"
      "fst (download_request cd h msg s) = InitOk (p, fd)"
proof (cases "download_request cd h msg s")
  case (Pair q s1)
  note st = download_request_state [OF Pair]
  from assms Pair st show thesis
    by (cases q) (auto simp: InitFileDownload_def intro: refused panic started)
qed


section \<open>Properties of the handler\<close>

lemma ServeProtoMsg_cases:
  assumes "ServeProtoMsg cd h msg s = (r, s')"
  obtains (put) "MsgType (Header msg) = MessageTypePut" "InitFileUpload cd h msg s = (r, s')"
  | (get) "MsgType (Header msg) = MessageTypeGet" "InitFileDownload cd h msg s = (r, s')"
  | (stat) "r = Served" "s' = StatFile cd (fh_os h) msg s"
  | (idle) e where "r = Served" "s' = ft_reply_error cd msg e s"
  | (handed) "r = Handed msg" "ft_busy s" "s' = s"
  | (logged) "MsgType (Header msg) = MessageTypeError" "r = Served \<or> r = ServePanic" "s' = s"
proof -
  let ?t = "MsgType (Header msg)"
  consider "?t = MessageTypePut" | "?t = MessageTypeGet" | "?t = MessageTypeStat"
    | "?t = MessageTypeACK \<or> ?t = MessageTypeChunk" | "?t = MessageTypeError"
    | "?t \<notin> {MessageTypePut, MessageTypeGet, MessageTypeStat, MessageTypeACK, MessageTypeChunk, MessageTypeError}"
    by blast
  then show thesis
  proof cases
    case 1
    with assms put show thesis by (simp add: ServeProtoMsg_def)
  next
    case 2
    with assms get show thesis by (simp add: ServeProtoMsg_def)
  next
    case 3
    with assms stat show thesis by (simp add: ServeProtoMsg_def)
  next
    case 4
    then have t: "?t \<noteq> MessageTypePut" "?t \<noteq> MessageTypeStat" "?t \<noteq> MessageTypeGet" by auto
    show thesis
    proof (cases "ft_busy s")
      case True
      with assms 4 t have "r = Handed msg" "s' = s" by (simp_all add: ServeProtoMsg_def)
      with True show thesis by (intro handed)
    next
      case False
      with assms 4 t have "r = Served"
        "s' = ft_reply_error cd msg (ErrText ''no file transfer in progress'') s"
        by (simp_all add: ServeProtoMsg_def)
      then show thesis by (rule idle)
    qed
  next
    case 5
    show thesis
    proof (cases "ft_busy s")
      case True
      with assms 5 have "r = Handed msg" "s' = s" by (simp_all add: ServeProtoMsg_def)
      with True show thesis by (intro handed)
    next
      case False
      obtain erro q where u: "unm_ft_Error cd (Body msg) = (erro, q)" by (rule prod.exhaust)
      with assms 5 False have "r = Served \<or> r = ServePanic" "s' = s"
        by (cases q; simp add: ServeProtoMsg_def split: if_splits)+
      with 5 show thesis by (intro logged)
    qed
  next
    case 6
    then have "?t \<noteq> MessageTypePut" "?t \<noteq> MessageTypeStat" "?t \<noteq> MessageTypeGet"
      "?t \<noteq> MessageTypeACK" "?t \<noteq> MessageTypeChunk" "?t \<noteq> MessageTypeError" by auto
    with assms have "r = Served" "s' = ft_reply_error cd msg (ErrText
        (''session: filetransfer message type '' @ apos @ ?t @ apos @ '' not supported'')) s"
      by (simp_all add: ServeProtoMsg_def)
    then show thesis by (rule idle)
  qed
qed

text \<open>
  C19. One transfer at a time: a message starts a transfer only when none is running, and the
  handler is then taken; a message is handed over only to a running transfer and then nothing
  else happens; and in every other case the handler stays as free or as taken as it was.
\<close>

theorem one_transfer:
  assumes "ServeProtoMsg cd h msg s = (r, s')"
  shows "case r of
       StartUpload _ \<Rightarrow> \<not> ft_busy s \<and> ft_busy s'
     | StartDownload _ _ \<Rightarrow> \<not> ft_busy s \<and> ft_busy s'
     | Handed m \<Rightarrow> ft_busy s \<and> m = msg \<and> s' = s
     | _ \<Rightarrow> ft_busy s' = ft_busy s"
  using assms
proof (cases rule: ServeProtoMsg_cases)
  case put
  from put(2) show ?thesis by (cases rule: InitFileUpload_cases) (simp_all add: frame)
next
  case get
  from get(2) show ?thesis by (cases rule: InitFileDownload_cases) (simp_all add: frame)
qed (auto simp: frame)

text \<open>
  C21. An upload starts only for a decodable request whose path the permit admits while the
  rate is below its limit, and only onto a free name or a regular file: the requested path
  itself, or the source's base name in the requested directory.
\<close>

theorem upload_admission:
  assumes "ServeProtoMsg cd h msg s = (StartUpload params, s')"
  shows "\<exists>req p q. unm_Upload cd (default_request h) (Body msg) = (req, None) \<and>
     ur_Path req = Some p \<and> p \<noteq> [] \<and> ur_Path params = Some q \<and>
     UploadFile (fh_os h) (pm_limits (ft_permit s)) p (ur_Size req) (ur_Mode req) = None \<and>
     fst (BytesReceived 0 (ft_permit s)) \<and>
     (case os_Lstat (fh_os h) q of
        Inl e \<Rightarrow> is_not_exist e | Inr i \<Rightarrow> mode_IsRegular (st_Mode i)) \<and>
     (q = p \<or> (\<exists>sp i. ur_SrcPath req = Some sp \<and> q = path_Join p (path_Base sp) \<and>
        os_Lstat (fh_os h) p = Inr i \<and> mode_IsDir (st_Mode i)))"
proof -
  have "InitFileUpload cd h msg s = (StartUpload params, s')"
    using assms by (cases rule: ServeProtoMsg_cases) (auto elim: InitFileDownload_cases)
  then obtain s1 where "upload_request cd h msg s = (InitOk params, s1)"
    by (cases "upload_request cd h msg s")
       (auto simp: InitFileUpload_def split: init_result.splits)
  from upload_request_ok [OF this] obtain req p q src where r:
    "unm_Upload cd (default_request h) (Body msg) = (req, None)" "ur_Path req = Some p" "p \<noteq> []"
    "UploadFile (fh_os h) (pm_limits (ft_permit s)) p (ur_Size req) (ur_Mode req) = None"
    "fst (BytesReceived 0 (ft_permit s))" "stat_target (fh_os h) p (ur_SrcPath req) = Inr (q, src)"
    "params = req\<lparr>ur_Path := Some q, ur_SrcPath := src\<rparr>" by blast
  from stat_target_step [OF r(6)] r(1-5,7) show ?thesis
    by (intro exI3 [of _ req p q]) (auto split: sum.splits)
qed

text \<open>
  C22. A download starts only for a decodable request whose path the permit admits while the
  rate is below its limit, and sends the file that this very path opens.
\<close>

theorem download_admission:
  assumes "ServeProtoMsg cd h msg s = (StartDownload p fd, s')"
  shows "unm_path cd (Body msg) = (Some p, None) \<and> p \<noteq> [] \<and>
     DownloadFile (fh_os h) (pm_limits (ft_permit s)) p = None \<and>
     fst (BytesSent 0 (ft_permit s)) \<and> fh_Open h p = Inr fd"
proof -
  have "InitFileDownload cd h msg s = (StartDownload p fd, s')"
    using assms by (cases rule: ServeProtoMsg_cases) (auto elim: InitFileUpload_cases)
  then obtain s1 where "download_request cd h msg s = (InitOk (p, fd), s1)"
    by (cases "download_request cd h msg s")
       (auto simp: InitFileDownload_def split: init_result.splits)
  then show ?thesis by (rule download_request_ok)
qed

text \<open>
  A message served on the spot is answered exactly once, with an error or the requested
  file information, in the protocol and session it came in; the files and the counters of
  the device are not touched. Only an error from the client is never answered.
\<close>

theorem served_answered_once:
  assumes "ServeProtoMsg cd h msg s = (Served, s')" and "reliable (ft_wire s)"
    and "MsgType (Header msg) \<noteq> MessageTypeError"
  shows "\<exists>m. ft_out s' = ft_out s @ [m] \<and> reply_to msg m \<and> ft_fs s' = ft_fs s \<and>
     ft_permit s' = ft_permit s"
  using assms(1)
proof (cases rule: ServeProtoMsg_cases)
  case put
  from put(2) show ?thesis
    by (cases rule: InitFileUpload_cases) (use ft_reply_error_reply [OF assms(2)] in \<open>auto simp: frame\<close>)
next
  case get
  from get(2) show ?thesis
    by (cases rule: InitFileDownload_cases) (use ft_reply_error_reply [OF assms(2)] in \<open>auto simp: frame\<close>)
next
  case stat
  then show ?thesis using StatFile_reply [OF assms(2)] by (auto simp: frame)
next
  case (idle e)
  then show ?thesis using ft_reply_error_reply [OF assms(2)] by (auto simp: frame)
qed (use assms(3) in auto)

text \<open>
  An error message without a text, arriving while no transfer runs, makes the handler
  panic: the missing text is dereferenced to log it. The panic ends the client's session.
\<close>

theorem blank_error_panics:
  assumes "MsgType (Header msg) = MessageTypeError" and "\<not> ft_busy s"
    and "unm_ft_Error cd (Body msg) = (erro, None)" and "fte_Error erro = None"
  shows "fst (ServeProtoMsg cd h msg s) = ServePanic"
  using assms by (simp add: ServeProtoMsg_def)

text \<open>
  A host with one directory, owned by user 0, that holds one file, owned by user 1.
\<close>

definition dir_os :: os_env where
  "dir_os = sample_os\<lparr>
     os_Stat := (\<lambda>p. if p = ''/d'' then Inr \<lparr>st_Mode = ModeDir, st_Size = 0, st_ModTime = 0, st_Sys = Some (0, 0)\<rparr>
                     else Inr \<lparr>st_Mode = 0x1A4, st_Size = 3, st_ModTime = 0, st_Sys = Some (1, 1)\<rparr>),
     os_Lstat := (\<lambda>p. if p = ''/d'' then Inr \<lparr>st_Mode = ModeDir, st_Size = 0, st_ModTime = 0, st_Sys = Some (0, 0)\<rparr>
                     else Inr \<lparr>st_Mode = 0x1A4, st_Size = 3, st_ModTime = 0, st_Sys = Some (1, 1)\<rparr>),
     user_LookupId := (\<lambda>u. Inr (if u = ''0'' then ''root'' else ''other'', u))\<rparr>"

definition dir_host :: ft_host where
  "dir_host = \<lparr>fh_os = dir_os, fh_Open = (\<lambda>p. Inr sample_src), fh_Close = None, fh_Getuid = 0, fh_Getgid = 0\<rparr>"

definition root_only :: Limits where
  "root_only = \<lparr>Enabled = True, lim_ft = zero_FileTransferLimits\<lparr>
     AllowOverwrite := True, OwnerPut := ''root'', FollowSymLinks := True\<rparr>\<rparr>"

definition dir_ft :: "nat ft_state" where
  "dir_ft = sample_ft\<lparr>ft_busy := False, ft_permit := (ft_permit sample_ft)\<lparr>pm_limits := root_only\<rparr>\<rparr>"

definition src_codec :: codec where
  "src_codec = sample_codec\<lparr>unm_Upload := (\<lambda>u b. (u\<lparr>ur_Path := Some b, ur_SrcPath := Some ''/tmp/f''\<rparr>, None))\<rparr>"

text \<open>
  The permit's checks do not reach a file named through its directory. On a host where
  only files of root may be overwritten, a request that names a directory of root is
  admitted and then redirected to a file in it that belongs to someone else, which the
  permit would have refused.
\<close>

theorem upload_through_directory_unchecked:
  "\<exists>params. fst (ServeProtoMsg src_codec dir_host (mk_msg ProtoTypeFileTransfer MessageTypePut ''s1'' None ''/d'') dir_ft)
       = StartUpload params \<and> ur_Path params = Some ''/d/f'' \<and>
     UploadFile dir_os root_only ''/d/f'' (ur_Size params) (ur_Mode params) = Some (Sentinel ErrFileOwnerMismatch)"
proof -
  have j: "path_Join ''/d'' (path_Base ''/tmp/f'') = ''/d/f''" by code_simp
  have i: "itoa 0 = ''0''" "itoa 1 = ''1''" by code_simp+
  have dir: "mode_IsDir ModeDir" "\<not> mode_IsDir 0x1A4" "mode_IsRegular 0x1A4"
    by (simp_all add: mode_IsDir_def mode_IsRegular_def ModeDir_def ModeType_def)
  have suid: "(0x1A4 :: u32) AND ModeSetuid = 0" by (simp add: ModeSetuid_def)
  note zs = zero_FileTransferLimits_def
  have own: "FileOwnerMatches dir_os ''/d'' ''root''" "\<not> FileOwnerMatches dir_os ''/d/f'' ''root''"
    by (simp_all add: FileOwnerMatches_def FileGetUidGid_def dir_os_def i sample_os_def)
  have ex: "FileExists dir_os p" for p by (simp add: FileExists_def dir_os_def)
  have grp: "FileGroupMatches os p []" for os p by (simp add: FileGroupMatches_def)
  have up: "UploadFile dir_os root_only ''/d'' None (Some 0x1A4) = None"
    "UploadFile dir_os root_only ''/d/f'' None (Some 0x1A4) = Some (Sentinel ErrFileOwnerMismatch)"
    by (simp_all add: UploadFile_def root_only_def zs IsInChroot_def own ex grp suid)
  have ls: "os_Lstat dir_os ''/d'' = Inr \<lparr>st_Mode = ModeDir, st_Size = 0, st_ModTime = 0, st_Sys = Some (0, 0)\<rparr>"
    "os_Lstat dir_os ''/d/f'' = Inr \<lparr>st_Mode = 0x1A4, st_Size = 3, st_ModTime = 0, st_Sys = Some (1, 1)\<rparr>"
    by (simp_all add: dir_os_def)
  have st: "stat_target dir_os ''/d'' (Some ''/tmp/f'') = Inr (''/d/f'', None)"
    using ls by (simp add: stat_target.simps [of dir_os "''/d''"] stat_target.simps [of dir_os "''/d/f''"] j dir)
  have rx: "BytesReceived 0 (ft_permit dir_ft) = (True, ft_permit dir_ft)"
    by (simp add: BytesReceived_def dir_ft_def root_only_def zs saturating_add_def Let_def)
  have sel: "fh_os dir_host = dir_os" "pm_limits (ft_permit dir_ft) = root_only" "\<not> ft_busy dir_ft"
    "unm_Upload src_codec u b = (u\<lparr>ur_Path := Some b, ur_SrcPath := Some ''/tmp/f''\<rparr>, None)" for u b
    by (simp_all add: dir_host_def dir_ft_def src_codec_def)
  show ?thesis
    by (simp add: ServeProtoMsg_def InitFileUpload_def upload_request_def sel
        validate_path_def default_request_def rx up st)
qed

section \<open>The properties at concrete inputs\<close>

definition sample_host :: ft_host where
  "sample_host = \<lparr>fh_os = sample_os, fh_Open = (\<lambda>p. Inr sample_src), fh_Close = None,
     fh_Getuid = 0, fh_Getgid = 0\<rparr>"

definition free_ft :: "nat ft_state" where
  "free_ft = sample_ft\<lparr>ft_busy := False\<rparr>"

lemma serve_sample_get:
  "ServeProtoMsg sample_codec sample_host (sample_get 2) free_ft =
     (StartDownload ''/f'' sample_src, free_ft\<lparr>ft_busy := True\<rparr>)"
  by (simp add: ServeProtoMsg_def InitFileDownload_def download_request_def sample_get_def sample_codec_def
        validate_path_def sample_host_def free_ft_def sample_ft_def DownloadFile_def BytesSent_def
        sample_permit_def NewPermit_def)

lemma serve_sample_put:
  "ServeProtoMsg sample_codec sample_host (sample_get 2\<lparr>Header := (Header (sample_get 2))\<lparr>MsgType := MessageTypePut\<rparr>\<rparr>) free_ft =
     (StartUpload ((default_request sample_host)\<lparr>ur_Path := Some ''/f''\<rparr>), free_ft\<lparr>ft_busy := True\<rparr>)"
  by (simp add: ServeProtoMsg_def InitFileUpload_def upload_request_def sample_get_def sample_codec_def
        validate_path_def sample_host_def free_ft_def sample_ft_def UploadFile_def BytesReceived_def
        sample_permit_def NewPermit_def default_request_def stat_target.simps sample_os_def
        mode_IsDir_def mode_IsRegular_def ModeDir_def ModeType_def mk_msg_def)

theorem one_transfer_witness:
  "ft_busy (snd (ServeProtoMsg sample_codec sample_host (sample_get 2) free_ft))"
  using one_transfer [OF serve_sample_get] by (simp add: serve_sample_get)

theorem download_admission_witness:
  "DownloadFile sample_os (pm_limits (ft_permit free_ft)) ''/f'' = None"
  using download_admission [OF serve_sample_get] by (simp add: sample_host_def)

theorem upload_admission_witness:
  "UploadFile sample_os (pm_limits (ft_permit free_ft)) ''/f'' None (Some 0x1A4) = None"
  using upload_admission [OF serve_sample_put]
  by (auto simp: sample_codec_def default_request_def sample_host_def sample_get_def mk_msg_def)

theorem served_answered_once_witness:
  "\<exists>m. ft_out (snd (ServeProtoMsg sample_codec sample_host (sample_ack 1) free_ft)) = [m] \<and>
     reply_to (sample_ack 1) m"
proof -
  have run: "ServeProtoMsg sample_codec sample_host (sample_ack 1) free_ft = (Served,
    ft_reply_error sample_codec (sample_ack 1) (ErrText ''no file transfer in progress'') free_ft)"
    by (simp add: ServeProtoMsg_def sample_ack_def free_ft_def)
  have "reliable (ft_wire free_ft)" "ft_out free_ft = []" "MsgType (Header (sample_ack 1)) \<noteq> MessageTypeError"
    by (simp_all add: free_ft_def sample_ack_def sample_ft_def good_wire_def reliable_def)
  with served_answered_once [OF run] show ?thesis by (auto simp: run)
qed

theorem blank_error_panics_witness:
  "fst (ServeProtoMsg sample_codec sample_host (mk_msg 2 MessageTypeError ''s1'' None []) free_ft) = ServePanic"
  by (rule blank_error_panics [where erro = "\<lparr>fte_Error = None, fte_MessageType = None\<rparr>"])
     (simp_all add: free_ft_def sample_codec_def)


end
