(* ===== verification/MenderClient.thy ===== *)
theory MenderClient
  imports WsProtocol
begin

text \<open>
  Requests to the update client (\<open>session/menderclient.go\<close>): a message runs the client's
  binary with one of two commands, and is answered with the outcome. The package's \<open>Errors\<close>
  (\<open>session/utils.go\<close>), a list of errors as one, is here too.
\<close>

section \<open>Lists of errors\<close>

fun strings_Join :: "string list \<Rightarrow> string \<Rightarrow> string" where
  "strings_Join [] sep = []"
| "strings_Join [s] sep = s"
| "strings_Join (s # s' # ss) sep = s @ sep @ strings_Join (s' # ss) sep"

definition Errors_Error :: "gerror option list \<Rightarrow> string" where
  "Errors_Error errs = strings_Join (map err_msg (List.map_filter id errs)) ''; ''"

text \<open>\<open>errors.Is\<close> looks through the wrappers of \<open>github.com/pkg/errors\<close>, which support
  unwrapping, for the value itself.\<close>

fun errors_Is :: "gerror \<Rightarrow> gerror \<Rightarrow> bool" where
  "errors_Is (Wrapped m e) target \<longleftrightarrow> Wrapped m e = target \<or> errors_Is e target"
| "errors_Is e target \<longleftrightarrow> e = target"

definition Errors_Is :: "gerror option list \<Rightarrow> gerror \<Rightarrow> bool" where
  "Errors_Is errs target = list_ex (\<lambda>e. case e of None \<Rightarrow> False | Some e \<Rightarrow> errors_Is e target) errs"

lemma Errors_Is_iff: "Errors_Is errs target \<longleftrightarrow> (\<exists>e. Some e \<in> set errs \<and> errors_Is e target)"
  by (force simp: Errors_Is_def list_ex_iff split: option.splits)

lemma errors_Is_cause: "errors_Is e (err_cause e)"
  by (induction e) auto

section \<open>The update client\<close>

text \<open>What the host answers: which paths \<open>os.Stat\<close> finds, and the error of running a
  command.\<close>

record mc_host =
  mh_Stat :: "string \<Rightarrow> bool"
  mh_Run :: "string list \<Rightarrow> gerror option"

definition mc_candidates :: "string list" where
  "mc_candidates = [''/usr/bin/mender-update'', ''/usr/bin/mender'']"

definition getMenderClientBinaryPath :: "mc_host \<Rightarrow> gerror + string" where
  "getMenderClientBinaryPath h =
     (case List.find (mh_Stat h) mc_candidates of
        Some p \<Rightarrow> Inr p
      | None \<Rightarrow> Inl (ErrText (''Cannot find Mender client binary, tried ['' @ strings_Join mc_candidates '' '' @ '']'')))"

definition runCommand :: "mc_host \<Rightarrow> string list \<Rightarrow> gerror option" where
  "runCommand h command =
     (if length command > 0 then mh_Run h command else Some (ErrText ''no command provided''))"

definition mc_command :: "string \<Rightarrow> string" where
  "mc_command t =
     (if t = MessageTypeMenderClientCheckUpdate then ''check-update''
      else if t = MessageTypeMenderClientSendInventory then ''send-inventory''
      else [])"

definition mc_execute :: "mc_host \<Rightarrow> string \<Rightarrow> gerror option" where
  "mc_execute h t =
     (if mc_command t \<noteq> [] then
        (case getMenderClientBinaryPath h of
           Inl e \<Rightarrow> Some e
         | Inr binary \<Rightarrow> runCommand h [binary, mc_command t])
      else Some (ErrText ''unknown message type''))"

definition mc_response :: "ProtoMsg \<Rightarrow> gerror option \<Rightarrow> ProtoMsg" where
  "mc_response m e =
     mk_msg (Proto (Header m)) (MsgType (Header m)) (SessionID (Header m))
       (Some [''status'' \<mapsto> IfInt (case e of None \<Rightarrow> of_nat NormalMessage | Some _ \<Rightarrow> of_nat ErrorMessage)])
       (case e of None \<Rightarrow> [] | Some e \<Rightarrow> err_msg e)"

definition menderClientHandler :: "mc_host \<Rightarrow> ProtoMsg \<Rightarrow> wire \<Rightarrow> wire" where
  "menderClientHandler h m w =
     (let err = mc_execute h (MsgType (Header m))
      in snd (WriteProtoMsg (mc_response m err) w))"

lemma mc_command_cases:
  "mc_command t = [] \<longleftrightarrow> t \<noteq> MessageTypeMenderClientCheckUpdate \<and> t \<noteq> MessageTypeMenderClientSendInventory"
  by (simp add: mc_command_def)

lemma mc_execute_ok:
  "mc_execute h t = None \<Longrightarrow> \<exists>b \<in> set mc_candidates. mh_Stat h b \<and> mc_command t \<noteq> [] \<and> mh_Run h [b, mc_command t] = None"
  by (auto simp: mc_execute_def getMenderClientBinaryPath_def runCommand_def find_Some_iff
        split: if_splits sum.splits option.splits)

text \<open>
  A request to the update client is answered by exactly one message, in the request's
  protocol, type and session. Its status is normal only when an installed binary has been run
  with the request's command and succeeded; otherwise it is an error that says why.
\<close>

theorem update_client_answers:
  assumes "reliable w"
  shows "\<exists>r. wire_out (menderClientHandler h m w) = wire_out w @ [r] \<and>
     Proto (Header r) = Proto (Header m) \<and> MsgType (Header r) = MsgType (Header m) \<and>
     SessionID (Header r) = SessionID (Header m) \<and>
     (prop_get (Properties (Header r)) ''status'' = Some (IfInt 1) \<and> Body r = [] \<and>
        (\<exists>b \<in> set mc_candidates. mh_Stat h b \<and> mc_command (MsgType (Header m)) \<noteq> [] \<and>
           mh_Run h [b, mc_command (MsgType (Header m))] = None) \<or>
      prop_get (Properties (Header r)) ''status'' = Some (IfInt 2) \<and>
        (\<exists>e. mc_execute h (MsgType (Header m)) = Some e \<and> Body r = err_msg e))"
proof (cases "mc_execute h (MsgType (Header m))")
  case None
  with mc_execute_ok [OF None] assms show ?thesis
    by (intro exI [of _ "mc_response m None"]) (simp add: menderClientHandler_def mc_response_def prop_get_def Let_def)
next
  case (Some e)
  with assms show ?thesis
    by (intro exI [of _ "mc_response m (Some e)"]) (simp add: menderClientHandler_def mc_response_def prop_get_def Let_def)
qed

definition sample_mc :: mc_host where
  "sample_mc = \<lparr>mh_Stat = (\<lambda>p. p = ''/usr/bin/mender''), mh_Run = (\<lambda>c. None)\<rparr>"

theorem update_client_answers_witness:
  "length (wire_out (menderClientHandler sample_mc (mk_msg ProtoTypeMenderClient ''check-update'' ''s1'' None []) good_wire)) = 1"
  using update_client_answers [OF reliable_good_wire, of sample_mc "mk_msg ProtoTypeMenderClient ''check-update'' ''s1'' None []"]
  by (auto simp: good_wire_def)

end
