(* ===== verification/Device.thy ===== *)
theory Device
  imports Router PortForward FtHandler MenderClient
begin

text \<open>
  The sessions of a device: the generic session of \<open>session/session.go\<close> and the router of
  \<open>session/router.go\<close> with the handlers the daemon registers for file transfer, port
  forwarding and the update client (\<open>NewDaemon\<close> in \<open>app/daemon.go\<close>), and what holds of
  every run of them.
\<close>

section \<open>The handlers\<close>

text \<open>
  The goroutine of a file transfer, once started: the request, what it was started with, and the
  messages it has been handed over the channel. It runs on its own (the theories of uploads and
  downloads); in the handler it is the token in \<open>ft_busy\<close>.
\<close>

datatype ft_task = UploadTask UploadRequest | DownloadTask source

record ft_job =
  jb_request :: ProtoMsg
  jb_task :: ft_task
  jb_got :: "ProtoMsg list"

text \<open>A session's handlers. A file transfer handler comes with whether its message channel is
  closed, and with its running goroutine, if any.\<close>

datatype 'f dev_handler = HFile "'f ft_state" bool "ft_job option" | HPort pf_state | HMender

text \<open>
  The world of the handlers: the codec, what host and network answer, the file system and the
  permit that a new file transfer handler meets (\<open>dv_ft\<close>), the order in which Go walks the
  table of port forwards, and the order in which it walks the routes.
\<close>

record 'f device =
  dv_codec :: codec
  dv_host :: ft_host
  dv_net :: net
  dv_mc :: mc_host
  dv_ft :: "'f ft_state"
  dv_walk :: "pf_state \<Rightarrow> fref list"
  dv_order :: "ProtoType list"

text \<open>\<open>ServeProtoMsg\<close> of each. The fatal error of a stray acknowledgement and a write that
  never ends are ends of their own.\<close>

definition job_after :: "ProtoMsg \<Rightarrow> serve_end \<Rightarrow> ft_job option \<Rightarrow> ft_job option" where
  "job_after m r job =
     (case r of
        StartUpload params \<Rightarrow> Some \<lparr>jb_request = m, jb_task = UploadTask params, jb_got = []\<rparr>
      | StartDownload path fd \<Rightarrow> Some \<lparr>jb_request = m, jb_task = DownloadTask fd, jb_got = []\<rparr>
      | Handed x \<Rightarrow> map_option (\<lambda>j. j\<lparr>jb_got := jb_got j @ [x]\<rparr>) job
      | _ \<Rightarrow> job)"

definition dev_serve :: "'f device \<Rightarrow> ProtoMsg \<Rightarrow> 'f dev_handler \<Rightarrow> wire \<Rightarrow> handler_end \<times> 'f dev_handler \<times> wire" where
  "dev_serve dv m h w =
     (case h of
        HFile s closed job \<Rightarrow>
          (case ServeProtoMsg (dv_codec dv) (dv_host dv) m (s\<lparr>ft_wire := w\<rparr>) of
             (r, s) \<Rightarrow> ((case r of ServePanic \<Rightarrow> SrvPanic | _ \<Rightarrow> SrvReturn), HFile s closed (job_after m r job), ft_wire s))
      | HPort s \<Rightarrow>
          (case PortForward_ServeProtoMsg (dv_codec dv) (dv_net dv) m (s\<lparr>pf_wire := w\<rparr>) of
             (r, s) \<Rightarrow> ((case r of PfDone _ \<Rightarrow> SrvReturn | PfHang \<Rightarrow> SrvHang | PfFatal \<Rightarrow> SrvFatal), HPort s, pf_wire s))
      | HMender \<Rightarrow> (SrvReturn, HMender, menderClientHandler (dv_mc dv) m w))"

text \<open>\<open>Close\<close> of each: the message channel is closed, the port forwards are, and the function
  that serves the update client has nothing to close.\<close>

definition dev_closed :: "'f device \<Rightarrow> 'f dev_handler \<Rightarrow> 'f dev_handler" where
  "dev_closed dv h =
     (case h of
        HFile s closed job \<Rightarrow> HFile s True job
      | HPort s \<Rightarrow> HPort (snd (PortForwardHandler_Close (dv_net dv) (dv_walk dv s) s))
      | HMender \<Rightarrow> HMender)"

section \<open>The routes\<close>

text \<open>
  The routes of \<open>NewDaemon\<close>. The remote terminal's messages never reach a session: its route
  is there for the answer to the handshake, and is nil.
\<close>

definition daemon_routes ::
  "MenderShellConfig \<Rightarrow> 'f ft_state \<Rightarrow> ProtoType \<rightharpoonup> 'f dev_handler option" where
  "daemon_routes conf ft =
     (let r = Map.empty;
          r = (if \<not> tc_Disable (Terminal conf) then r(ProtoTypeShell \<mapsto> None) else r);
          r = (if \<not> FileTransferDisable conf
               then r(ProtoTypeFileTransfer \<mapsto> Some (HFile ft False None), ProtoTypeFileTransferV2 \<mapsto> Some (HFile ft False None))
               else r);
          r = (if \<not> PortForwardDisable conf
               then r(ProtoTypePortForward \<mapsto> Some (HPort (NewPortForwardHandler ProtoTypePortForward good_wire)),
                      ProtoTypePortForwardV2 \<mapsto> Some (HPort (NewPortForwardHandler ProtoTypePortForwardV2 good_wire)))
               else r);
          r = (if \<not> MenderClientDisable conf then r(ProtoTypeMenderClient \<mapsto> Some HMender) else r)
      in r)"

text \<open>\<open>connectionmanager.DefaultPingWait\<close>, a minute.\<close>

definition DefaultPingWait :: int where "DefaultPingWait = 60 * 10 ^ 9"

definition device_env :: "MenderShellConfig \<Rightarrow> 'f device \<Rightarrow> 'f dev_handler sess_env" where
  "device_env conf dv =
     \<lparr>se_codec = dv_codec dv, se_Routes = daemon_routes conf (dv_ft dv),
      se_order = filter (\<lambda>p. daemon_routes conf (dv_ft dv) p \<noteq> None) (dv_order dv),
      se_IdleTimeout = DefaultPingWait, se_serve = dev_serve dv, se_close = (\<lambda>h w. (dev_closed dv h, w))\<rparr>"

lemma device_env_sel [simp]:
  "se_codec (device_env conf dv) = dv_codec dv" "se_Routes (device_env conf dv) = daemon_routes conf (dv_ft dv)"
  "se_IdleTimeout (device_env conf dv) = DefaultPingWait" "se_serve (device_env conf dv) = dev_serve dv"
  "se_close (device_env conf dv) h w = (dev_closed dv h, w)"
  by (simp_all add: device_env_def)

section \<open>The handlers keep the contract\<close>

text \<open>What each handler writes belongs to the session of the message it serves.\<close>

lemma ft_write_own:
  "SessionID (Header r) = sid \<Longrightarrow> conn.extends_by (in_session sid) (ft_wire s) (ft_wire (snd (send r s)))"
  using conn.extends_by_wr [of "in_session sid" r "ft_wire s"] by (simp add: send_def split_beta)

lemma ft_error_own: "conn.extends_by (in_session (SessionID (Header m))) (ft_wire s) (ft_wire (ft_reply_error cd m e s))"
  unfolding ft_reply_error_def by (rule ft_write_own) (simp add: ft_error_msg_def)

lemma ft_serve_own:
  assumes "ServeProtoMsg cd h m s = (r, s')"
  shows "conn.extends_by (in_session (SessionID (Header m))) (ft_wire s) (ft_wire s')"
  using assms
proof (cases rule: ServeProtoMsg_cases)
  case put
  from put(2) show ?thesis by (cases rule: InitFileUpload_cases) (simp_all add: ft_error_own)
next
  case get
  from get(2) show ?thesis by (cases rule: InitFileDownload_cases) (simp_all add: ft_error_own)
next
  case stat
  then show ?thesis
    by (auto simp: StatFile_def ft_error_own intro!: ft_write_own split: option.splits sum.splits prod.splits)
qed (simp_all add: ft_error_own)

lemma pf_write_own:
  "SessionID (Header r) = sid \<Longrightarrow> conn.extends_by (in_session sid) (pf_wire s) (pf_wire (snd (pf_write r s)))"
  using conn.extends_by_wr [of "in_session sid" r "pf_wire s"] by simp

lemma pf_write_own_eq:
  "pf_write r s = (e, s') \<Longrightarrow> pf_wire s = w \<Longrightarrow> SessionID (Header r) = sid \<Longrightarrow>
   conn.extends_by (in_session sid) w (pf_wire s')"
  using pf_write_own [of r sid s] by simp

lemma connection_reply_session [simp]: "SessionID (Header (connection_reply m t)) = SessionID (Header m)"
  by (simp add: connection_reply_def connection_msg_def)

lemma forwarder_Write_wire: "forwarder_Write nt r b s = Some (e, s') \<Longrightarrow> pf_wire s' = pf_wire s"
  by (auto simp: forwarder_Write_def split: option.splits)

lemma forwarder_Close_wire: "forwarder_Close nt False r s = (e, s') \<Longrightarrow> pf_wire s' = pf_wire s"
  using forwarder_Close_silent [of nt r s] by simp

lemma pf_new_own:
  "portForwardHandlerNew cd nt m s = (e, s') \<Longrightarrow>
   conn.extends_by (in_session (SessionID (Header m))) (pf_wire s) (pf_wire s')"
  using conn.extends_by_wr [of "in_session (SessionID (Header m))" "connection_reply m (MsgType (Header m))" "pf_wire s"]
  by (auto simp: portForwardHandlerNew_def Let_def split: prod.splits option.splits if_splits)

lemma pf_stop_own:
  assumes "portForwardHandlerStop nt m s = (e, s')"
  shows "conn.extends_by (in_session (SessionID (Header m))) (pf_wire s) (pf_wire s')"
proof (cases "pf_map s (connection_of m)")
  case (Some r)
  obtain e1 s1 where c: "forwarder_Close nt False r s = (e1, s1)" by fastforce
  from forwarder_Close_wire [OF c] Some c assms
    conn.extends_by_wr [of "in_session (SessionID (Header m))" "connection_reply m (MsgType (Header m))" "pf_wire s"]
  show ?thesis by (auto simp: portForwardHandlerStop_def Let_def split: option.splits)
qed (use assms in \<open>auto simp: portForwardHandlerStop_def\<close>)

lemma pf_forward_own:
  assumes "portForwardHandlerForward nt m s = (e, s')"
  shows "conn.extends_by (in_session (SessionID (Header m))) (pf_wire s) (pf_wire s')"
proof (cases "pf_map s (connection_of m)")
  case (Some r)
  show ?thesis
  proof (cases "forwarder_Write nt r (Body m) s")
    case w: (Some x)
    obtain e1 s1 where x: "x = (e1, s1)" by fastforce
    from forwarder_Write_wire [OF w [unfolded x]] w x Some assms show ?thesis
      by (auto simp: portForwardHandlerForward_def elim!: pf_write_own_eq split: option.splits if_splits prod.splits)
  qed (use Some assms in \<open>auto simp: portForwardHandlerForward_def\<close>)
qed (use assms in \<open>auto simp: portForwardHandlerForward_def\<close>)

lemma pf_ack_own: "portForwardHandlerAck m s = (e, s') \<Longrightarrow> pf_wire s' = pf_wire s"
  by (auto simp: portForwardHandlerAck_def split: option.splits if_splits)

lemma pf_dispatch_own:
  "pf_dispatch cd nt m s = (r, s') \<Longrightarrow>
   conn.extends_by (in_session (SessionID (Header m))) (pf_wire s) (pf_wire s')"
  by (auto simp: pf_dispatch_def Let_def split: if_splits prod.splits
        dest: pf_new_own pf_stop_own pf_forward_own pf_ack_own)

lemma pf_serve_own:
  assumes "PortForward_ServeProtoMsg cd nt m s = (r, s')"
  shows "conn.extends_by (in_session (SessionID (Header m))) (pf_wire s) (pf_wire s')"
proof -
  obtain r1 s1 where d: "pf_dispatch cd nt m s = (r1, s1)" by fastforce
  have own: "conn.extends_by (in_session (SessionID (Header m))) (pf_wire s1)
      (pf_wire (snd (pf_write (pf_error cd (pf_proto s1) m e) s1)))" for e
    by (rule pf_write_own) (simp add: pf_error_def)
  from assms d have "s' = s1 \<or> (\<exists>e. s' = snd (pf_write (pf_error cd (pf_proto s1) m e) s1))"
    by (auto simp: PortForward_ServeProtoMsg_def split: pf_end.splits option.splits)
  with pf_dispatch_own [OF d] own show ?thesis by (auto intro: conn.extends_by_trans)
qed

lemma mc_serve_own: "conn.extends_by (in_session (SessionID (Header m))) w (menderClientHandler h m w)"
  unfolding menderClientHandler_def Let_def by (rule conn.extends_by_wr) (simp add: mc_response_def)

text \<open>The port forwards of a handler send in the name of the session that opened them.\<close>

definition own_pf :: "string \<Rightarrow> pf_state \<Rightarrow> bool" where
  "own_pf sid s \<longleftrightarrow> (\<forall>r f. pf_heap s r = Some f \<longrightarrow> fw_SessionID f = sid)"

lemma own_pf_frame [simp]:
  "own_pf sid (s\<lparr>pf_wire := w\<rparr>) = own_pf sid s" "own_pf sid (snd (pf_write m s)) = own_pf sid s"
  "own_pf sid (s\<lparr>pf_map := k\<rparr>) = own_pf sid s"
  by (simp_all add: own_pf_def)

lemma own_pf_New [simp]: "own_pf sid (NewPortForwardHandler p w)"
  by (simp add: own_pf_def NewPortForwardHandler_def)

lemma own_pf_modify: "(\<And>f. fw_SessionID (g f) = fw_SessionID f) \<Longrightarrow> own_pf sid s \<Longrightarrow> own_pf sid (pf_modify r g s)"
  by (auto simp: own_pf_def pf_modify_def split: if_splits)

lemma own_pf_write: "pf_write m s = (e, s') \<Longrightarrow> own_pf sid s' = own_pf sid s"
  using own_pf_frame(2) [of sid m s] by simp

lemma own_pf_Close: "own_pf sid s \<Longrightarrow> own_pf sid (snd (forwarder_Close nt stop r s))"
  by (auto simp: forwarder_Close_def Let_def intro!: own_pf_modify split: option.splits)

lemma own_pf_Close_all: "own_pf sid s \<Longrightarrow> own_pf sid (snd (PortForwardHandler_Close nt rs s))"
proof (induction rs arbitrary: s)
  case (Cons r rs)
  obtain e s1 where c: "forwarder_Close nt False r s = (e, s1)" by fastforce
  with own_pf_Close [OF Cons.prems, of nt False r] have "own_pf sid s1" by simp
  with c Cons.IH [of s1] show ?case by (auto split: prod.splits)
qed simp

lemma own_pf_Read: "forwarder_Read nt r ev s = Some s' \<Longrightarrow> own_pf sid s \<Longrightarrow> own_pf sid s'"
  by (cases ev) (auto simp: forwarder_Read_def Let_def own_pf_Close intro!: own_pf_modify split: option.splits if_splits)

lemma own_pf_dispatch:
  assumes "pf_dispatch cd nt m s = (r, s')" and own: "own_pf (SessionID (Header m)) s"
  shows "own_pf (SessionID (Header m)) s'"
proof -
  let ?sid = "SessionID (Header m)"
  have new: "own_pf ?sid (snd (portForwardHandlerNew cd nt m s))"
    using own by (auto simp: portForwardHandlerNew_def Let_def own_pf_def new_forwarder_def split: prod.splits option.splits)
  have stop: "own_pf ?sid (snd (portForwardHandlerStop nt m s))"
  proof (cases "pf_map s (connection_of m)")
    case (Some q)
    obtain e s1 where "forwarder_Close nt False q s = (e, s1)" by fastforce
    with own_pf_Close [OF own, of nt False q] Some show ?thesis
      by (auto simp: portForwardHandlerStop_def Let_def split: option.splits)
  qed (use own in \<open>simp add: portForwardHandlerStop_def\<close>)
  have forward: "own_pf ?sid (snd (portForwardHandlerForward nt m s))"
    using own by (auto simp: portForwardHandlerForward_def forwarder_Write_def own_pf_write intro!: own_pf_modify
        split: prod.splits option.splits)
  have ack: "own_pf ?sid (snd (portForwardHandlerAck m s))"
    using own by (auto simp: portForwardHandlerAck_def intro!: own_pf_modify split: option.splits)
  from assms(1) own new stop forward ack show ?thesis
    by (auto simp: pf_dispatch_def Let_def split: if_splits prod.splits)
qed

lemma own_pf_serve:
  assumes "PortForward_ServeProtoMsg cd nt m s = (r, s')" and "own_pf (SessionID (Header m)) s"
  shows "own_pf (SessionID (Header m)) s'"
proof -
  obtain r1 s1 where d: "pf_dispatch cd nt m s = (r1, s1)" by fastforce
  from assms(1) d own_pf_dispatch [OF d assms(2)] show ?thesis
    by (auto simp: PortForward_ServeProtoMsg_def split: pf_end.splits option.splits)
qed

lemma Close_all_wf: "wf_pf s \<Longrightarrow> wf_pf (snd (PortForwardHandler_Close nt rs s))"
proof (induction rs arbitrary: s)
  case (Cons r rs)
  obtain e s1 where c: "forwarder_Close nt False r s = (e, s1)" by fastforce
  with forwarder_Close_wf [OF Cons.prems, of nt False r] have "wf_pf s1" by simp
  with c Cons.IH [of s1] show ?case by (auto split: prod.splits)
qed simp

text \<open>The invariant of the handlers of a session: that of port forwarding, and that the request and the
  messages of a transfer's goroutine are the session's.\<close>

definition own_job :: "string \<Rightarrow> ft_job \<Rightarrow> bool" where
  "own_job sid j \<longleftrightarrow> in_session sid (jb_request j) \<and> (\<forall>m \<in> set (jb_got j). in_session sid m)"

definition dev_ok :: "string \<Rightarrow> 'f dev_handler \<Rightarrow> bool" where
  "dev_ok sid h =
     (case h of
        HPort s \<Rightarrow> wf_pf s \<and> own_pf sid s
      | HFile s c job \<Rightarrow> (case job of None \<Rightarrow> True | Some j \<Rightarrow> own_job sid j)
      | HMender \<Rightarrow> True)"

lemma ServeProtoMsg_hands: "ServeProtoMsg cd h m s = (Handed x, s') \<Longrightarrow> x = m"
  by (cases rule: ServeProtoMsg_cases [of cd h m s "Handed x" s']) (auto elim: InitFileUpload_cases InitFileDownload_cases)

lemma job_after_own:
  assumes "ServeProtoMsg cd h m s = (r, s')" "\<And>j. job = Some j \<Longrightarrow> own_job (SessionID (Header m)) j"
    and "job_after m r job = Some j"
  shows "own_job (SessionID (Header m)) j"
  using assms ServeProtoMsg_hands [of cd h m s _ s']
  by (cases r; cases job) (fastforce simp: job_after_def own_job_def)+

lemma daemon_routes_eq:
  "daemon_routes conf ft p =
     (if p = ProtoTypeShell \<and> \<not> tc_Disable (Terminal conf) then Some None
      else if p \<in> {ProtoTypeFileTransfer, ProtoTypeFileTransferV2} \<and> \<not> FileTransferDisable conf
      then Some (Some (HFile ft False None))
      else if p \<in> {ProtoTypePortForward, ProtoTypePortForwardV2} \<and> \<not> PortForwardDisable conf
      then Some (Some (HPort (NewPortForwardHandler p good_wire)))
      else if p = ProtoTypeMenderClient \<and> \<not> MenderClientDisable conf then Some (Some HMender)
      else None)"
  using protos_distinct by (auto simp: daemon_routes_def Let_def)

interpretation dev: session_handlers_ok "device_env conf dv" "dev_closed dv" dev_ok for conf dv
proof unfold_locales
  fix m h w b h' w'
  assume "se_serve (device_env conf dv) m h w = (b, h', w')"
  then have serve: "dev_serve dv m h w = (b, h', w')" by simp
  let ?sid = "SessionID (Header m)"
  have "conn.extends_by (in_session ?sid) w w' \<and> (dev_ok ?sid h \<longrightarrow> dev_ok ?sid h')"
  proof (cases h)
    case (HFile s c job)
    obtain r s1 where run: "ServeProtoMsg (dv_codec dv) (dv_host dv) m (s\<lparr>ft_wire := w\<rparr>) = (r, s1)" by fastforce
    from ft_serve_own [OF run] serve run HFile job_after_own [OF run, of job] show ?thesis
      by (auto simp: dev_serve_def dev_ok_def split: option.splits)
  next
    case (HPort s)
    obtain r s1 where run: "PortForward_ServeProtoMsg (dv_codec dv) (dv_net dv) m (s\<lparr>pf_wire := w\<rparr>) = (r, s1)"
      by fastforce
    from pf_serve_own [OF run] ServeProtoMsg_wf [of "s\<lparr>pf_wire := w\<rparr>" "dv_codec dv" "dv_net dv" m]
      own_pf_serve [OF run] serve run HPort
    show ?thesis by (auto simp: dev_serve_def dev_ok_def)
  next
    case HMender
    with serve mc_serve_own show ?thesis by (auto simp: dev_serve_def dev_ok_def)
  qed
  then show "conn.extends_by (in_session (SessionID (Header m))) w w'" 
    and "dev_ok (SessionID (Header m)) h \<Longrightarrow> dev_ok (SessionID (Header m)) h'" by simp_all
next
  fix p h sid
  assume "se_Routes (device_env conf dv) p = Some (Some h)"
  then show "dev_ok sid h" by (auto simp: daemon_routes_eq dev_ok_def split: if_splits)
next
  fix sid and h :: "'a dev_handler"
  assume "dev_ok sid h"
  then show "dev_ok sid (dev_closed dv h)"
    by (auto simp: dev_ok_def dev_closed_def Close_all_wf own_pf_Close_all split: dev_handler.splits)
qed simp

section \<open>Properties of the sessions\<close>

text \<open>
  Sessions do not touch each other. Whatever has happened before and whatever a session
  does next, be it serving a message, a tick of its timer or its end, every other session is
  unchanged, and every message the client's connection gets from it carries its session ID.
\<close>

theorem session_isolation:
  assumes "router_reach (device_env conf dv) w t" and "router_step (device_env conf dv) t sid t'"
  shows "(\<forall>q. q \<noteq> sid \<longrightarrow> rt_sessions t' q = rt_sessions t q) \<and>
     (\<exists>ms. wire_out (rt_wire t') = wire_out (rt_wire t) @ ms \<and> (\<forall>m \<in> set ms. SessionID (Header m) = sid))"
  using router_step_others [OF assms(2)] dev.router_step_own [OF assms(2) router_reach_wf [OF assms(1)]]
  by (simp add: conn.extends_by_def)

text \<open>
  C15. The table of sessions is sound: an entry has the ID it is filed under, a running
  session has exactly one deferred \<open>Close\<close> for each of its handlers and its port forwards are
  well-formed and send in its name, and a session whose \<open>done\<close> is closed, the only kind that leaves the table, has
  had every handler closed: the channel of its file transfer handlers is closed, and its port
  forward handlers are the result of closing well-formed ones.
\<close>

theorem sessions_well_formed:
  assumes "router_reach (device_env conf dv) w t" and "rt_sessions t sid = Some s"
  shows "ss_ID s = sid \<and>
     (\<not> ss_done s \<longrightarrow> distinct (ss_defers s) \<and> set (ss_defers s) = dom (ss_handlers s) \<and>
        (\<forall>p f. ss_handlers s p = Some (HPort f) \<longrightarrow> wf_pf f \<and> own_pf sid f)) \<and>
     (ss_done s \<longrightarrow> ss_defers s = [] \<and>
        (\<forall>p f c j. ss_handlers s p = Some (HFile f c j) \<longrightarrow> c) \<and>
        (\<forall>p f. ss_handlers s p = Some (HPort f) \<longrightarrow>
           (\<exists>f0. wf_pf f0 \<and> f = snd (PortForwardHandler_Close (dv_net dv) (dv_walk dv f0) f0))))"
proof -
  have wf: "wf_entry t sid s" using router_reach_wf [OF assms(1)] assms(2) by (simp add: wf_router_def)
  have ok: "dev.ok_entry dv s" using dev.reach_ok [OF assms(1)] assms(2) by (simp add: dev.ok_entries_def)
  show ?thesis
  proof (cases "ss_done s")
    case True
    have cl: "\<exists>h0. dev_ok sid h0 \<and> h = dev_closed dv h0" if "ss_handlers s p = Some h" for p h
      using ok True that wf by (auto simp: dev.ok_entry_def wf_entry_def)
    have "c" if "ss_handlers s p = Some (HFile f c j)" for p f c j
    proof -
      from cl [OF that] obtain h0 where "HFile f c j = dev_closed dv h0" by blast
      then show ?thesis by (cases h0) (simp_all add: dev_closed_def)
    qed
    moreover have "\<exists>f0. wf_pf f0 \<and> f = snd (PortForwardHandler_Close (dv_net dv) (dv_walk dv f0) f0)"
      if "ss_handlers s p = Some (HPort f)" for p f
    proof -
      from cl [OF that] obtain h0 where "dev_ok sid h0" "HPort f = dev_closed dv h0" by blast
      then show ?thesis by (cases h0) (auto simp: dev_closed_def dev_ok_def)
    qed
    ultimately show ?thesis using wf True by (auto simp: wf_entry_def)
  next
    case False
    then have "dev.all_ok s" using ok by (simp add: dev.ok_entry_def)
    then have "wf_pf f \<and> own_pf sid f" if "ss_handlers s p = Some (HPort f)" for p f
      using dev.all_okD [OF _ that] wf by (simp add: dev_ok_def wf_entry_def)
    with wf False show ?thesis by (auto simp: wf_entry_def wf_session_def)
  qed
qed


text \<open>
  C26. The handshake. A client that opens a session and offers version 1 is accepted, with
  exactly the protocols that the configuration leaves enabled, and the session goes on; one
  that does not offer it, or whose request cannot be decoded, gets an error and its session
  ends.
\<close>

theorem handshake:
  assumes "Proto (Header m) = ProtoTypeControl" "MsgType (Header m) = MessageTypeOpen"
    and "unm_ws_Open (dv_codec dv) (Body m) = (versions, e)"
    and "reliable w" and "set (dv_order dv) = dom (daemon_routes conf (dv_ft dv))"
  shows "\<exists>rsp w'. wire_out w' = wire_out w @ [rsp] \<and> Proto (Header rsp) = ProtoTypeControl \<and>
     (if e = None \<and> 1 \<in> set versions
      then session_turn (device_env conf dv) (Msg m) s w = (None, s\<lparr>ss_idle := False\<rparr>, w') \<and>
        MsgType (Header rsp) = MessageTypeAccept \<and> SessionID (Header rsp) = SessionID (Header m) \<and>
        (\<exists>ps. Body rsp = mar_ws_Accept (dv_codec dv) \<lparr>wsa_Version = 1, wsa_Protocols = ps\<rparr> \<and>
          (\<forall>p. p \<in> set ps \<longleftrightarrow>
             p = ProtoTypeShell \<and> \<not> tc_Disable (Terminal conf) \<or>
             p \<in> {ProtoTypeFileTransfer, ProtoTypeFileTransferV2} \<and> \<not> FileTransferDisable conf \<or>
             p \<in> {ProtoTypePortForward, ProtoTypePortForwardV2} \<and> \<not> PortForwardDisable conf \<or>
             p = ProtoTypeMenderClient \<and> \<not> MenderClientDisable conf))
      else session_turn (device_env conf dv) (Msg m) s w = (Some SessClosed, s\<lparr>ss_idle := False\<rparr>, w') \<and>
        MsgType (Header rsp) = MessageTypeError \<and> SessionID (Header rsp) = ss_ID s)"
proof (cases "e = None \<and> 1 \<in> set versions")
  case True
  let ?ps = "se_order (device_env conf dv)"
  let ?rsp = "control_msg MessageTypeAccept (SessionID (Header m))
    (mar_ws_Accept (dv_codec dv) \<lparr>wsa_Version = 1, wsa_Protocols = ?ps\<rparr>)"
  have ps: "p \<in> set ?ps \<longleftrightarrow>
             p = ProtoTypeShell \<and> \<not> tc_Disable (Terminal conf) \<or>
             p \<in> {ProtoTypeFileTransfer, ProtoTypeFileTransferV2} \<and> \<not> FileTransferDisable conf \<or>
             p \<in> {ProtoTypePortForward, ProtoTypePortForwardV2} \<and> \<not> PortForwardDisable conf \<or>
             p = ProtoTypeMenderClient \<and> \<not> MenderClientDisable conf" for p
  proof -
    have "p \<in> set ?ps \<longleftrightarrow> daemon_routes conf (dv_ft dv) p \<noteq> None" using assms(5) by (auto simp: device_env_def)
    then show ?thesis by (auto simp: daemon_routes_eq)
  qed
  from True assms(1-4) show ?thesis
    by (intro exI [of _ ?rsp] exI [of _ "snd (WriteProtoMsg ?rsp w)"])
       (auto simp: session_turn_def session_dispatch_def HandleControl_def control_msg_def ProtocolVersion_def ps Let_def)
next
  case False
  show ?thesis
  proof (cases e)
    case None
    let ?rsp = "session_error (dv_codec dv) (ss_ID s) m True (''handshake rejected: require version '' @ itoa ProtocolVersion)"
    from None False assms(1-4) show ?thesis
      by (intro exI [of _ ?rsp] exI [of _ "snd (WriteProtoMsg ?rsp w)"])
         (auto simp: session_turn_def session_dispatch_def HandleControl_def control_msg_def ProtocolVersion_def
            SessionError_def session_error_def Let_def)
  next
    case (Some x)
    let ?rsp = "session_error (dv_codec dv) (ss_ID s) m True (''failed to decode handshake request: '' @ err_msg x)"
    from Some assms(1-4) show ?thesis
      by (intro exI [of _ ?rsp] exI [of _ "snd (WriteProtoMsg ?rsp w)"])
         (auto simp: session_turn_def session_dispatch_def HandleControl_def control_msg_def
            SessionError_def session_error_def Let_def)
  qed
qed

section \<open>The properties at concrete inputs\<close>

definition sample_device :: "nat device" where
  "sample_device = \<lparr>dv_codec = sample_codec, dv_host = sample_host, dv_net = sample_net, dv_mc = sample_mc,
     dv_ft = free_ft, dv_walk = (\<lambda>s. []),
     dv_order = [ProtoTypeShell, ProtoTypeFileTransfer, ProtoTypeFileTransferV2, ProtoTypePortForward,
       ProtoTypePortForwardV2, ProtoTypeMenderClient]\<rparr>"

abbreviation "sample_env \<equiv> device_env NewMenderShellConfig sample_device"

definition ctl :: "string \<Rightarrow> string \<Rightarrow> ProtoMsg" where
  "ctl t sid = mk_msg ProtoTypeControl t sid None []"

lemma ctl_sel [simp]:
  "Proto (Header (ctl t sid)) = ProtoTypeControl" "MsgType (Header (ctl t sid)) = t"
  "SessionID (Header (ctl t sid)) = sid" "Body (ctl t sid) = []"
  by (simp_all add: ctl_def)

definition pinged :: "nat dev_handler router" where
  "pinged = snd (RouteMessage sample_env (ctl ''ping'' ''s1'') (NewRouter good_wire))"

lemma ping_run: "RouteMessage sample_env (ctl ''ping'' ''s1'') (NewRouter good_wire) = (RouteOk, pinged)"
  by (simp add: pinged_def RouteMessage_def NewRouter_def load_or_new_def SessionNew_def startSession_turn_def
        session_turn_def session_dispatch_def HandleControl_def Let_def)

lemma ping_step: "router_step sample_env (NewRouter good_wire) ''s1'' pinged"
  using router_step.Route [OF ping_run, of err_handoff] by simp

lemma pinged_entry: "\<exists>s. rt_sessions pinged ''s1'' = Some s"
  by (simp add: pinged_def RouteMessage_def NewRouter_def load_or_new_def SessionNew_def startSession_turn_def
        session_turn_def session_dispatch_def HandleControl_def Let_def)

theorem session_isolation_witness:
  "rt_sessions pinged ''s2'' = None \<and>
     (\<exists>ms. wire_out (rt_wire pinged) = ms \<and> (\<forall>m \<in> set ms. SessionID (Header m) = ''s1''))"
  using session_isolation [OF router_reach.Start ping_step] by (simp add: NewRouter_def good_wire_def)

theorem sessions_well_formed_witness:
  "\<exists>s. rt_sessions pinged ''s1'' = Some s \<and> ss_ID s = ''s1''"
proof -
  obtain s where s: "rt_sessions pinged ''s1'' = Some s" using pinged_entry by blast
  from sessions_well_formed [OF router_reach.Step [OF router_reach.Start ping_step] s] s show ?thesis by simp
qed

text \<open>A client that answers nothing, and one whose message comes just after the timer has fired: the old
  tick starts the second silence, and the session ends twelve seconds after it has served a message.\<close>

definition run_ends :: "(int \<times> clock_ev) list \<Rightarrow> (sess_end option \<times> int) option" where
  "run_ends evs = map_option (\<lambda>((r, s, w), now, tm). (r, now))
     (timed_run sample_env 0 (NewTimer 0 (pingWait sample_env)) evs (SessionNew ''s1'') good_wire)"

definition silent_client :: "(int \<times> clock_ev) list" where
  "silent_client = [(48 * 10 ^ 9, Fires), (49 * 10 ^ 9, Takes Tick False), (61 * 10 ^ 9, Fires), (62 * 10 ^ 9, Takes Tick False)]"

definition stale_tick :: "(int \<times> clock_ev) list" where
  "stale_tick = [(48 * 10 ^ 9, Fires), (49 * 10 ^ 9, Takes (Msg (ctl ''ping'' ''s1'')) False), (49 * 10 ^ 9, Takes Tick False),
     (61 * 10 ^ 9, Fires), (61 * 10 ^ 9, Takes Tick False)]"

lemma silent_client_ends: "run_ends silent_client = Some (Some SessTimeout, 62 * 10 ^ 9)"
  by code_simp

lemma stale_tick_ends:
  "run_ends stale_tick = Some (Some SessTimeout, 61 * 10 ^ 9)"
  "last_taken (0, False) False stale_tick = (49 * 10 ^ 9, True)"
  by code_simp (simp add: stale_tick_def)


theorem handshake_witness:
  "\<exists>rsp w'. wire_out w' = [rsp] \<and> MsgType (Header rsp) = MessageTypeAccept \<and>
     session_turn sample_env (Msg (ctl ''open'' ''s1'')) (SessionNew ''s1'') good_wire = (None, SessionNew ''s1'', w')"
proof -
  have order: "set (dv_order sample_device) = dom (daemon_routes NewMenderShellConfig (dv_ft sample_device))"
    by (auto simp: sample_device_def daemon_routes_eq NewMenderShellConfig_def dom_def)
  have "unm_ws_Open (dv_codec sample_device) (Body (ctl ''open'' ''s1'')) = ([1], None)"
    by (simp add: sample_device_def sample_codec_def)
  from handshake [OF ctl_sel(1) ctl_sel(2) this reliable_good_wire order, of "SessionNew ''s1''"]
  show ?thesis by (auto simp: SessionNew_def good_wire_def)
qed

end
