(* ===== verification/ConnectionManager.thy ===== *)
theory ConnectionManager
  imports Stores
begin

text \<open>
  The connection to the server (\<open>connection/connection.go\<close>, \<open>connectionmanager/\<close>): one
  websocket per protocol, kept in a table, replaced by \<open>Reconnect\<close> after a wait that grows
  with the number of failed attempts.
\<close>

section \<open>The back-off\<close>

text \<open>Durations are \<open>int64\<close> numbers of nanoseconds.\<close>

record expBackoff =
  bo_attempts :: int
  bo_maxBackoff :: int
  bo_smallestUnit :: int
  bo_interval :: int
  bo_randomInterval :: int

abbreviation "second \<equiv> (10 ^ 9 :: int)"

text \<open>The package variable \<open>a\<close>.\<close>

definition backoff_init :: expBackoff where
  "backoff_init = \<lparr>bo_attempts = 0, bo_maxBackoff = 1800 * second, bo_smallestUnit = second,
     bo_interval = 0, bo_randomInterval = 0\<rparr>"

definition perIntervalAttempts :: int where "perIntervalAttempts = 3"

text \<open>
  \<open>rnd\<close> is \<open>time.Duration(rand.Float64() * float64(a.smallestUnit))\<close>, with \<open>rand.Float64\<close> in
  \<open>[0, 1)\<close>. Shifting an \<open>int64\<close> to the left keeps the low 64 bits.
\<close>

definition GetExponentialBackoffTime :: "int \<Rightarrow> expBackoff \<Rightarrow> int \<times> expBackoff" where
  "GetExponentialBackoffTime rnd a =
     (let a = a\<lparr>bo_randomInterval := i64 (rnd * 5)\<rparr>;
          interval = 1 * bo_smallestUnit a;
          nextInterval = i64 (interval * 2 ^ nat (bo_attempts a div perIntervalAttempts))
      in if nextInterval > bo_maxBackoff a
         then (i64 (bo_maxBackoff a + bo_randomInterval a), a)
         else (i64 (nextInterval + bo_randomInterval a), a))"

text \<open>What the \<open>select\<close> of \<open>WaitForBackoff\<close> takes.\<close>

datatype wait_ev = WaitOver | WaitCancelled | WaitCtxDone

definition WaitForBackoff :: "int \<Rightarrow> wait_ev \<Rightarrow> expBackoff \<Rightarrow> gerror option \<times> expBackoff" where
  "WaitForBackoff rnd ev a =
     (let a = a\<lparr>bo_attempts := i64 (bo_attempts a + 1)\<rparr>;
          (d, a) = GetExponentialBackoffTime rnd a;
          a = a\<lparr>bo_interval := d\<rparr>
      in if bo_attempts a \<le> 1 then (None, a)
         else (case ev of
                 WaitOver \<Rightarrow> None
               | WaitCancelled \<Rightarrow> Some (Sentinel ErrContextCanceled)
               | WaitCtxDone \<Rightarrow> Some (Sentinel ErrContextCanceled), a))"

definition resetBackoff :: "expBackoff \<Rightarrow> expBackoff" where
  "resetBackoff a = a\<lparr>bo_attempts := 0\<rparr>"

section \<open>A connection\<close>

text \<open>
  \<open>connection.Connection\<close>: whether the websocket is open, the goroutine of
  \<open>pingPongHandler\<close>, the messages and pings written, and the deadline for reading.
\<close>

datatype ping_state = PingSelect | PingWriting | PingStopped

record wsconn =
  wc_url :: "string \<times> string \<times> string"
  wc_token :: string
  wc_open :: bool
  wc_ping :: ping_state
  wc_out :: "ProtoMsg list"
  wc_count :: nat
  wc_deadline :: int

text \<open>
  The network and the codec: parsing a URL into scheme and host, the error of dialling a URL
  with a token, that of encoding a message, that of the \<open>k\<close>-th write on a connection, and that
  of closing one.
\<close>

record cm_env =
  ce_Parse :: "string \<Rightarrow> gerror + string \<times> string"
  ce_Dial :: "string \<times> string \<times> string \<Rightarrow> string \<Rightarrow> nat \<Rightarrow> gerror option"
  ce_Marshal :: "ProtoMsg \<Rightarrow> gerror option"
  ce_Write :: "nat \<Rightarrow> nat \<Rightarrow> gerror option"
  ce_Close :: "nat \<Rightarrow> gerror option"

definition err_closed :: gerror where
  "err_closed = ErrText ''use of closed network connection''"

definition new_wsconn :: "string \<times> string \<times> string \<Rightarrow> string \<Rightarrow> int \<Rightarrow> wsconn" where
  "new_wsconn u token deadline =
     \<lparr>wc_url = u, wc_token = token, wc_open = True, wc_ping = PingSelect, wc_out = [], wc_count = 0,
      wc_deadline = deadline\<rparr>"

definition NewConnection ::
  "cm_env \<Rightarrow> string \<times> string \<times> string \<Rightarrow> string \<Rightarrow> nat \<Rightarrow> int \<Rightarrow> gerror + wsconn" where
  "NewConnection E u token n deadline =
     (case ce_Dial E u token n of Some e \<Rightarrow> Inl e | None \<Rightarrow> Inr (new_wsconn u token deadline))"

definition WriteMessage :: "cm_env \<Rightarrow> nat \<Rightarrow> ProtoMsg \<Rightarrow> wsconn \<Rightarrow> gerror option \<times> wsconn" where
  "WriteMessage E r m c =
     (case ce_Marshal E m of
        Some e \<Rightarrow> (Some e, c)
      | None \<Rightarrow>
          if \<not> wc_open c then (Some err_closed, c)
          else (case ce_Write E r (wc_count c) of
                  Some e \<Rightarrow> (Some e, c\<lparr>wc_count := Suc (wc_count c)\<rparr>)
                | None \<Rightarrow> (None, c\<lparr>wc_count := Suc (wc_count c), wc_out := wc_out c @ [m]\<rparr>)))"

text \<open>
  \<open>ReadMessage\<close>: \<open>frame\<close> is what the websocket reads, a frame's data or an error, and
  \<open>unmarshal\<close> the codec.
\<close>

definition ReadMessage :: "(bytes \<Rightarrow> gerror + ProtoMsg) \<Rightarrow> gerror + bytes \<Rightarrow> gerror + ProtoMsg" where
  "ReadMessage unmarshal frame =
     (case frame of
        Inl e \<Rightarrow> Inl e
      | Inr data \<Rightarrow> (case unmarshal data of Inl e \<Rightarrow> Inl e | Inr m \<Rightarrow> Inr m))"

text \<open>\<open>Close\<close> tells the ping goroutine to stop only if it is at its \<open>select\<close> right then.\<close>

definition conn_Close :: "wsconn \<Rightarrow> wsconn" where
  "conn_Close c =
     (let c = (if wc_ping c = PingSelect then c\<lparr>wc_ping := PingStopped\<rparr> else c)
      in c\<lparr>wc_open := False\<rparr>)"

text \<open>The ping goroutine: a tick of its ticker and the end of the write of the ping. A ping or
  pong of the server moves the deadline for reading.\<close>

definition pingPeriod :: "int \<Rightarrow> int" where "pingPeriod defaultPingWait = defaultPingWait * 9 div 10"

datatype ping_ev = PingTick | PingWritten | PeerPing int | PeerPong int

definition pingPongHandler :: "int \<Rightarrow> ping_ev \<Rightarrow> wsconn \<Rightarrow> wsconn" where
  "pingPongHandler defaultPingWait ev c =
     (case ev of
        PingTick \<Rightarrow> if wc_ping c = PingSelect then c\<lparr>wc_ping := PingWriting\<rparr> else c
      | PingWritten \<Rightarrow> if wc_ping c = PingWriting then c\<lparr>wc_ping := PingSelect\<rparr> else c
      | PeerPing now \<Rightarrow> c\<lparr>wc_deadline := now + defaultPingWait\<rparr>
      | PeerPong now \<Rightarrow> c\<lparr>wc_deadline := now + defaultPingWait\<rparr>)"

section \<open>The table of connections\<close>

text \<open>
  The package's variables. Connections are objects: \<open>cm_handlers\<close> is \<open>handlersByType\<close>, whose
  entries refer to them.
\<close>

record cm =
  cm_handlers :: "ProtoType \<rightharpoonup> nat"
  cm_conns :: "nat \<rightharpoonup> wsconn"
  cm_next :: nat
  cm_reconnecting :: "ProtoType \<Rightarrow> bool"
  cm_backoff :: expBackoff

definition cm_init :: cm where
  "cm_init = \<lparr>cm_handlers = Map.empty, cm_conns = Map.empty, cm_next = 0, cm_reconnecting = (\<lambda>_. False),
     cm_backoff = backoff_init\<rparr>"

definition getWebSocketScheme :: "string \<Rightarrow> string" where
  "getWebSocketScheme scheme =
     (if scheme = ''https'' then ''wss'' else if scheme = ''http'' then ''ws'' else scheme)"

definition IsReconnecting :: "ProtoType \<Rightarrow> cm \<Rightarrow> bool" where
  "IsReconnecting proto s = cm_reconnecting s proto"

definition setReconnecting :: "ProtoType \<Rightarrow> bool \<Rightarrow> cm \<Rightarrow> cm" where
  "setReconnecting proto v s = s\<lparr>cm_reconnecting := (cm_reconnecting s)(proto := v)\<rparr>"

text \<open>
  \<open>connect\<close>, up to the wait: the error of parsing the URL, or what is needed afterwards; and
  from the wait on. \<open>now\<close> is the time at which the connection is there.
\<close>

definition connect_begin ::
  "cm_env \<Rightarrow> ProtoType \<Rightarrow> string \<Rightarrow> string \<Rightarrow> cm \<Rightarrow> (gerror + string \<times> string \<times> string) \<times> cm" where
  "connect_begin E proto serverUrl connectUrl s =
     (case ce_Parse E serverUrl of
        Inl e \<Rightarrow> (Inl e, s)
      | Inr (scheme, host) \<Rightarrow> (Inr (getWebSocketScheme scheme, host, connectUrl), setReconnecting proto True s))"

definition connect_end ::
  "cm_env \<Rightarrow> ProtoType \<Rightarrow> string \<times> string \<times> string \<Rightarrow> string \<Rightarrow> int \<Rightarrow> wait_ev \<Rightarrow> int \<Rightarrow> cm \<Rightarrow> gerror option \<times> cm" where
  "connect_end E proto u token rnd ev deadline s =
     (let (w, a) = WaitForBackoff rnd ev (cm_backoff s);
          s = s\<lparr>cm_backoff := a\<rparr>
      in case w of
           Some e \<Rightarrow> (Some e, setReconnecting proto False s)
         | None \<Rightarrow> (case NewConnection E u token (cm_next s) deadline of
             Inl e \<Rightarrow> (Some e, setReconnecting proto False (s\<lparr>cm_next := Suc (cm_next s)\<rparr>))
           | Inr c \<Rightarrow> (None, setReconnecting proto False
               (s\<lparr>cm_backoff := resetBackoff (cm_backoff s), cm_conns := (cm_conns s)(cm_next s \<mapsto> c),
                  cm_handlers := (cm_handlers s)(proto \<mapsto> cm_next s), cm_next := Suc (cm_next s)\<rparr>))))"

definition connect ::
  "cm_env \<Rightarrow> ProtoType \<Rightarrow> string \<Rightarrow> string \<Rightarrow> string \<Rightarrow> int \<Rightarrow> wait_ev \<Rightarrow> int \<Rightarrow> cm \<Rightarrow> gerror option \<times> cm" where
  "connect E proto serverUrl connectUrl token rnd ev deadline s =
     (case connect_begin E proto serverUrl connectUrl s of
        (Inl e, s) \<Rightarrow> (Some e, s)
      | (Inr u, s) \<Rightarrow> connect_end E proto u token rnd ev deadline s)"

definition Connect ::
  "cm_env \<Rightarrow> ProtoType \<Rightarrow> string \<Rightarrow> string \<Rightarrow> string \<Rightarrow> int \<Rightarrow> wait_ev \<Rightarrow> int \<Rightarrow> cm \<Rightarrow> gerror option \<times> cm" where
  "Connect E proto serverUrl connectUrl token rnd ev deadline s =
     (if cm_handlers s proto \<noteq> None then (Some (Sentinel ErrHandlerAlreadyRegistered), s)
      else connect E proto serverUrl connectUrl token rnd ev deadline s)"

text \<open>\<open>Reconnect\<close>: the old connection is closed and leaves the table.\<close>

definition close_conn :: "nat \<Rightarrow> cm \<Rightarrow> cm" where
  "close_conn r s = s\<lparr>cm_conns := (cm_conns s)(r := map_option conn_Close (cm_conns s r))\<rparr>"

definition drop_handler :: "ProtoType \<Rightarrow> cm \<Rightarrow> cm" where
  "drop_handler proto s =
     (let s = (case cm_handlers s proto of None \<Rightarrow> s | Some r \<Rightarrow> close_conn r s)
      in s\<lparr>cm_handlers := (cm_handlers s)(proto := None)\<rparr>)"

definition Reconnect ::
  "cm_env \<Rightarrow> ProtoType \<Rightarrow> string \<Rightarrow> string \<Rightarrow> string \<Rightarrow> int \<Rightarrow> wait_ev \<Rightarrow> int \<Rightarrow> cm \<Rightarrow> gerror option \<times> cm" where
  "Reconnect E proto serverUrl connectUrl token rnd ev deadline s =
     connect E proto serverUrl connectUrl token rnd ev deadline (drop_handler proto s)"

text \<open>\<open>Read\<close>: \<open>got\<close> is what reading the connection gives, a message or an error.\<close>

definition Read :: "ProtoType \<Rightarrow> (nat \<Rightarrow> gerror + ProtoMsg) \<Rightarrow> cm \<Rightarrow> gerror + ProtoMsg" where
  "Read proto got s =
     (case cm_handlers s proto of
        None \<Rightarrow> Inl (Sentinel ErrHandlerNotRegistered)
      | Some r \<Rightarrow> got r)"

definition Write :: "cm_env \<Rightarrow> ProtoType \<Rightarrow> ProtoMsg \<Rightarrow> cm \<Rightarrow> gerror option \<times> cm" where
  "Write E proto m s =
     (case cm_handlers s proto of
        None \<Rightarrow> (Some (Sentinel ErrHandlerNotRegistered), s)
      | Some r \<Rightarrow> (case cm_conns s r of
          None \<Rightarrow> (Some (Sentinel ErrHandlerNotRegistered), s)
        | Some c \<Rightarrow> (case WriteMessage E r m c of
            (e, c) \<Rightarrow> (e, s\<lparr>cm_conns := (cm_conns s)(r \<mapsto> c)\<rparr>))))"

text \<open>
  \<open>CancelReconnection\<close> looks at the flag once a second, eight times at most, and once more at
  the end; \<open>flag i\<close> is what it sees at its \<open>i\<close>-th look. The result tells whether the
  reconnection has gone.
\<close>

fun cancel_wait :: "nat \<Rightarrow> nat \<Rightarrow> (nat \<Rightarrow> bool) \<Rightarrow> bool" where
  "cancel_wait 0 i flag = (\<not> flag i)"
| "cancel_wait (Suc n) i flag = (if \<not> flag i then \<not> flag (Suc i) else cancel_wait n (Suc i) flag)"

definition CancelReconnection :: "(nat \<Rightarrow> bool) \<Rightarrow> bool" where
  "CancelReconnection flag = cancel_wait 8 0 flag"

text \<open>\<open>Close\<close>: with a reconnection going on, only if it could be cancelled; \<open>s\<close> is the state
  when the table's mutex has been taken.\<close>

definition Close :: "cm_env \<Rightarrow> ProtoType \<Rightarrow> bool \<Rightarrow> (nat \<Rightarrow> bool) \<Rightarrow> cm \<Rightarrow> gerror option \<times> cm" where
  "Close E proto reconnecting flag s =
     (if reconnecting \<and> \<not> CancelReconnection flag
      then (Some (ErrText ''failed to cancel ongoing reconnection''), s)
      else case cm_handlers s proto of
        None \<Rightarrow> (Some (Sentinel ErrHandlerNotRegistered), s)
      | Some r \<Rightarrow> (ce_Close E r, close_conn r s))"

section \<open>How long the back-off is\<close>

lemma i64_small: "0 \<le> x \<Longrightarrow> x < 2 ^ 63 \<Longrightarrow> i64 x = x"
  by simp

lemma shift_small:
  "k \<le> 33 \<Longrightarrow> i64 (second * 2 ^ k) = second * 2 ^ k"
proof -
  assume "k \<le> (33 :: nat)"
  then have "(2 :: int) ^ k \<le> 2 ^ 33" by (intro power_increasing) simp_all
  then show ?thesis by (intro i64_small) auto
qed

lemma shift_gone:
  assumes "55 \<le> (k :: nat)"
  shows "i64 (second * 2 ^ k) = 0"
proof -
  have "(2 :: int) ^ k = 2 ^ 55 * 2 ^ (k - 55)" using assms by (metis le_add_diff_inverse power_add)
  then have "second * 2 ^ k = 2 ^ 64 * (1953125 * 2 ^ (k - 55))" by simp
  then have "(second * 2 ^ k + 2 ^ 63) mod 2 ^ 64 = (2 ^ 63 :: int)"
    by (simp only: mod_mult_self4) simp
  then show ?thesis by (simp add: i64_def)
qed

lemma backoff_max_iff: "k \<le> 33 \<Longrightarrow> (second * 2 ^ k > 1800 * second) \<longleftrightarrow> (11 \<le> k)"
proof (cases "11 \<le> k")
  case True
  then have "(2 :: int) ^ 11 \<le> 2 ^ k" by (intro power_increasing) simp_all
  with True show ?thesis by simp
next
  case False
  then have "(2 :: int) ^ k \<le> 2 ^ 10" by (intro power_increasing) simp_all
  with False show ?thesis by simp
qed

text \<open>What the wait is after an attempt whose number fits.\<close>

definition backoff_time :: "int \<Rightarrow> int \<Rightarrow> int \<Rightarrow> int" where
  "backoff_time shifted mx rnd = (if shifted > mx then i64 (mx + i64 (rnd * 5)) else i64 (shifted + i64 (rnd * 5)))"

lemma WaitForBackoff_sel:
  assumes "WaitForBackoff rnd ev a = (e, a')" and "i64 (bo_attempts a + 1) = k"
  shows "bo_attempts a' = k" "e = (if k \<le> 1 \<or> ev = WaitOver then None else Some (Sentinel ErrContextCanceled))"
    "bo_interval a' = backoff_time (i64 (bo_smallestUnit a * 2 ^ nat (k div 3))) (bo_maxBackoff a) rnd"
  using assms
  by (auto simp: WaitForBackoff_def GetExponentialBackoffTime_def perIntervalAttempts_def backoff_time_def Let_def
        split: if_splits wait_ev.splits)

lemma backoff_init_sel [simp]:
  "bo_attempts backoff_init = 0" "bo_maxBackoff backoff_init = 1800 * second" "bo_smallestUnit backoff_init = second"
  by (simp_all add: backoff_init_def)

lemma random_part: "0 \<le> rnd \<Longrightarrow> rnd < second \<Longrightarrow> i64 (rnd * 5) = rnd * 5"
  by (intro i64_small) auto

text \<open>
  The back-off as meant. After \<open>n\<close> failed attempts in a row, up to a hundred, the next
  one waits a second, doubled for every three attempts made, but never more than half an hour,
  plus less than five seconds at random; the first attempt does not wait.
\<close>

theorem backoff_exact:
  assumes "a = backoff_init\<lparr>bo_attempts := int n, bo_interval := ival, bo_randomInterval := rval\<rparr>"
    and "n \<le> 100" and "0 \<le> rnd" "rnd < second"
    and "WaitForBackoff rnd ev a = (e, a')"
  shows "bo_attempts a' = int n + 1 \<and>
     bo_interval a' = (if (n + 1) div 3 \<le> 10 then second * 2 ^ ((n + 1) div 3) else 1800 * second) + rnd * 5 \<and>
     e = (if n = 0 \<or> ev = WaitOver then None else Some (Sentinel ErrContextCanceled))"
proof -
  let ?k = "(n + 1) div 3"
  have k: "?k \<le> 33" using assms(2) by linarith
  have k': "nat ((int n + 1) div 3) = ?k" by (simp add: nat_div_as_int)
  have att: "i64 (bo_attempts a + 1) = int n + 1" unfolding assms(1) using assms(2) by (simp add: i64_small)
  note sel = WaitForBackoff_sel [OF assms(5) att]
  have "(2 :: int) ^ ?k \<le> 2 ^ 33" by (rule power_increasing [OF k]) simp
  then have pow: "0 < second * 2 ^ ?k" "second * 2 ^ ?k \<le> second * 2 ^ 33" by simp_all
  have sum: "i64 (second * 2 ^ ?k + rnd * 5) = second * 2 ^ ?k + rnd * 5"
    using assms(3,4) pow by (intro i64_small) auto
  have sum': "i64 (1800 * second + rnd * 5) = 1800 * second + rnd * 5"
    using assms(3,4) by (intro i64_small) auto
  have "bo_interval a' = backoff_time (second * 2 ^ ?k) (1800 * second) rnd"
    using sel(3) shift_small [OF k] unfolding assms(1) k' by simp
  also have "\<dots> = (if ?k \<le> 10 then second * 2 ^ ?k else 1800 * second) + rnd * 5"
    unfolding backoff_time_def random_part [OF assms(3,4)] sum sum' backoff_max_iff [OF k] by auto
  finally show ?thesis using sel(1,2) by auto
qed

text \<open>
  The back-off does not last. The doubled second is shifted out of its 64 bits: the
  attempt after a hundred and one failures waits a negative time, that is not at all, and from
  the hundred and sixty-fifth on every attempt waits only the random part, less than five
  seconds instead of half an hour, for as long as the server stays away.
\<close>

theorem backoff_overflows:
  assumes "a = backoff_init\<lparr>bo_attempts := int n, bo_interval := ival, bo_randomInterval := rval\<rparr>"
    and "0 \<le> rnd" "rnd < second" and "WaitForBackoff rnd ev a = (e, a')"
  shows "(n = 101 \<longrightarrow> bo_interval a' < 0) \<and>
     (164 \<le> n \<and> int n < 2 ^ 63 - 1 \<longrightarrow> bo_interval a' = rnd * 5 \<and> bo_interval a' < 5 * second)"
proof (intro conjI impI)
  note rp = random_part [OF assms(2,3)]
  show "bo_interval a' < 0" if n: "n = 101"
  proof -
    have neg: "i64 (second * 2 ^ 34) = - 1266874889709551616" by (simp add: i64_def)
    have sum: "i64 (- 1266874889709551616 + rnd * 5) = - 1266874889709551616 + rnd * 5"
      using assms(2,3) by (intro i64_id) auto
    have att: "i64 (bo_attempts a + 1) = 102" unfolding assms(1) using n by simp
    have "bo_interval a' = backoff_time (i64 (second * 2 ^ 34)) (1800 * second) rnd"
      using WaitForBackoff_sel(3) [OF assms(4) att] unfolding assms(1) by simp
    then show ?thesis unfolding neg backoff_time_def rp sum using assms(2,3) by simp
  qed
  have "bo_interval a' = rnd * 5" if n: "164 \<le> n \<and> int n < 2 ^ 63 - 1"
  proof -
    have att: "i64 (bo_attempts a + 1) = int n + 1" unfolding assms(1) using n by (simp add: i64_small)
    have "55 \<le> nat ((int n + 1) div 3)" using n by (simp add: nat_div_as_int) linarith
    note z = shift_gone [OF this]
    have "bo_interval a' = backoff_time 0 (1800 * second) rnd"
      using WaitForBackoff_sel(3) [OF assms(4) att] z unfolding assms(1) by simp
    then show ?thesis unfolding backoff_time_def rp by (simp add: rp)
  qed
  then show "bo_interval a' = rnd * 5" "bo_interval a' < 5 * second" if "164 \<le> n \<and> int n < 2 ^ 63 - 1"
    using that assms(3) by auto
qed

section \<open>Keeping a connection alive\<close>

text \<open>Closing a connection while its ping goroutine writes does not stop the goroutine: nothing
  ever does.\<close>

lemma close_misses_ping:
  assumes "wc_ping c = PingWriting"
  shows "wc_ping (fold (pingPongHandler w) evs (conn_Close c)) \<noteq> PingStopped"
proof -
  have "wc_ping c \<noteq> PingStopped \<Longrightarrow> wc_ping (fold (pingPongHandler w) evs c) \<noteq> PingStopped" for c
    by (induction evs arbitrary: c) (simp_all add: pingPongHandler_def split: ping_ev.splits)
  then show ?thesis using assms by (simp add: conn_Close_def)
qed

lemma close_stops_ping: "wc_ping c = PingSelect \<Longrightarrow> wc_ping (conn_Close c) = PingStopped"
  by (simp add: conn_Close_def)

text \<open>The times at which the server's pongs arrive, each before the deadline that the one before
  has set.\<close>

fun in_time :: "int \<Rightarrow> int \<Rightarrow> int list \<Rightarrow> bool" where
  "in_time wait deadline [] = True"
| "in_time wait deadline (t # ts) \<longleftrightarrow> t \<le> deadline \<and> in_time wait (t + wait) ts"

text \<open>A server that answers each ping within a tenth of the wait keeps the connection.\<close>

lemma answered_pings_in_time:
  assumes "\<forall>i < length ts. start + int (k + i) * pingPeriod wait \<le> ts ! i \<and>
      ts ! i \<le> start + int (k + i) * pingPeriod wait + (wait - pingPeriod wait)"
    and "start + int k * pingPeriod wait + (wait - pingPeriod wait) \<le> deadline"
  shows "in_time wait deadline ts"
  using assms
proof (induction ts arbitrary: k deadline)
  case (Cons t ts)
  have t: "start + int k * pingPeriod wait \<le> t" "t \<le> start + int k * pingPeriod wait + (wait - pingPeriod wait)"
    using Cons.prems(1) [rule_format, of 0] by simp_all
  have "in_time wait (t + wait) ts"
  proof (rule Cons.IH [of "Suc k"])
    show "\<forall>i < length ts. start + int (Suc k + i) * pingPeriod wait \<le> ts ! i \<and>
        ts ! i \<le> start + int (Suc k + i) * pingPeriod wait + (wait - pingPeriod wait)"
      using Cons.prems(1) by (metis Suc_less_eq add_Suc_shift length_Cons nth_Cons_Suc)
    show "start + int (Suc k) * pingPeriod wait + (wait - pingPeriod wait) \<le> t + wait"
      using t(1) by (simp add: algebra_simps)
  qed
  with t(2) Cons.prems(2) show ?case by simp
qed simp

section \<open>The table\<close>

text \<open>Every open connection is the one registered for some protocol.\<close>

definition wf_cm :: "cm \<Rightarrow> bool" where
  "wf_cm s \<longleftrightarrow> (\<forall>r c. cm_conns s r = Some c \<longrightarrow> r < cm_next s \<and>
       (wc_open c \<longrightarrow> (\<exists>p. cm_handlers s p = Some r))) \<and>
     (\<forall>p r. cm_handlers s p = Some r \<longrightarrow> cm_conns s r \<noteq> None) \<and> inj_on (cm_handlers s) (dom (cm_handlers s))"

lemma wf_cmI:
  assumes "\<And>r c. cm_conns s r = Some c \<Longrightarrow> r < cm_next s \<and> (wc_open c \<longrightarrow> (\<exists>p. cm_handlers s p = Some r))"
    and "\<And>p r. cm_handlers s p = Some r \<Longrightarrow> cm_conns s r \<noteq> None"
    and "\<And>p q r. cm_handlers s p = Some r \<Longrightarrow> cm_handlers s q = Some r \<Longrightarrow> p = q"
  shows "wf_cm s"
  using assms unfolding wf_cm_def inj_on_def by (metis domD)

lemma wf_cm_conn: "wf_cm s \<Longrightarrow> cm_conns s r = Some c \<Longrightarrow> r < cm_next s \<and> (wc_open c \<longrightarrow> (\<exists>p. cm_handlers s p = Some r))"
  and wf_cm_handler: "wf_cm s \<Longrightarrow> cm_handlers s p = Some r \<Longrightarrow> cm_conns s r \<noteq> None"
  unfolding wf_cm_def by blast+

lemma wf_cm_inj: "wf_cm s \<Longrightarrow> cm_handlers s p = Some r \<Longrightarrow> cm_handlers s q = Some r \<Longrightarrow> p = q"
  unfolding wf_cm_def inj_on_def by (metis domI)

lemma setReconnecting_sel [simp]:
  "cm_handlers (setReconnecting p v s) = cm_handlers s" "cm_conns (setReconnecting p v s) = cm_conns s"
  "cm_next (setReconnecting p v s) = cm_next s" "cm_backoff (setReconnecting p v s) = cm_backoff s"
  "cm_reconnecting (setReconnecting p v s) = (cm_reconnecting s)(p := v)"
  by (simp_all add: setReconnecting_def)

lemma conn_Close_sel [simp]: "\<not> wc_open (conn_Close c)" "wc_out (conn_Close c) = wc_out c"
  by (simp_all add: conn_Close_def Let_def)

lemma drop_handler_sel:
  "cm_handlers (drop_handler p s) = (cm_handlers s)(p := None)" "cm_next (drop_handler p s) = cm_next s"
  "cm_reconnecting (drop_handler p s) = cm_reconnecting s" "cm_backoff (drop_handler p s) = cm_backoff s"
  "cm_conns (drop_handler p s) r = (if cm_handlers s p = Some r then map_option conn_Close (cm_conns s r) else cm_conns s r)"
  by (auto simp: drop_handler_def close_conn_def Let_def split: option.splits)

lemma drop_handler_wf:
  assumes wf: "wf_cm s"
  shows "wf_cm (drop_handler p s)"
proof (rule wf_cmI)
  fix r c assume c: "cm_conns (drop_handler p s) r = Some c"
  show "r < cm_next (drop_handler p s) \<and> (wc_open c \<longrightarrow> (\<exists>q. cm_handlers (drop_handler p s) q = Some r))"
  proof (cases "cm_handlers s p = Some r")
    case True
    with c wf_cm_conn [OF wf] show ?thesis by (fastforce simp: drop_handler_sel)
  next
    case False
    with c have "cm_conns s r = Some c" by (simp add: drop_handler_sel)
    from wf_cm_conn [OF wf this] False show ?thesis by (auto simp: drop_handler_sel)
  qed
next
  fix q r assume "cm_handlers (drop_handler p s) q = Some r"
  with wf_cm_handler [OF wf, of q r] show "cm_conns (drop_handler p s) r \<noteq> None"
    by (auto simp: drop_handler_sel split: if_splits)
next
  fix q q' r assume "cm_handlers (drop_handler p s) q = Some r" "cm_handlers (drop_handler p s) q' = Some r"
  with wf_cm_inj [OF wf, of q r q'] show "q = q'" by (auto simp: drop_handler_sel split: if_splits)
qed

interpretation cm: keyed_store cm_handlers drop_handler wf_cm
  by unfold_locales (simp_all add: drop_handler_sel drop_handler_wf)

text \<open>The outcomes of connecting.\<close>

lemma connect_cases:
  assumes "connect E p url path token rnd ev dl s = (e, s')"
  obtains (failed) x where "e = Some x" "cm_handlers s' = cm_handlers s" "cm_conns s' = cm_conns s"
      "cm_next s \<le> cm_next s'"
  | (connected) u where "e = None" "cm_handlers s' = (cm_handlers s)(p \<mapsto> cm_next s)"
      "cm_conns s' = (cm_conns s)(cm_next s \<mapsto> new_wsconn u token dl)" "cm_next s' = Suc (cm_next s)"
      "bo_attempts (cm_backoff s') = 0"
proof (cases "ce_Parse E url")
  case (Inl x)
  with assms show thesis by (intro failed [of x]) (auto simp: connect_def connect_begin_def)
next
  case (Inr sh)
  obtain scheme host where sh: "sh = (scheme, host)" by fastforce
  let ?u = "(getWebSocketScheme scheme, host, path)"
  obtain w a where w: "WaitForBackoff rnd ev (cm_backoff s) = (w, a)" by fastforce
  from assms Inr sh have run: "connect_end E p ?u token rnd ev dl (setReconnecting p True s) = (e, s')"
    by (simp add: connect_def connect_begin_def)
  show thesis
  proof (cases w)
    case (Some x)
    from run w Some show thesis by (intro failed [of x]) (auto simp: connect_end_def)
  next
    case None
    show thesis
    proof (cases "ce_Dial E ?u token (cm_next s)")
      case (Some x)
      from run w None Some show thesis by (intro failed [of x]) (auto simp: connect_end_def NewConnection_def)
    next
      case d: None
      from run w None d show thesis
        by (intro connected [of ?u]) (auto simp: connect_end_def NewConnection_def resetBackoff_def)
    qed
  qed
qed

lemma connect_wf:
  assumes run: "connect E p url path token rnd ev dl s = (e, s')" and wf: "wf_cm s" and new: "cm_handlers s p = None"
  shows "wf_cm s'"
  using run
proof (cases rule: connect_cases)
  case (failed x)
  show ?thesis
  proof (rule wf_cmI)
    fix r c assume "cm_conns s' r = Some c"
    then have "r < cm_next s \<and> (wc_open c \<longrightarrow> (\<exists>p. cm_handlers s' p = Some r))"
      unfolding failed(2,3) by (rule wf_cm_conn [OF wf])
    with failed(4) show "r < cm_next s' \<and> (wc_open c \<longrightarrow> (\<exists>p. cm_handlers s' p = Some r))"
      by (meson order_less_le_trans)
  qed (use failed wf_cm_handler [OF wf] wf_cm_inj [OF wf] in auto)
next
  case (connected u)
  have fresh: "cm_handlers s q \<noteq> Some (cm_next s)" for q
    using wf_cm_handler [OF wf, of q "cm_next s"] wf_cm_conn [OF wf, of "cm_next s"] by auto
  show ?thesis
  proof (rule wf_cmI)
    fix r c assume r: "cm_conns s' r = Some c"
    show "r < cm_next s' \<and> (wc_open c \<longrightarrow> (\<exists>p. cm_handlers s' p = Some r))"
    proof (cases "r = cm_next s")
      case False
      with r connected have "cm_conns s r = Some c" by simp
      from wf_cm_conn [OF wf this] new connected show ?thesis by auto (metis option.distinct(1))
    qed (use connected in auto)
  next
    fix q r assume "cm_handlers s' q = Some r"
    with connected wf_cm_handler [OF wf, of q r] show "cm_conns s' r \<noteq> None" by (auto split: if_splits)
  next
    fix q q' r assume "cm_handlers s' q = Some r" "cm_handlers s' q' = Some r"
    with connected fresh wf_cm_inj [OF wf, of q r q'] show "q = q'" by (auto split: if_splits)
  qed
qed

lemma WriteMessage_open: "WriteMessage E r m c = (e, c') \<Longrightarrow> wc_open c' = wc_open c"
  by (auto simp: WriteMessage_def split: option.splits if_splits)

lemma Write_wf:
  assumes "Write E p m s = (e, s')" and wf: "wf_cm s"
  shows "wf_cm s'"
proof (cases "\<exists>r c. cm_handlers s p = Some r \<and> cm_conns s r = Some c")
  case True
  then obtain r c where r: "cm_handlers s p = Some r" "cm_conns s r = Some c" by blast
  obtain e1 c1 where w: "WriteMessage E r m c = (e1, c1)" by fastforce
  with assms(1) r have s': "s' = s\<lparr>cm_conns := (cm_conns s)(r \<mapsto> c1)\<rparr>" by (simp add: Write_def)
  show ?thesis
  proof (rule wf_cmI)
    fix q d assume "cm_conns s' q = Some d"
    with s' r WriteMessage_open [OF w] wf_cm_conn [OF wf, of q] wf_cm_conn [OF wf r(2)]
    show "q < cm_next s' \<and> (wc_open d \<longrightarrow> (\<exists>p. cm_handlers s' p = Some q))"
      by (auto split: if_splits)
  qed (use s' wf_cm_handler [OF wf] wf_cm_inj [OF wf] in auto)
next
  case False
  with assms show ?thesis by (auto simp: Write_def split: option.splits)
qed

lemma Close_wf:
  assumes "Close E p b flag s = (e, s')" and wf: "wf_cm s"
  shows "wf_cm s'"
proof -
  from assms(1) consider "s' = s" | r where "s' = close_conn r s"
    by (auto simp: Close_def split: if_splits option.splits)
  then show ?thesis
  proof cases
    case 2
    show ?thesis
    proof (rule wf_cmI)
      fix q d assume "cm_conns s' q = Some d"
      with 2 wf_cm_conn [OF wf, of q]
      show "q < cm_next s' \<and> (wc_open d \<longrightarrow> (\<exists>p. cm_handlers s' p = Some q))"
        by (auto simp: close_conn_def split: if_splits)
    qed (use 2 wf_cm_handler [OF wf] wf_cm_inj [OF wf] in \<open>auto simp: close_conn_def\<close>)
  qed (use wf in simp)
qed

section \<open>The manager as a writer\<close>

text \<open>What has been delivered over the connection now registered.\<close>

definition cm_delivered :: "ProtoType \<Rightarrow> cm \<Rightarrow> ProtoMsg list" where
  "cm_delivered p s =
     (case cm_handlers s p of
        None \<Rightarrow> []
      | Some r \<Rightarrow> (case cm_conns s r of None \<Rightarrow> [] | Some c \<Rightarrow> wc_out c))"

text \<open>\<open>Write\<close> keeps the contract of a response writer, on which the handlers rely.\<close>

lemma WriteMessage_out:
  "WriteMessage E r m c = (e, c') \<Longrightarrow> wc_out c' = wc_out c @ (if e = None then [m] else [])"
  by (auto simp: WriteMessage_def split: option.splits if_splits) metis

lemma Write_cases:
  assumes "Write E p m s = (e, s')"
  obtains (unregistered) "s' = s" "e \<noteq> None"
  | (written) r c c' where "cm_handlers s p = Some r" "cm_conns s r = Some c" "WriteMessage E r m c = (e, c')"
      "s' = s\<lparr>cm_conns := (cm_conns s)(r \<mapsto> c')\<rparr>"
proof (cases "\<exists>r c. cm_handlers s p = Some r \<and> cm_conns s r = Some c")
  case True
  then obtain r c where r: "cm_handlers s p = Some r" "cm_conns s r = Some c" by blast
  obtain e1 c1 where w: "WriteMessage E r m c = (e1, c1)" by fastforce
  with assms r have "e1 = e" "s' = s\<lparr>cm_conns := (cm_conns s)(r \<mapsto> c1)\<rparr>" by (simp_all add: Write_def)
  with written r w show thesis by simp
next
  case False
  with assms have "s' = s \<and> e \<noteq> None" by (auto simp: Write_def split: option.splits)
  with unregistered show thesis by simp
qed

lemma Write_delivered:
  assumes "Write E p m s = (e, s')"
  shows "cm_delivered p s' = cm_delivered p s @ (if e = None then [m] else [])"
  using assms
proof (cases rule: Write_cases)
  case (written r c c')
  then show ?thesis using WriteMessage_out [OF written(3)] by (simp add: cm_delivered_def)
qed simp

interpretation cm_writer: response_writer "Write E p" "cm_delivered p" for E p
  by unfold_locales (simp_all add: Write_delivered)

section \<open>Runs of the manager\<close>

text \<open>The operations in any order, with whatever the network answers and the waits end in.\<close>

inductive cm_step :: "cm_env \<Rightarrow> cm \<Rightarrow> cm \<Rightarrow> bool" for E where
  Connect: "Connect E p url path token rnd ev dl s = (e, s') \<Longrightarrow> cm_step E s s'"
| Reconnect: "Reconnect E p url path token rnd ev dl s = (e, s') \<Longrightarrow> cm_step E s s'"
| Write: "Write E p m s = (e, s') \<Longrightarrow> cm_step E s s'"
| Close: "Close E p b flag s = (e, s') \<Longrightarrow> cm_step E s s'"

inductive cm_reach :: "cm_env \<Rightarrow> cm \<Rightarrow> bool" for E where
  Start: "cm_reach E cm_init"
| Step: "cm_reach E s \<Longrightarrow> cm_step E s s' \<Longrightarrow> cm_reach E s'"

lemma cm_step_wf: "cm_step E s s' \<Longrightarrow> wf_cm s \<Longrightarrow> wf_cm s'"
proof (induction rule: cm_step.induct)
  case (Connect p url path token rnd ev dl s e s')
  show ?case
  proof (cases "cm_handlers s p")
    case None
    with Connect(1) have "connect E p url path token rnd ev dl s = (e, s')" by (simp add: Connect_def)
    from connect_wf [OF this Connect(2) None] show ?thesis .
  next
    case (Some r)
    with Connect(1) have "s' = s" by (simp add: Connect_def)
    with Connect(2) show ?thesis by simp
  qed
next
  case (Reconnect p url path token rnd ev dl s e s')
  from connect_wf [OF Reconnect(1) [unfolded Reconnect_def] drop_handler_wf [OF Reconnect(2)]]
  show ?case by (simp add: drop_handler_sel)
qed (auto dest: Write_wf Close_wf)

lemma cm_reach_wf: "cm_reach E s \<Longrightarrow> wf_cm s"
proof (induction rule: cm_reach.induct)
  case Start
  then show ?case by (auto simp: cm_init_def wf_cm_def)
qed (rule cm_step_wf)

text \<open>
  C18. No connection is forgotten. Whatever has been connected, reconnected, written and closed,
  and however those ended, an open connection is registered for exactly one protocol, and a
  protocol has at most one: none stays open behind the table's back.
\<close>

theorem open_connections_registered:
  assumes "cm_reach E s" and "cm_conns s r = Some c" and "wc_open c"
  shows "\<exists>!p. cm_handlers s p = Some r"
  using wf_cm_conn [OF cm_reach_wf [OF assms(1)] assms(2)] wf_cm_inj [OF cm_reach_wf [OF assms(1)]] assms(3)
  by blast

text \<open>
  C17. Reconnecting replaces. Afterwards the old connection is closed; if there is no error, the
  protocol has a new, open connection with the given token, on which nothing has been written,
  and the back-off starts anew; otherwise it has none, and reading and writing report that.
  The other protocols keep theirs.
\<close>

theorem reconnect_replaces:
  assumes "cm_reach E s" and "Reconnect E p url path token rnd ev dl s = (e, s')"
  shows "(case e of
       None \<Rightarrow> \<exists>r u. cm_handlers s' p = Some r \<and> cm_conns s' r = Some (new_wsconn u token dl) \<and>
         cm_conns s r = None \<and> cm_delivered p s' = [] \<and> bo_attempts (cm_backoff s') = 0
     | Some x \<Rightarrow> Read p got s' = Inl (Sentinel ErrHandlerNotRegistered) \<and>
         Write E p m s' = (Some (Sentinel ErrHandlerNotRegistered), s')) \<and>
     (\<forall>r. cm_handlers s p = Some r \<longrightarrow> (\<exists>c. cm_conns s' r = Some c \<and> \<not> wc_open c)) \<and>
     (\<forall>q r. q \<noteq> p \<longrightarrow> cm_handlers s q = Some r \<longrightarrow> cm_handlers s' q = Some r \<and> cm_conns s' r = cm_conns s r)"
proof -
  note wf = cm_reach_wf [OF assms(1)]
  have fresh: "cm_conns s (cm_next s) = None" using wf_cm_conn [OF wf, of "cm_next s"] by (cases "cm_conns s (cm_next s)") auto
  have old: "\<exists>c. cm_conns (drop_handler p s) r = Some c \<and> \<not> wc_open c \<and> r \<noteq> cm_next s" if "cm_handlers s p = Some r" for r
    using wf_cm_handler [OF wf that] that fresh by (auto simp: drop_handler_sel)
  have others: "cm_handlers (drop_handler p s) q = Some r \<and> cm_conns (drop_handler p s) r = cm_conns s r \<and> r \<noteq> cm_next s"
    if "q \<noteq> p" "cm_handlers s q = Some r" for q r
  proof -
    have "cm_handlers s p \<noteq> Some r" using wf_cm_inj [OF wf that(2), of p] that(1) by blast
    moreover have "r \<noteq> cm_next s" using wf_cm_handler [OF wf that(2)] fresh by metis
    ultimately show ?thesis using that by (simp add: drop_handler_sel)
  qed
  from assms(2) [unfolded Reconnect_def] show ?thesis
  proof (cases rule: connect_cases)
    case (failed x)
    then have "cm_handlers s' p = None" by (simp add: drop_handler_sel)
    then have "Read p got s' = Inl (Sentinel ErrHandlerNotRegistered)"
        "Write E p m s' = (Some (Sentinel ErrHandlerNotRegistered), s')"
      by (simp_all add: Read_def Write_def)
    moreover have "\<exists>c. cm_conns s' r = Some c \<and> \<not> wc_open c" if "cm_handlers s p = Some r" for r
      using old [OF that] failed(3) by auto
    moreover have "cm_handlers s' q = Some r \<and> cm_conns s' r = cm_conns s r"
      if "q \<noteq> p" "cm_handlers s q = Some r" for q r
      using others [OF that] failed(2,3) by simp
    ultimately show ?thesis unfolding failed(1) option.case by blast
  next
    case (connected u)
    have n: "cm_next (drop_handler p s) = cm_next s" by (simp add: drop_handler_sel)
    have h: "cm_handlers s' p = Some (cm_next s)" "cm_conns s' (cm_next s) = Some (new_wsconn u token dl)"
      using connected n by simp_all
    then have "cm_delivered p s' = []" by (simp add: cm_delivered_def new_wsconn_def)
    with connected h fresh have "\<exists>r u. cm_handlers s' p = Some r \<and> cm_conns s' r = Some (new_wsconn u token dl) \<and>
         cm_conns s r = None \<and> cm_delivered p s' = [] \<and> bo_attempts (cm_backoff s') = 0" by blast
    moreover have "\<exists>c. cm_conns s' r = Some c \<and> \<not> wc_open c" if "cm_handlers s p = Some r" for r
      using old [OF that] connected(3) n by auto
    moreover have "cm_handlers s' q = Some r \<and> cm_conns s' r = cm_conns s r"
      if "q \<noteq> p" "cm_handlers s q = Some r" for q r
      using others [OF that] connected(2,3) n that(1) by simp
    ultimately show ?thesis unfolding connected(1) option.case by blast
  qed
qed

section \<open>The specification\<close>

text \<open>
  What a user of the manager and the server see: every connection ever made with its number, the
  address and the token it was made with, whether it is still open, and the messages sent over
  it; for every protocol at most one of them (\<open>L\<close>), and those that have been replaced (\<open>R\<close>). An
  operation has its arguments and its result.
\<close>

datatype link = Link (lk_id: nat) (lk_url: "string \<times> string \<times> string") (lk_token: string) (lk_open: bool)
  (lk_sent: "ProtoMsg list")

type_synonym link_table = "(ProtoType \<rightharpoonup> link) \<times> link set"

datatype cm_op = OpConnect ProtoType string string string int wait_ev int
  | OpReconnect ProtoType string string string int wait_ev int
  | OpWrite ProtoType ProtoMsg
  | OpClose ProtoType bool "nat \<Rightarrow> bool"

fun perform :: "cm_env \<Rightarrow> cm_op \<Rightarrow> cm \<Rightarrow> gerror option \<times> cm" where
  "perform E (OpConnect p url path token rnd ev dl) = Connect E p url path token rnd ev dl"
| "perform E (OpReconnect p url path token rnd ev dl) = Reconnect E p url path token rnd ev dl"
| "perform E (OpWrite p m) = Write E p m"
| "perform E (OpClose p reconnecting flag) = Close E p reconnecting flag"

text \<open>The address that a server's URL and a path stand for, and why an attempt to connect fails: the
  URL, the end of the wait by the context or a cancellation, or the dialling.\<close>

definition endpoint :: "cm_env \<Rightarrow> string \<Rightarrow> string \<Rightarrow> gerror + string \<times> string \<times> string" where
  "endpoint E url path =
     (case ce_Parse E url of Inl e \<Rightarrow> Inl e | Inr (scheme, host) \<Rightarrow> Inr (getWebSocketScheme scheme, host, path))"

definition attempt_fails :: "cm_env \<Rightarrow> string \<Rightarrow> string \<Rightarrow> string \<Rightarrow> wait_ev \<Rightarrow> gerror \<Rightarrow> bool" where
  "attempt_fails E url path token ev x \<longleftrightarrow>
     (case endpoint E url path of
        Inl e \<Rightarrow> x = e
      | Inr u \<Rightarrow> (ev \<noteq> WaitOver \<and> x = Sentinel ErrContextCanceled) \<or> (\<exists>n. ce_Dial E u token n = Some x))"

definition fresh_id :: "nat \<Rightarrow> link_table \<Rightarrow> bool" where
  "fresh_id k T \<longleftrightarrow> (\<forall>l \<in> ran (fst T) \<union> snd T. lk_id l \<noteq> k)"

fun close_link :: "link \<Rightarrow> link" where
  "close_link (Link k u token b log) = Link k u token False log"

definition retire :: "link option \<Rightarrow> link set \<Rightarrow> link set" where
  "retire l R = (case l of None \<Rightarrow> R | Some x \<Rightarrow> insert (close_link x) R)"

text \<open>
  What each operation does, by its result. \<open>Connect\<close> only makes a connection where there is none;
  \<open>Reconnect\<close> closes the old one in any case, and the protocol has none when the attempt fails;
  \<open>Write\<close> succeeds on an open connection only and then has sent this message, and fails for the
  codec, a closed connection or the network, having sent nothing; \<open>Close\<close> closes the connection
  unless a reconnection could not be cancelled.
\<close>

inductive link_step :: "cm_env \<Rightarrow> cm_op \<Rightarrow> gerror option \<Rightarrow> link_table \<Rightarrow> link_table \<Rightarrow> bool" for E where
  Connected: "L p = None \<Longrightarrow> fresh_id k (L, R) \<Longrightarrow> endpoint E url path = Inr u \<Longrightarrow>
    link_step E (OpConnect p url path token rnd ev dl) None (L, R) (L(p \<mapsto> Link k u token True []), R)"
| ConnectFailed: "L p = None \<Longrightarrow> attempt_fails E url path token ev x \<Longrightarrow>
    link_step E (OpConnect p url path token rnd ev dl) (Some x) (L, R) (L, R)"
| ConnectBusy: "L p \<noteq> None \<Longrightarrow>
    link_step E (OpConnect p url path token rnd ev dl) (Some (Sentinel ErrHandlerAlreadyRegistered)) (L, R) (L, R)"
| Reconnected: "fresh_id k (L, R) \<Longrightarrow> endpoint E url path = Inr u \<Longrightarrow>
    link_step E (OpReconnect p url path token rnd ev dl) None (L, R)
      (L(p \<mapsto> Link k u token True []), retire (L p) R)"
| ReconnectFailed: "attempt_fails E url path token ev x \<Longrightarrow>
    link_step E (OpReconnect p url path token rnd ev dl) (Some x) (L, R) (L(p := None), retire (L p) R)"
| Written: "L p = Some (Link k u token True log) \<Longrightarrow>
    link_step E (OpWrite p m) None (L, R) (L(p \<mapsto> Link k u token True (log @ [m])), R)"
| WriteFailed: "L p = Some (Link k u token b log) \<Longrightarrow>
    ce_Marshal E m = Some x \<or> (\<not> b \<and> x = err_closed) \<or> (b \<and> (\<exists>n. ce_Write E k n = Some x)) \<Longrightarrow>
    link_step E (OpWrite p m) (Some x) (L, R) (L, R)"
| WriteNone: "L p = None \<Longrightarrow> link_step E (OpWrite p m) (Some (Sentinel ErrHandlerNotRegistered)) (L, R) (L, R)"
| Closed: "\<not> (reconnecting \<and> \<not> CancelReconnection flag) \<Longrightarrow> L p = Some l \<Longrightarrow>
    link_step E (OpClose p reconnecting flag) (ce_Close E (lk_id l)) (L, R) (L(p \<mapsto> close_link l), R)"
| CloseNone: "\<not> (reconnecting \<and> \<not> CancelReconnection flag) \<Longrightarrow> L p = None \<Longrightarrow>
    link_step E (OpClose p reconnecting flag) (Some (Sentinel ErrHandlerNotRegistered)) (L, R) (L, R)"
| CloseRefused: "reconnecting \<and> \<not> CancelReconnection flag \<Longrightarrow>
    link_step E (OpClose p reconnecting flag) (Some (ErrText ''failed to cancel ongoing reconnection'')) (L, R) (L, R)"

text \<open>The links that the table of connection objects stands for.\<close>

definition link_of :: "nat \<Rightarrow> wsconn \<Rightarrow> link" where
  "link_of r c = Link r (wc_url c) (wc_token c) (wc_open c) (wc_out c)"

definition links :: "cm \<Rightarrow> ProtoType \<rightharpoonup> link" where
  "links s p = (case cm_handlers s p of None \<Rightarrow> None | Some r \<Rightarrow> map_option (link_of r) (cm_conns s r))"

definition retired :: "cm \<Rightarrow> link set" where
  "retired s = {link_of r c | r c. cm_conns s r = Some c \<and> (\<forall>p. cm_handlers s p \<noteq> Some r)}"

definition link_state :: "cm \<Rightarrow> link_table" where
  "link_state s = (links s, retired s)"

lemma link_state_cong:
  assumes "cm_handlers s' = cm_handlers s" "cm_conns s' = cm_conns s"
  shows "link_state s' = link_state s"
proof -
  have "links s' = links s" by (rule ext) (simp add: links_def assms split: option.split)
  then show ?thesis by (simp add: link_state_def retired_def assms)
qed

lemma links_Some: "cm_handlers s p = Some r \<Longrightarrow> cm_conns s r = Some c \<Longrightarrow> links s p = Some (link_of r c)"
  by (simp add: links_def)

lemma links_None: "wf_cm s \<Longrightarrow> links s p = None \<longleftrightarrow> cm_handlers s p = None"
  using wf_cm_handler [of s p] by (auto simp: links_def split: option.splits)

lemma close_link_of [simp]: "close_link (link_of r c) = link_of r (conn_Close c)"
  by (simp add: link_of_def conn_Close_def Let_def)

lemma fresh_next: "wf_cm s \<Longrightarrow> fresh_id (cm_next s) (link_state s)"
  using wf_cm_conn [of s]
  by (fastforce simp: fresh_id_def link_state_def links_def retired_def link_of_def ran_def split: option.splits)

text \<open>Replacing the object registered for one protocol changes its link only.\<close>

lemma links_update:
  assumes wf: "wf_cm s" and p: "cm_handlers s p = Some r"
    and s': "cm_handlers s' = cm_handlers s" "cm_conns s' = (cm_conns s)(r \<mapsto> c)"
  shows "link_state s' = ((links s)(p \<mapsto> link_of r c), retired s)"
proof -
  have "links s' q = ((links s)(p \<mapsto> link_of r c)) q" for q
  proof (cases "q = p")
    case False
    then have "cm_handlers s q \<noteq> Some r" using wf_cm_inj [OF wf p, of q] by blast
    with False s' show ?thesis by (cases "cm_handlers s q") (simp_all add: links_def)
  qed (simp add: links_def p s')
  moreover have "retired s' = retired s" using p s' by (auto simp: retired_def)
  ultimately show ?thesis by (simp add: link_state_def fun_eq_iff)
qed

lemma links_drop:
  assumes wf: "wf_cm s"
  shows "link_state (drop_handler p s) = ((links s)(p := None), retire (links s p) (retired s))"
proof -
  have "links (drop_handler p s) q = ((links s)(p := None)) q" for q
    using wf_cm_inj [OF wf, of p _ q] by (cases "cm_handlers s q") (auto simp: links_def drop_handler_sel)
  moreover have "retired (drop_handler p s) = retire (links s p) (retired s)"
  proof (cases "cm_handlers s p")
    case None
    then have "link_state (drop_handler p s) = link_state s"
      by (intro link_state_cong) (simp_all add: drop_handler_def fun_upd_idem)
    with None show ?thesis by (simp add: retire_def links_def link_state_def)
  next
    case (Some r)
    then obtain c where c: "cm_conns s r = Some c" using wf_cm_handler [OF wf] by auto
    have "(cm_conns (drop_handler p s) q = Some d \<and> (\<forall>p'. cm_handlers (drop_handler p s) p' \<noteq> Some q)) =
        (q = r \<and> d = conn_Close c \<or> cm_conns s q = Some d \<and> (\<forall>p'. cm_handlers s p' \<noteq> Some q))" for q d
    proof (cases "q = r")
      case True
      have "cm_handlers (drop_handler p s) p' \<noteq> Some r" for p'
        using wf_cm_inj [OF wf Some, of p'] by (auto simp: drop_handler_sel)
      with True Some c show ?thesis by (auto simp: drop_handler_sel)
    next
      case False
      with Some have "(cm_handlers (drop_handler p s) p' = Some q) = (cm_handlers s p' = Some q)" for p'
        by (simp add: drop_handler_sel)
      with False Some show ?thesis by (simp add: drop_handler_sel)
    qed
    then have "retired (drop_handler p s) = insert (link_of r (conn_Close c)) (retired s)"
      unfolding retired_def by auto
    with links_Some [OF Some c] show ?thesis by (simp add: retire_def)
  qed
  ultimately show ?thesis by (simp add: link_state_def fun_eq_iff)
qed

lemma connect_result:
  assumes "connect E p url path token rnd ev dl s = (e, s')"
  obtains (failed) x where "e = Some x" "attempt_fails E url path token ev x" "cm_handlers s' = cm_handlers s"
      "cm_conns s' = cm_conns s"
  | (connected) u where "e = None" "endpoint E url path = Inr u" "cm_handlers s' = (cm_handlers s)(p \<mapsto> cm_next s)"
      "cm_conns s' = (cm_conns s)(cm_next s \<mapsto> new_wsconn u token dl)"
proof (cases "endpoint E url path")
  case (Inl x)
  then have "ce_Parse E url = Inl x" by (auto simp: endpoint_def split: sum.splits prod.splits)
  with assms Inl show thesis by (intro failed [of x]) (auto simp: connect_def connect_begin_def attempt_fails_def)
next
  case (Inr u)
  then obtain scheme host where "ce_Parse E url = Inr (scheme, host)" and u: "u = (getWebSocketScheme scheme, host, path)"
    by (auto simp: endpoint_def split: sum.splits)
  with assms have run: "connect_end E p u token rnd ev dl (setReconnecting p True s) = (e, s')"
    by (simp add: connect_def connect_begin_def)
  obtain w a where w: "WaitForBackoff rnd ev (cm_backoff s) = (w, a)" by fastforce
  show thesis
  proof (cases w)
    case (Some x)
    with w have "ev \<noteq> WaitOver \<and> x = Sentinel ErrContextCanceled"
      by (cases ev) (auto simp: WaitForBackoff_def Let_def split: prod.splits if_splits)
    with run w Some Inr show thesis by (intro failed [of x]) (auto simp: connect_end_def attempt_fails_def)
  next
    case None
    show thesis
    proof (cases "ce_Dial E u token (cm_next s)")
      case (Some x)
      with run w None Inr show thesis
        by (intro failed [of x]) (auto simp: connect_end_def NewConnection_def attempt_fails_def)
    next
      case d: None
      from run w None d Inr show thesis
        by (intro connected [of u]) (auto simp: connect_end_def NewConnection_def)
    qed
  qed
qed

lemma links_connected:
  assumes wf: "wf_cm s" and p: "cm_handlers s p = None"
    and s': "cm_handlers s' = (cm_handlers s)(p \<mapsto> cm_next s)" "cm_conns s' = (cm_conns s)(cm_next s \<mapsto> c)"
  shows "link_state s' = ((links s)(p \<mapsto> link_of (cm_next s) c), retired s)"
proof -
  have fresh: "cm_handlers s q \<noteq> Some (cm_next s)" "cm_conns s (cm_next s) = None" for q
    using wf_cm_handler [OF wf, of q "cm_next s"] wf_cm_conn [OF wf, of "cm_next s"] by (auto, metis not_Some_eq)
  have "links s' q = ((links s)(p \<mapsto> link_of (cm_next s) c)) q" for q
    using s' fresh by (auto simp: links_def split: option.splits)
  moreover have "(cm_conns s' r = Some d \<and> (\<forall>q. cm_handlers s' q \<noteq> Some r)) =
      (cm_conns s r = Some d \<and> (\<forall>q. cm_handlers s q \<noteq> Some r))" for r d
  proof (cases "r = cm_next s")
    case True
    have "cm_handlers s' p = Some r" using True s'(1) by simp
    with True fresh(2) show ?thesis by auto
  next
    case False
    then have "cm_handlers s' q = Some r \<longleftrightarrow> cm_handlers s q = Some r" for q using s'(1) p by simp
    with False s'(2) show ?thesis by simp
  qed
  then have "retired s' = retired s" by (simp add: retired_def)
  ultimately show ?thesis by (simp add: link_state_def fun_eq_iff)
qed

text \<open>The operations, one by one.\<close>

lemma Connect_refines:
  assumes "Connect E p url path token rnd ev dl s = (e, s')" and wf: "wf_cm s"
  shows "link_step E (OpConnect p url path token rnd ev dl) e (link_state s) (link_state s')"
proof (cases "cm_handlers s p")
  case (Some r)
  with assms(1) have "s' = s" "e = Some (Sentinel ErrHandlerAlreadyRegistered)" by (simp_all add: Connect_def)
  with Some links_None [OF wf, of p] show ?thesis by (simp add: link_state_def link_step.ConnectBusy)
next
  case None
  with links_None [OF wf, of p] have L: "links s p = None" by simp
  from assms(1) None have "connect E p url path token rnd ev dl s = (e, s')" by (simp add: Connect_def)
  then show ?thesis
  proof (cases rule: connect_result)
    case (failed x)
    from link_state_cong [OF failed(3,4)] link_step.ConnectFailed [where L = "links s" and R = "retired s", OF L failed(2)] failed(1) show ?thesis
      by (simp add: link_state_def)
  next
    case (connected u)
    from link_step.Connected [where L = "links s" and R = "retired s" and k = "cm_next s" and token = token and rnd = rnd and ev = ev and dl = dl, OF L _ connected(2)] fresh_next [OF wf]
    show ?thesis
      unfolding connected(1) links_connected [OF wf None connected(3,4)]
      by (simp add: link_state_def link_of_def new_wsconn_def)
  qed
qed

lemma Reconnect_refines:
  assumes run: "Reconnect E p url path token rnd ev dl s = (e, s')" and wf: "wf_cm s"
  shows "link_step E (OpReconnect p url path token rnd ev dl) e (link_state s) (link_state s')"
proof -
  let ?d = "drop_handler p s"
  note wfd = drop_handler_wf [OF wf, of p]
  have d: "links ?d = (links s)(p := None)" "retired ?d = retire (links s p) (retired s)" "cm_handlers ?d p = None"
    using links_drop [OF wf, of p] by (simp_all add: link_state_def drop_handler_sel)
  from run have "connect E p url path token rnd ev dl ?d = (e, s')" by (simp add: Reconnect_def)
  then show ?thesis
  proof (cases rule: connect_result)
    case (failed x)
    from link_state_cong [OF failed(3,4)] link_step.ReconnectFailed [OF failed(2), of p rnd dl "links s" "retired s"] failed(1) d
    show ?thesis by (simp add: link_state_def)
  next
    case (connected u)
    have "cm_next ?d = cm_next s" by (simp add: drop_handler_sel)
    with link_step.Reconnected [OF _ connected(2), of "cm_next s" "links s" "retired s" p token rnd ev dl] fresh_next [OF wf] d
    show ?thesis
      unfolding connected(1) links_connected [OF wfd d(3) connected(3,4)]
      by (simp add: link_state_def link_of_def new_wsconn_def)
  qed
qed

lemma Write_refines:
  assumes run: "Write E p m s = (e, s')" and wf: "wf_cm s"
  shows "link_step E (OpWrite p m) e (link_state s) (link_state s')"
proof (cases "cm_handlers s p")
  case None
  with run have "s' = s" "e = Some (Sentinel ErrHandlerNotRegistered)" by (simp_all add: Write_def)
  with None links_None [OF wf, of p] show ?thesis by (simp add: link_state_def link_step.WriteNone)
next
  case (Some r)
  then obtain c where c: "cm_conns s r = Some c" using wf_cm_handler [OF wf] by auto
  obtain c' where w: "WriteMessage E r m c = (e, c')" and s': "s' = s\<lparr>cm_conns := (cm_conns s)(r \<mapsto> c')\<rparr>"
    using run Some c by (auto simp: Write_def split: prod.splits)
  have up: "link_state s' = ((links s)(p \<mapsto> link_of r c'), retired s)"
    by (rule links_update [OF wf Some]) (use s' in simp_all)
  have l: "links s p = Some (Link r (wc_url c) (wc_token c) (wc_open c) (wc_out c))"
    using links_Some [OF Some c] by (simp add: link_of_def)
  show ?thesis
  proof (cases e)
    case None
    with w have c': "wc_open c" "link_of r c' = Link r (wc_url c) (wc_token c) True (wc_out c @ [m])"
      by (auto simp: WriteMessage_def link_of_def split: option.splits if_splits)
    with link_step.Written [of "links s" p r "wc_url c" "wc_token c" "wc_out c" E m "retired s"] l None show ?thesis
      unfolding up by (simp add: link_state_def)
  next
    case (Some x)
    with w have c': "link_of r c' = link_of r c"
      "ce_Marshal E m = Some x \<or> (\<not> wc_open c \<and> x = err_closed) \<or> (wc_open c \<and> (\<exists>n. ce_Write E r n = Some x))"
      by (auto simp: WriteMessage_def link_of_def split: option.splits if_splits)
    have "(links s)(p \<mapsto> link_of r c') = links s" using c'(1) l by (simp add: fun_upd_idem link_of_def)
    with link_step.WriteFailed [where L = "links s" and R = "retired s", OF l c'(2)] Some show ?thesis unfolding up by (simp add: link_state_def)
  qed
qed

lemma Close_refines:
  assumes run: "Close E p reconnecting flag s = (e, s')" and wf: "wf_cm s"
  shows "link_step E (OpClose p reconnecting flag) e (link_state s) (link_state s')"
proof (cases "reconnecting \<and> \<not> CancelReconnection flag")
  case True
  with run link_step.CloseRefused [OF True] show ?thesis by (auto simp: Close_def link_state_def)
next
  case go: False
  show ?thesis
  proof (cases "cm_handlers s p")
    case None
    with run go have "s' = s" "e = Some (Sentinel ErrHandlerNotRegistered)" by (auto simp: Close_def split: if_splits)
    with None links_None [OF wf, of p] link_step.CloseNone [OF go] show ?thesis by (simp add: link_state_def)
  next
    case (Some r)
    then obtain c where c: "cm_conns s r = Some c" using wf_cm_handler [OF wf] by auto
    from run go Some have s': "s' = close_conn r s" "e = ce_Close E r" by (auto simp: Close_def split: if_splits)
    have up: "link_state s' = ((links s)(p \<mapsto> link_of r (conn_Close c)), retired s)"
      by (rule links_update [OF wf Some]) (use c s' in \<open>simp_all add: close_conn_def\<close>)
    from link_step.Closed [where L = "links s" and R = "retired s" and E = E, OF go links_Some [OF Some c]] s'(2) show ?thesis
      unfolding up by (simp add: link_state_def) (simp add: link_of_def)
  qed
qed

text \<open>
  C10. The table of connection objects, shared between goroutines and replaced on reconnection,
  implements the links: in whatever state the manager has reached, whatever operation is run with
  whatever arguments, its result and its effect on the links are those that the specification
  \<open>link_step\<close> has for this operation. \<open>Connect\<close> makes one new connection, to the address of the
  URL and the path with the token, where the protocol has none, or fails and changes nothing;
  \<open>Reconnect\<close> closes the old connection and makes a new one, or fails with the old one closed and
  gone; \<open>Write\<close> without an error has sent exactly this message, with one nothing; \<open>Close\<close> closes
  the protocol's connection, unless a reconnection could not be cancelled. Connections of other
  protocols, and those that were replaced, stay as they are.
\<close>

theorem manager_refines_links:
  assumes "cm_reach E s" and "perform E op s = (e, s')"
  shows "link_step E op e (link_state s) (link_state s')"
  using assms(2) cm_reach_wf [OF assms(1)]
  by (cases op) (simp_all add: Connect_refines Reconnect_refines Write_refines Close_refines)

section \<open>The properties at concrete inputs\<close>

definition sample_cm_env :: cm_env where
  "sample_cm_env = \<lparr>ce_Parse = (\<lambda>u. Inr (''https'', u)), ce_Dial = (\<lambda>u t n. None), ce_Marshal = (\<lambda>m. None),
     ce_Write = (\<lambda>r k. None), ce_Close = (\<lambda>r. None)\<rparr>"

definition cm_connected :: cm where
  "cm_connected = snd (Reconnect sample_cm_env 1 ''srv'' ''/p'' ''jwt'' 0 WaitOver 60 cm_init)"

lemma sample_reconnect:
  "Reconnect sample_cm_env 1 ''srv'' ''/p'' ''jwt'' 0 WaitOver 60 cm_init = (None, cm_connected)"
  by (simp add: cm_connected_def Reconnect_def connect_def connect_begin_def connect_end_def sample_cm_env_def
        cm_init_def drop_handler_def setReconnecting_def WaitForBackoff_def GetExponentialBackoffTime_def
        backoff_init_def NewConnection_def perIntervalAttempts_def Let_def)

lemma cm_connected_reach: "cm_reach sample_cm_env cm_connected"
  by (rule cm_reach.Step [OF cm_reach.Start cm_step.Reconnect [OF sample_reconnect]])

theorem reconnect_replaces_witness:
  "\<exists>r u. cm_handlers cm_connected 1 = Some r \<and> cm_conns cm_connected r = Some (new_wsconn u ''jwt'' 60)"
  using reconnect_replaces [OF cm_reach.Start sample_reconnect] by auto

lemma cm_connected_open: "\<exists>r u. cm_conns cm_connected r = Some (new_wsconn u ''jwt'' 60)"
  by (simp add: cm_connected_def Reconnect_def connect_def connect_begin_def connect_end_def sample_cm_env_def
        cm_init_def drop_handler_def setReconnecting_def WaitForBackoff_def GetExponentialBackoffTime_def
        backoff_init_def NewConnection_def perIntervalAttempts_def Let_def) blast

theorem open_connections_registered_witness: "\<exists>r. \<exists>!p. cm_handlers cm_connected p = Some r"
proof -
  obtain r u where r: "cm_conns cm_connected r = Some (new_wsconn u ''jwt'' 60)" using cm_connected_open by blast
  from open_connections_registered [OF cm_connected_reach r] show ?thesis by (auto simp: new_wsconn_def)
qed

theorem backoff_exact_witness:
  "bo_interval (snd (WaitForBackoff 7 WaitOver (backoff_init\<lparr>bo_attempts := 5, bo_interval := 0, bo_randomInterval := 0\<rparr>)))
     = 4 * second + 35"
proof -
  obtain e a' where run: "WaitForBackoff 7 WaitOver (backoff_init\<lparr>bo_attempts := 5, bo_interval := 0, bo_randomInterval := 0\<rparr>) = (e, a')"
    by fastforce
  from backoff_exact [OF _ _ _ _ run, where n = 5 and ival = 0 and rval = 0] run show ?thesis by simp
qed

theorem backoff_overflows_witness:
  "bo_interval (snd (WaitForBackoff 7 WaitOver (backoff_init\<lparr>bo_attempts := 200, bo_interval := 0, bo_randomInterval := 0\<rparr>)))
     = 35"
proof -
  obtain e a' where run: "WaitForBackoff 7 WaitOver (backoff_init\<lparr>bo_attempts := 200, bo_interval := 0, bo_randomInterval := 0\<rparr>) = (e, a')"
    by fastforce
  from backoff_overflows [OF _ _ _ run, where n = 200 and ival = 0 and rval = 0] run show ?thesis by simp
qed

theorem manager_refines_links_witness:
  "\<exists>L R k t. perform sample_cm_env (OpReconnect 1 ''srv2'' ''/p'' ''jwt2'' 0 WaitOver 60) cm_connected = (None, t) \<and>
     link_state cm_connected = (L, R) \<and> L 1 = Some (Link 0 (''wss'', ''srv'', ''/p'') ''jwt'' True []) \<and> k \<noteq> 0 \<and>
     link_state t = (L(1 \<mapsto> Link k (''wss'', ''srv2'', ''/p'') ''jwt2'' True []),
       insert (Link 0 (''wss'', ''srv'', ''/p'') ''jwt'' False []) R)"
proof -
  let ?op = "OpReconnect 1 ''srv2'' ''/p'' ''jwt2'' 0 WaitOver 60"
  let ?L = "links cm_connected" and ?R = "retired cm_connected"
  have L: "?L 1 = Some (Link 0 (''wss'', ''srv'', ''/p'') ''jwt'' True [])"
    by (simp add: links_def cm_connected_def link_of_def Reconnect_def connect_def connect_begin_def connect_end_def sample_cm_env_def
        cm_init_def drop_handler_def setReconnecting_def WaitForBackoff_def GetExponentialBackoffTime_def
        backoff_init_def NewConnection_def perIntervalAttempts_def new_wsconn_def getWebSocketScheme_def Let_def)
  have "fst (perform sample_cm_env ?op cm_connected) = None" by code_simp
  then obtain t where run: "perform sample_cm_env ?op cm_connected = (None, t)" by (cases "perform sample_cm_env ?op cm_connected") simp
  have ep: "endpoint sample_cm_env ''srv2'' ''/p'' = Inr (''wss'', ''srv2'', ''/p'')"
    by (simp add: endpoint_def sample_cm_env_def getWebSocketScheme_def)
  from manager_refines_links [OF cm_connected_reach run]
  have "link_step sample_cm_env ?op None (?L, ?R) (link_state t)" by (simp only: link_state_def)
  then obtain k where k: "fresh_id k (?L, ?R)" "link_state t =
      (?L(1 \<mapsto> Link k (''wss'', ''srv2'', ''/p'') ''jwt2'' True []), retire (?L 1) ?R)"
    using ep by cases auto
  have "k \<noteq> 0" using k(1) L by (force simp: fresh_id_def ran_def)
  with k(2) L run show ?thesis
    by (intro exI [of _ ?L] exI [of _ ?R] exI [of _ k] exI [of _ t]) (simp add: retire_def link_state_def)
qed

end
