(* ===== verification/DBusClient.thy ===== *)
theory DBusClient
  imports WsProtocol
begin

text \<open>
  The D-Bus side (\<open>client/dbus\<close>, \<open>client/mender/auth.go\<close>): the channels through which signals
  reach the daemon, and the client of the authentication manager. The GLib calls are
  parameters.
\<close>

section \<open>Signals (client/dbus/dbus\_libgio.go)\<close>

text \<open>\<open>SignalParams\<close>: the type string and the value.\<close>

type_synonym signal_params = "(string \<times> iface) list"

abbreviation (input) "GDBusTypeString \<equiv> ''s''"

text \<open>\<open>dbusAPILibGio\<close>: the channels created so far. Each has room for one signal; \<open>Some None\<close>
  is an empty channel.\<close>

type_synonym dbus_signals = "string \<rightharpoonup> signal_params option"

definition GetChannelForSignal :: "string \<Rightarrow> dbus_signals \<Rightarrow> signal_params option \<times> dbus_signals" where
  "GetChannelForSignal name d =
     (case d name of None \<Rightarrow> (None, d(name \<mapsto> None)) | Some c \<Rightarrow> (c, d))"

definition DrainSignal :: "string \<Rightarrow> dbus_signals \<Rightarrow> dbus_signals" where
  "DrainSignal name d = (case GetChannelForSignal name d of (c, d) \<Rightarrow> d(name \<mapsto> None))"

text \<open>A non-blocking send: with a signal waiting, the new one is dropped.\<close>

definition HandleSignal :: "string \<Rightarrow> signal_params \<Rightarrow> dbus_signals \<Rightarrow> dbus_signals" where
  "HandleSignal name params d =
     (case GetChannelForSignal name d of
        (None, d) \<Rightarrow> d(name \<mapsto> Some params)
      | (Some p, d) \<Rightarrow> d)"

text \<open>When nothing is waiting the receive waits, and times out if nothing comes.\<close>

definition WaitForSignal :: "string \<Rightarrow> dbus_signals \<Rightarrow> (signal_params \<times> gerror option) \<times> dbus_signals" where
  "WaitForSignal name d =
     (case GetChannelForSignal name d of
        (Some p, d) \<Rightarrow> ((p, None), d(name \<mapsto> None))
      | (None, d) \<Rightarrow> (([], Some (ErrText (''timeout waiting for signal '' @ name))), d))"

text \<open>The callback: of the signal's values only the strings are kept. A value is given with its
  type string and, for a string, its content.\<close>

definition handle_on_signal_callback :: "string \<Rightarrow> (string \<times> string) list \<Rightarrow> dbus_signals \<Rightarrow> dbus_signals" where
  "handle_on_signal_callback signalName params d =
     HandleSignal signalName
       (map (\<lambda>(t, v). (t, IfString v)) (filter (\<lambda>(t, v). t = GDBusTypeString) params)) d"

section \<open>The authentication manager (client/mender/auth.go)\<close>

text \<open>The calls of \<open>DBusAPI\<close> that reach the bus; a call's response is what its three readers
  give.\<close>

record dbus_response =
  rs_String :: string
  rs_TwoStrings :: "string \<times> string"
  rs_Boolean :: bool

record dbus_api =
  da_BusGet :: "nat \<Rightarrow> gerror + nat"
  da_BusProxyNew :: "nat \<Rightarrow> string \<Rightarrow> string \<Rightarrow> string \<Rightarrow> gerror + nat"
  da_BusProxyCall :: "nat option \<Rightarrow> string \<Rightarrow> gerror + dbus_response"

record auth_client =
  ac_dbusConnection :: "nat option"
  ac_authManagerProxy :: "nat option"

abbreviation (input) "DBusSignalNameJwtTokenStateChange \<equiv> ''JwtTokenStateChange''"
definition GBusTypeSystem :: nat where "GBusTypeSystem = 1"

definition NewAuthClient :: auth_client where
  "NewAuthClient = \<lparr>ac_dbusConnection = None, ac_authManagerProxy = None\<rparr>"

definition auth_Connect ::
  "dbus_api \<Rightarrow> string \<Rightarrow> string \<Rightarrow> string \<Rightarrow> auth_client \<Rightarrow> gerror option \<times> auth_client" where
  "auth_Connect api objectName objectPath interfaceName a =
     (case da_BusGet api GBusTypeSystem of
        Inl e \<Rightarrow> (Some e, a)
      | Inr conn \<Rightarrow> (case da_BusProxyNew api conn objectName objectPath interfaceName of
          Inl e \<Rightarrow> (Some e, a)
        | Inr proxy \<Rightarrow> (None, a\<lparr>ac_dbusConnection := Some conn, ac_authManagerProxy := Some proxy\<rparr>)))"

definition GetJWTToken :: "dbus_api \<Rightarrow> auth_client \<Rightarrow> string \<times> string \<times> gerror option" where
  "GetJWTToken api a =
     (case da_BusProxyCall api (ac_authManagerProxy a) ''GetJwtToken'' of
        Inl e \<Rightarrow> ([], [], Some e)
      | Inr r \<Rightarrow> (fst (rs_TwoStrings r), snd (rs_TwoStrings r), None))"

definition FetchJWTToken :: "dbus_api \<Rightarrow> auth_client \<Rightarrow> bool \<times> gerror option" where
  "FetchJWTToken api a =
     (case da_BusProxyCall api (ac_authManagerProxy a) ''FetchJwtToken'' of
        Inl e \<Rightarrow> (False, Some e)
      | Inr r \<Rightarrow> (rs_Boolean r, None))"

definition WaitForJwtTokenStateChange :: "dbus_signals \<Rightarrow> (signal_params \<times> gerror option) \<times> dbus_signals" where
  "WaitForJwtTokenStateChange d = WaitForSignal DBusSignalNameJwtTokenStateChange d"

section \<open>What arrives\<close>

text \<open>Two names do not share a channel.\<close>

lemma HandleSignal_other: "name' \<noteq> name \<Longrightarrow> HandleSignal name p d name' = d name'"
  by (auto simp: HandleSignal_def GetChannelForSignal_def split: option.splits)

lemma wait_after_handle:
  "d name = None \<or> d name = Some None \<Longrightarrow>
   WaitForSignal name (HandleSignal name p d) = ((p, None), d(name \<mapsto> None))"
  by (auto simp: WaitForSignal_def HandleSignal_def GetChannelForSignal_def)

lemma handle_when_full: "d name = Some (Some q) \<Longrightarrow> HandleSignal name p d = d"
  by (simp add: HandleSignal_def GetChannelForSignal_def)

lemma handle_signals_full:
  "d name = Some (Some q) \<Longrightarrow> fold (HandleSignal name) ps d = d"
  by (induction ps) (simp_all add: handle_when_full)

text \<open>
  A token change that comes before the previous one has been taken is lost. The daemon is
  given the first change since it last looked, and none of those that came after it, however
  many: in particular not that it has been deauthorized.
\<close>

theorem later_changes_lost:
  assumes "d DBusSignalNameJwtTokenStateChange = Some None \<or> d DBusSignalNameJwtTokenStateChange = None"
    and strs: "\<forall>x \<in> set vs. fst x = GDBusTypeString"
  shows "WaitForJwtTokenStateChange
       (fold (handle_on_signal_callback DBusSignalNameJwtTokenStateChange) later
         (handle_on_signal_callback DBusSignalNameJwtTokenStateChange vs d)) =
     ((map (\<lambda>(t, v). (GDBusTypeString, IfString v)) vs, None), d(DBusSignalNameJwtTokenStateChange \<mapsto> None))"
proof -
  let ?n = DBusSignalNameJwtTokenStateChange
  let ?strs = "\<lambda>vs. map (\<lambda>(t, v). (t, IfString v)) (filter (\<lambda>(t, v). t = GDBusTypeString) vs)"
  let ?d = "handle_on_signal_callback ?n vs d"
  have full: "?d ?n = Some (Some (?strs vs))"
    using assms(1) by (auto simp: handle_on_signal_callback_def HandleSignal_def GetChannelForSignal_def)
  have "fold (handle_on_signal_callback ?n) later ?d = fold (HandleSignal ?n) (map ?strs later) ?d"
    by (simp add: handle_on_signal_callback_def [abs_def] fold_map comp_def)
  also have "\<dots> = ?d" using full by (rule handle_signals_full)
  finally have eq: "fold (handle_on_signal_callback ?n) later ?d = ?d" .
  have vs: "?strs vs = map (\<lambda>(t, v). (GDBusTypeString, IfString v)) vs"
    using strs by (induction vs) auto
  have "WaitForJwtTokenStateChange ?d = ((?strs vs, None), d(?n \<mapsto> None))"
    unfolding WaitForJwtTokenStateChange_def handle_on_signal_callback_def
    using assms(1) by (intro wait_after_handle) auto
  then show ?thesis unfolding eq vs .
qed

theorem later_changes_lost_witness:
  "WaitForJwtTokenStateChange
     (handle_on_signal_callback DBusSignalNameJwtTokenStateChange [(''s'', []), (''s'', [])]
       (handle_on_signal_callback DBusSignalNameJwtTokenStateChange [(''s'', ''jwt''), (''s'', ''url'')] Map.empty)) =
   (([(''s'', IfString ''jwt''), (''s'', IfString ''url'')], None), [DBusSignalNameJwtTokenStateChange \<mapsto> None])"
  using later_changes_lost [of Map.empty "[(''s'', ''jwt''), (''s'', ''url'')]" "[[(''s'', []), (''s'', [])]]"] by simp

end
