(* ===== verification/Daemon.thy ===== *)
theory Daemon
  imports DaemonShell Device ConnectionManager DBusClient
begin

text \<open>
  The daemon (\<open>app/daemon.go\<close>) with the components it joins: its creation and start-up, the
  routing of messages to the remote terminal or the sessions, the reaction to changes of the
  token, and the sweep of expired terminal sessions.
\<close>

section \<open>Creation and start (NewDaemon, Run)\<close>

text \<open>\<open>NewDaemon\<close>: the fields the model keeps; the routes are \<open>daemon_routes\<close>. The limit of
  sessions per user is a package variable that a positive setting replaces.\<close>

definition NewDaemon :: "MenderShellConfig \<Rightarrow> wire \<Rightarrow> registry \<Rightarrow> daemon" where
  "NewDaemon conf w reg =
     \<lparr>d_wire = w,
      d_reg = (if sc_MaxPerUser (Sessions conf) > 0
               then reg\<lparr>sr_MaxUserSessions := uint (sc_MaxPerUser (Sessions conf))\<rparr> else reg),
      d_shellsSpawned = 0, d_authorized = False, d_serverJwt = [], d_serverUrl = [],
      d_shell = ShellCommand conf,
      d_shellArguments = (case ShellArguments conf of None \<Rightarrow> [] | Some args \<Rightarrow> args),
      d_expireAfter = second * uint (sc_ExpireAfter (Sessions conf)),
      d_expireAfterIdle = second * uint (sc_ExpireAfterIdle (Sessions conf)),
      d_terminalString = DefaultTerminalString, d_uid = 0, d_gid = 0, d_gids = [], d_homeDir = [],
      d_Terminal = Terminal conf\<rparr>"

text \<open>\<open>user.User\<close> as far as it is used, with what \<open>GroupIds\<close> gives.\<close>

record os_user =
  u_Uid :: string
  u_Gid :: string
  u_HomeDir :: string
  u_GroupIds :: "gerror + string list"

fun parse_gids :: "string list \<Rightarrow> gerror + u32 list" where
  "parse_gids [] = Inr []"
| "parse_gids (g # gs) =
     (case ParseUint g 10 32 of
        Inl e \<Rightarrow> Inl (Wrapped (''failed to parse group id '' @ g) e)
      | Inr n \<Rightarrow> (case parse_gids gs of Inl e \<Rightarrow> Inl e | Inr ns \<Rightarrow> Inr (word_of_nat n # ns)))"

text \<open>The part of \<open>Run\<close> that finds out who the shells run as.\<close>

definition Run_user :: "(gerror + os_user option) \<Rightarrow> daemon \<Rightarrow> gerror option \<times> daemon" where
  "Run_user lookup d =
     (case lookup of
        Inl e \<Rightarrow> (Some e, d)
      | Inr None \<Rightarrow> (Some (ErrText ''unknown error while getting a user id''), d)
      | Inr (Some u) \<Rightarrow> (case u_GroupIds u of
          Inl _ \<Rightarrow> (Some (ErrText ''unknown error while getting group ids''), d)
        | Inr gids \<Rightarrow> (case parse_gids gids of
            Inl e \<Rightarrow> (Some e, d)
          | Inr gids \<Rightarrow>
              let d = d\<lparr>d_gids := gids, d_homeDir := u_HomeDir u\<rparr> in
              (case ParseUint (u_Uid u) 10 32 of
                 Inl e \<Rightarrow> (Some e, d)
               | Inr uid \<Rightarrow>
                   let d = d\<lparr>d_uid := word_of_nat uid\<rparr> in
                   (case ParseUint (u_Gid u) 10 32 of
                      Inl e \<Rightarrow> (Some e, d)
                    | Inr gid \<Rightarrow> (None, d\<lparr>d_gid := word_of_nat gid\<rparr>))))))"

text \<open>The part of \<open>Run\<close> that takes the first token; an error leaves both strings empty.\<close>

definition Run_token :: "string \<times> string \<times> gerror option \<Rightarrow> daemon \<Rightarrow> daemon" where
  "Run_token t d =
     (let d = d\<lparr>d_serverJwt := fst t, d_serverUrl := fst (snd t)\<rparr>
      in if length (d_serverJwt d) > 0 \<and> length (d_serverUrl d) > 0 then d\<lparr>d_authorized := True\<rparr> else d)"

section \<open>Routing (routeMessage)\<close>

text \<open>The daemon's messages arrive, in the end, either here or at a session.\<close>

datatype route_result = RouteDone "gerror option" | RouteStuck | RouteDead

definition unknown_message :: "ProtoMsg \<Rightarrow> gerror" where
  "unknown_message m = ErrText (''unknown message protocol and type: ''
     @ itoa (uint (Proto (Header m))) @ ''/'' @ MsgType (Header m))"

definition unknown_response :: "ProtoMsg \<Rightarrow> ProtoMsg" where
  "unknown_response m =
     mk_msg (Proto (Header m)) (MsgType (Header m)) (SessionID (Header m))
       (Some [''status'' \<mapsto> IfStatus ErrorMessage]) (err_msg (unknown_message m))"

text \<open>The sessions write to the daemon's connection. A panic in the terminal's handling ends the
  process, as the message loop does not recover.\<close>

definition routeMessage ::
  "'h sess_env \<Rightarrow> proc_os \<Rightarrow> (ref \<Rightarrow> bytes \<Rightarrow> nat \<times> gerror option) \<Rightarrow> int \<Rightarrow> ProtoMsg \<Rightarrow>
   daemon \<times> 'h router \<Rightarrow> route_result \<times> daemon \<times> 'h router" where
  "routeMessage E po wr now m = (\<lambda>(d, t).
     if Proto (Header m) = ProtoTypeShell then
       (case if tc_Disable (d_Terminal d) then None else route_shell po wr now m d of
          Some (Routed e, d) \<Rightarrow> (RouteDone e, d, t)
        | Some (RoutePanic, d) \<Rightarrow> (RouteDead, d, t)
        | None \<Rightarrow> (RouteDone (Some (unknown_message m)), snd (responseMessage (unknown_response m) d), t))
     else
       (case RouteMessage E m (t\<lparr>rt_wire := d_wire d\<rparr>) of
          (r, t) \<Rightarrow>
            ((case r of RouteOk \<Rightarrow> RouteDone None | RouteErr e \<Rightarrow> RouteDone (Some e)
               | RouteBlocks \<Rightarrow> RouteStuck | ProcessDead \<Rightarrow> RouteDead),
             d\<lparr>d_wire := rt_wire t\<rparr>, t)))"

section \<open>Changes of the token\<close>

text \<open>
  \<open>processJwtTokenStateChange\<close>; \<open>order\<close> is the order in which Go walks the terminal sessions
  and \<open>close\<close> is what \<open>connectionmanager.Close\<close> makes of the connections. \<open>uint\<close> of the
  number of shells is a conversion to 64 bits.
\<close>

definition processJwtTokenStateChange ::
  "proc_os \<Rightarrow> ref list \<Rightarrow> ('c \<Rightarrow> 'c) \<Rightarrow> string \<Rightarrow> string \<Rightarrow> daemon \<times> 'c \<Rightarrow> daemon \<times> 'c" where
  "processJwtTokenStateChange po order close jwtToken serverUrl = (\<lambda>(d, c).
     if length jwtToken > 0 \<and> length serverUrl > 0 then
       (let c = (if \<not> d_authorized d then close c else c)
        in (d\<lparr>d_authorized := True\<rparr>, c))
     else
       (let d = (if d_authorized d then
                   (case MenderSessionTerminateAll po order (d_reg d) of
                      ((shellsCount, sessionsCount, err), reg) \<Rightarrow>
                        let d = d\<lparr>d_reg := reg\<rparr>
                        in if shellsCount > 0 then DecreaseSpawnedShellsCount (word_of_nat shellsCount) d else d)
                 else d)
        in (d\<lparr>d_authorized := False, d_serverJwt := []\<rparr>, close c)))"

text \<open>The two strings of a signal, if it has them.\<close>

definition token_of :: "signal_params \<Rightarrow> (string \<times> string) option" where
  "token_of p =
     (if length p > 1 \<and> fst (p ! 0) = GDBusTypeString \<and> fst (p ! 1) = GDBusTypeString
      then (case (as_string (snd (p ! 0)), as_string (snd (p ! 1))) of
              (Some token, Some serverURL) \<Rightarrow> Some (token, serverURL) | _ \<Rightarrow> None)
      else None)"

text \<open>
  The body of \<open>dbusEventLoop\<close> after a signal: with a usable token, the daemon takes note of
  the change; the result tells whether the token or the server is new, in which case the loop
  then waits a second for a pending request to reconnect.
\<close>

definition dbus_signal ::
  "proc_os \<Rightarrow> ref list \<Rightarrow> ('c \<Rightarrow> 'c) \<Rightarrow> signal_params \<Rightarrow> daemon \<times> 'c \<Rightarrow> bool \<times> daemon \<times> 'c" where
  "dbus_signal po order close p = (\<lambda>(d, c).
     case token_of p of
       None \<Rightarrow> (False, d, c)
     | Some (token, serverURL) \<Rightarrow>
         let (d, c) = processJwtTokenStateChange po order close token serverURL (d, c) in
         (length token > 0 \<and> length serverURL > 0 \<and> (token \<noteq> d_serverJwt d \<or> serverURL \<noteq> d_serverUrl d), d, c))"

definition dbus_store :: "signal_params \<Rightarrow> daemon \<Rightarrow> daemon" where
  "dbus_store p d =
     (case token_of p of
        None \<Rightarrow> d
      | Some (token, serverURL) \<Rightarrow>
          if length token > 0 \<and> length serverURL > 0
          then d\<lparr>d_serverJwt := token, d_serverUrl := serverURL\<rparr> else d)"

text \<open>Posting the reconnection: with the token that the authentication manager has now.\<close>

definition dbus_post :: "string \<times> string \<times> gerror option \<Rightarrow> daemon \<Rightarrow> daemon" where
  "dbus_post t d = d\<lparr>d_serverUrl := fst (snd t), d_serverJwt := fst t\<rparr>"

section \<open>The main loop\<close>

definition expiredSessionsSweepFrequency :: int where "expiredSessionsSweepFrequency = 32 * second"

definition timeToSweepSessions :: "int \<Rightarrow> daemon \<Rightarrow> int \<Rightarrow> bool \<times> int" where
  "timeToSweepSessions now d lastExpiredSessionSweep =
     (if d_expireAfter d = 0 \<and> d_expireAfterIdle d = 0 then (False, lastExpiredSessionSweep)
      else if now > lastExpiredSessionSweep + expiredSessionsSweepFrequency then (True, now)
      else (False, lastExpiredSessionSweep))"

text \<open>A turn of the loop in \<open>Run\<close>. The count of shells is lowered by the number of sessions.\<close>

definition main_turn :: "proc_os \<Rightarrow> int \<Rightarrow> ref list \<Rightarrow> daemon \<times> int \<Rightarrow> daemon \<times> int" where
  "main_turn po now order = (\<lambda>(d, last).
     case timeToSweepSessions now d last of
       (False, last) \<Rightarrow> (d, last)
     | (True, last) \<Rightarrow>
         (case MenderSessionTerminateExpired po now order (d_reg d) of
            ((shellStoppedCount, sessionStoppedCount, totalExpiredLeft, err), reg) \<Rightarrow>
              let d = d\<lparr>d_reg := reg\<rparr> in
              (if err = None \<and> sessionStoppedCount > 0
               then DecreaseSpawnedShellsCount (word_of_nat sessionStoppedCount) d else d, last)))"

section \<open>What the operations leave alone\<close>

lemma DecreaseSpawnedShellsCount_auth [simp]:
  "d_authorized (DecreaseSpawnedShellsCount n d) = d_authorized d"
  "d_serverJwt (DecreaseSpawnedShellsCount n d) = d_serverJwt d"
  "d_serverUrl (DecreaseSpawnedShellsCount n d) = d_serverUrl d"
  by (simp_all add: DecreaseSpawnedShellsCount_def)

text \<open>The outcome of a change of the token.\<close>

lemma process_authorized:
  assumes "token \<noteq> []" "url \<noteq> []"
  shows "processJwtTokenStateChange po order close token url (d, c) =
     (d\<lparr>d_authorized := True\<rparr>, if d_authorized d then c else close c)"
  using assms by (simp add: processJwtTokenStateChange_def)

lemma process_unauthorized:
  assumes "token = [] \<or> url = []"
  shows "\<exists>d'. processJwtTokenStateChange po order close token url (d, c) = (d', close c) \<and>
     \<not> d_authorized d' \<and> d_serverJwt d' = [] \<and> d_serverUrl d' = d_serverUrl d"
  using assms by (auto simp: processJwtTokenStateChange_def Let_def split: prod.splits)

section \<open>Properties of the daemon\<close>


text \<open>
  The two halves do not mix. A message of the terminal's protocol leaves the sessions and
  their router alone, and with the terminal disabled or a type it does not know it is refused
  with one error to its session; any other message leaves the terminal's tables, its count of
  shells and the authorization alone, and only extends what has been sent, by messages of its
  own session.
\<close>

theorem routing_separates:
  assumes "router_reach (device_env conf dv) w0 t0"
    and "routeMessage (device_env conf dv) po wr now m (d, t0) = (r, d', t')"
  shows "if Proto (Header m) = ProtoTypeShell
     then t' = t0 \<and>
       (tc_Disable (d_Terminal d) \<or> route_shell po wr now m d = None \<longrightarrow> d_reg d' = d_reg d \<and>
          (reliable (d_wire d) \<longrightarrow> (\<exists>rsp. wire_out (d_wire d') = wire_out (d_wire d) @ [rsp] \<and>
             SessionID (Header rsp) = SessionID (Header m) \<and>
             prop_get (Properties (Header rsp)) ''status'' = Some (IfStatus ErrorMessage))))
     else d_reg d' = d_reg d \<and> d_shellsSpawned d' = d_shellsSpawned d \<and> d_authorized d' = d_authorized d \<and>
       (\<exists>ms. wire_out (d_wire d') = wire_out (d_wire d) @ ms \<and>
          (\<forall>x \<in> set ms. SessionID (Header x) = SessionID (Header m)))"
proof (cases "Proto (Header m) = ProtoTypeShell")
  case True
  show ?thesis
  proof (cases "tc_Disable (d_Terminal d) \<or> route_shell po wr now m d = None")
    case none: True
    with True assms(2) have d': "t' = t0" "d' = snd (responseMessage (unknown_response m) d)"
      by (auto simp: routeMessage_def split: if_splits)
    then have "d_reg d' = d_reg d" by (simp add: responseMessage_def split_beta)
    moreover have "wire_out (d_wire d') = wire_out (d_wire d) @ [unknown_response m]" if "reliable (d_wire d)"
      using that d' by (simp add: responseMessage_def)
    ultimately show ?thesis using True none d'(1) by (auto simp: unknown_response_def prop_get_def)
  next
    case False
    with True assms(2) have "t' = t0" by (auto simp: routeMessage_def split: option.splits prod.splits routed.splits)
    with True False show ?thesis by auto
  qed
next
  case False
  obtain e t1 where run: "RouteMessage (device_env conf dv) m (t0\<lparr>rt_wire := d_wire d\<rparr>) = (e, t1)" by fastforce
  have wf: "wf_router (t0\<lparr>rt_wire := d_wire d\<rparr>)"
    using router_reach_wf [OF assms(1)] by (simp add: wf_router_def wf_entry_def)
  have "conn.extends_by (in_session (SessionID (Header m))) (d_wire d) (rt_wire t1)"
    using dev.RouteMessage_own [OF run wf] by simp
  moreover have "d' = d\<lparr>d_wire := rt_wire t1\<rparr>" using False assms(2) run by (auto simp: routeMessage_def)
  ultimately show ?thesis using False by (simp add: conn.extends_by_def)
qed

lemma parse_gids_show: "\<forall>n \<in> set ns. n < 2 ^ 32 \<Longrightarrow> parse_gids (map (show_base 10) ns) = Inr (map word_of_nat ns)"
  by (induction ns) (simp_all add: ParseUint_show_base)

lemma parse_gids_ok: "parse_gids gs = Inr ns \<Longrightarrow> length ns = length gs"
  by (induction gs arbitrary: ns) (auto split: sum.splits)

text \<open>
  The user's numbers survive their way through the strings of the user database: if it
  gives the decimal numerals of numbers of 32 bits, the start succeeds and the daemon runs its
  shells with exactly these; and if it succeeds, there are as many groups as numerals.
\<close>

theorem user_ids_roundtrip:
  assumes "lookup = Inr (Some u)" "u_GroupIds u = Inr gids"
  shows "(\<forall>uid gid ns. u_Uid u = show_base 10 uid \<longrightarrow> u_Gid u = show_base 10 gid \<longrightarrow> gids = map (show_base 10) ns \<longrightarrow>
       uid < 2 ^ 32 \<longrightarrow> gid < 2 ^ 32 \<longrightarrow> (\<forall>n \<in> set ns. n < 2 ^ 32) \<longrightarrow>
       (\<exists>d'. Run_user lookup d = (None, d') \<and> unat (d_uid d') = uid \<and> unat (d_gid d') = gid \<and>
          map unat (d_gids d') = ns \<and> d_homeDir d' = u_HomeDir u)) \<and>
     (\<forall>d'. Run_user lookup d = (None, d') \<longrightarrow> length (d_gids d') = length gids)"
proof (intro conjI allI impI)
  fix uid gid ns
  assume a: "u_Uid u = show_base 10 uid" "u_Gid u = show_base 10 gid" "gids = map (show_base 10) ns"
    "uid < 2 ^ 32" "gid < 2 ^ 32" "\<forall>n \<in> set ns. n < 2 ^ 32"
  let ?d = "d\<lparr>d_gids := map word_of_nat ns, d_homeDir := u_HomeDir u, d_uid := word_of_nat uid, d_gid := word_of_nat gid\<rparr>"
  have "Run_user lookup d = (None, ?d)"
    using assms a parse_gids_show [OF a(6)] by (simp add: Run_user_def Let_def ParseUint_show_base)
  moreover have "map (unat \<circ> (word_of_nat :: nat \<Rightarrow> u32)) ns = ns"
    using a(6) by (intro map_idI) (simp add: unat_of_nat take_bit_nat_eq_self)
  moreover have "unat (word_of_nat uid :: u64) = uid" "unat (word_of_nat gid :: u64) = gid"
    using a(4,5) by (simp_all add: unat_of_nat take_bit_nat_eq_self)
  ultimately show "\<exists>d'. Run_user lookup d = (None, d') \<and> unat (d_uid d') = uid \<and> unat (d_gid d') = gid \<and>
      map unat (d_gids d') = ns \<and> d_homeDir d' = u_HomeDir u"
    by (intro exI [of _ ?d]) simp
next
  fix d' assume "Run_user lookup d = (None, d')"
  with assms show "length (d_gids d') = length gids"
    by (auto simp: Run_user_def Let_def dest: parse_gids_ok split: sum.splits)
qed

section \<open>The properties at concrete inputs\<close>


theorem routing_separates_witness:
  "d_reg (fst (snd (routeMessage sample_env sample_po (\<lambda>_ _. (0, None)) 5 (ctl ''ping'' ''s1'')
     (sample_daemon, NewRouter good_wire)))) = empty_registry"
proof -
  obtain r d' t' where run: "routeMessage sample_env sample_po (\<lambda>_ _. (0, None)) 5 (ctl ''ping'' ''s1'')
     (sample_daemon, NewRouter good_wire) = (r, d', t')" by (rule prod_cases3)
  have "Proto (Header (ctl ''ping'' ''s1'')) \<noteq> ProtoTypeShell" by (simp add: proto_defs)
  then have "d_reg d' = d_reg sample_daemon"
    using routing_separates [OF router_reach.Start run] by presburger
  then show ?thesis unfolding run by (simp add: sample_daemon_def)
qed

definition sample_user :: os_user where
  "sample_user = \<lparr>u_Uid = show_base 10 1000, u_Gid = show_base 10 100, u_HomeDir = ''/home/u'',
     u_GroupIds = Inr (map (show_base 10) [100, 27])\<rparr>"

theorem user_ids_roundtrip_witness:
  "\<exists>d'. Run_user (Inr (Some sample_user)) sample_daemon = (None, d') \<and> unat (d_uid d') = 1000 \<and>
     map unat (d_gids d') = [100, 27]"
proof -
  have g: "u_GroupIds sample_user = Inr (map (show_base 10) [100, 27])" by (simp add: sample_user_def)
  have u: "u_Uid sample_user = show_base 10 1000" "u_Gid sample_user = show_base 10 100" "(1000 :: nat) < 2 ^ 32"
    "(100 :: nat) < 2 ^ 32"
    by (simp_all add: sample_user_def)
  have ns: "n \<in> set [100, 27 :: nat] \<Longrightarrow> n < 2 ^ 32" for n by auto
  note h = conjunct1 [OF user_ids_roundtrip [OF refl g, of sample_daemon], rule_format, OF u(1,2) refl u(3,4)]
  have "\<exists>d'. Run_user (Inr (Some sample_user)) sample_daemon = (None, d') \<and> unat (d_uid d') = 1000 \<and>
      unat (d_gid d') = 100 \<and> map unat (d_gids d') = [100, 27] \<and> d_homeDir d' = u_HomeDir sample_user"
    by (rule h) (rule ns)
  then obtain d' where "Run_user (Inr (Some sample_user)) sample_daemon = (None, d')" "unat (d_uid d') = 1000"
    "map unat (d_gids d') = [100, 27]" by (elim exE conjE) (rule that)
  then show ?thesis by (intro exI conjI)
qed

end
