(* ===== verification/DaemonLoops.thy ===== *)
theory DaemonLoops
  imports Daemon
begin

text \<open>
  The daemon's three goroutines and the channels between them (\<open>messageLoop\<close>,
  \<open>dbusEventLoop\<close>, \<open>eventLoop\<close> in \<open>app/daemon.go\<close>), as a step relation over any
  interleaving, with the connection manager they share. What has to hold is that a message loop
  that waits for a connection does not wait in vain.
\<close>

section \<open>State\<close>

text \<open>
  Where each goroutine stands. The message loop is at the top of its loop, with its flags
  \<open>sendConnectReq\<close> and \<open>waitConnectResp\<close>, or reads from a connection. The D-Bus loop is at
  the top, waits for a signal, waits once more for a request after a new token
  (\<open>DbDrain\<close>, with the signal it works on), is before the check whether to reconnect, or posts
  the event. The event loop waits for an event, is about to reconnect, waits for the back-off, or
  posts the outcome.
\<close>

datatype ml_pc = MlTop bool bool | MlRead nat
datatype db_pc = DbTop | DbWait | DbDrain signal_params | DbCheck | DbPost string
datatype ev_pc = EvIdle | EvConnect string | EvWait "string \<times> string \<times> string" string | EvReply string

abbreviation (input) "EventConnectionEstablished \<equiv> ''connected''"
abbreviation (input) "EventConnectionError \<equiv> ''connected-error''"

text \<open>\<open>lp_need\<close> is the D-Bus loop's \<open>needsReconnect\<close>, \<open>lp_est\<close> the channel
  \<open>connectionEstChan\<close>, which has room for one event.\<close>

record loops =
  lp_d :: daemon
  lp_cm :: cm
  lp_ml :: ml_pc
  lp_db :: db_pc
  lp_ev :: ev_pc
  lp_need :: bool
  lp_est :: "string option"

text \<open>As \<open>Run\<close> starts the goroutines.\<close>

definition loops_init :: "daemon \<Rightarrow> loops" where
  "loops_init d = \<lparr>lp_d = d, lp_cm = cm_init, lp_ml = MlTop True True, lp_db = DbTop, lp_ev = EvIdle,
     lp_need = False, lp_est = None\<rparr>"

fun strings_Contains :: "string \<Rightarrow> string \<Rightarrow> bool" where
  "strings_Contains [] t = (t = [])"
| "strings_Contains (c # s) t = (take (length t) (c # s) = t \<or> strings_Contains s t)"

definition is_closed_err :: "gerror \<Rightarrow> bool" where
  "is_closed_err e = strings_Contains (err_msg e) ''use of closed network connection''"

text \<open>
  \<open>connectionmanager.Close(ws.ProtoTypeShell)\<close> as the loops call it. While a reconnection
  waits for its back-off it holds the table, and \<open>Close\<close> gives up unless the reconnection is
  cancelled first, which is a step of the event loop; otherwise it closes what is registered.
\<close>

definition shell_close :: "cm_env \<Rightarrow> ev_pc \<Rightarrow> cm \<Rightarrow> cm" where
  "shell_close E ev s =
     (case ev of
        EvWait u t \<Rightarrow> snd (Close E ProtoTypeShell True (\<lambda>_. True) s)
      | _ \<Rightarrow> snd (Close E ProtoTypeShell False (\<lambda>_. False) s))"

definition table_free :: "ev_pc \<Rightarrow> bool" where
  "table_free ev = (case ev of EvWait u t \<Rightarrow> False | _ \<Rightarrow> True)"

text \<open>\<open>readMessage\<close>: \<open>frame r\<close> is what the websocket of connection \<open>r\<close> reads.\<close>

definition readMessage :: "(bytes \<Rightarrow> gerror + ProtoMsg) \<Rightarrow> (nat \<Rightarrow> gerror + bytes) \<Rightarrow> cm \<Rightarrow> gerror + ProtoMsg" where
  "readMessage unmarshal frame s =
     (case Read ProtoTypeShell (\<lambda>r. ReadMessage unmarshal (frame r)) s of Inl e \<Rightarrow> Inl e | Inr m \<Rightarrow> Inr m)"

section \<open>Steps\<close>

text \<open>
  The outside is in the arguments: what reading a connection gives, what routing a message makes
  of the daemon (which leaves the authorization alone), the signals, what the authentication
  manager answers, how a back-off ends. Reading a connection that has been closed fails, and an
  error only says so of a connection that has been.
\<close>

definition same_auth :: "daemon \<Rightarrow> daemon \<Rightarrow> bool" where
  "same_auth d d' \<longleftrightarrow> d_authorized d' = d_authorized d \<and> d_serverJwt d' = d_serverJwt d \<and> d_serverUrl d' = d_serverUrl d"

definition conn_open :: "nat \<Rightarrow> cm \<Rightarrow> bool" where
  "conn_open r s = (case cm_conns s r of None \<Rightarrow> False | Some c \<Rightarrow> wc_open c)"

inductive loop_step :: "cm_env \<Rightarrow> proc_os \<Rightarrow> loops \<Rightarrow> loops \<Rightarrow> bool" for E po where
  \<comment> \<open>\<open>d.reconnectChan <- e\<close> meets a receive of \<open>needsReconnect\<close>\<close>
  Request: "lp_ml s = MlTop True w \<Longrightarrow> lp_db s = DbTop \<Longrightarrow>
    loop_step E po s (s\<lparr>lp_ml := MlTop False w, lp_db := DbWait, lp_need := True\<rparr>)"
| RequestDrained: "lp_ml s = MlTop True w \<Longrightarrow> lp_db s = DbDrain p \<Longrightarrow>
    loop_step E po s (s\<lparr>lp_ml := MlTop False w, lp_db := DbCheck, lp_d := dbus_store p (lp_d s)\<rparr>)"
  \<comment> \<open>\<open>response := <-d.connectionEstChan\<close>\<close>
| Response: "lp_ml s = MlTop False True \<Longrightarrow> lp_est s = Some e \<Longrightarrow>
    loop_step E po s (s\<lparr>lp_est := None,
      lp_ml := (if e = EventConnectionEstablished then MlTop False False else MlTop True True)\<rparr>)"
  \<comment> \<open>\<open>d.readMessage()\<close> finds the connection, or none\<close>
| ReadStart: "lp_ml s = MlTop False False \<Longrightarrow> table_free (lp_ev s) \<Longrightarrow> cm_handlers (lp_cm s) ProtoTypeShell = Some r \<Longrightarrow>
    loop_step E po s (s\<lparr>lp_ml := MlRead r\<rparr>)"
| ReadNone: "lp_ml s = MlTop False False \<Longrightarrow> table_free (lp_ev s) \<Longrightarrow> cm_handlers (lp_cm s) ProtoTypeShell = None \<Longrightarrow>
    loop_step E po s (s\<lparr>lp_cm := shell_close E (lp_ev s) (lp_cm s), lp_ml := MlTop True True\<rparr>)"
| ReadMessage: "lp_ml s = MlRead r \<Longrightarrow> same_auth (lp_d s) d \<Longrightarrow>
    loop_step E po s (s\<lparr>lp_ml := MlTop False False, lp_d := d\<rparr>)"
| ReadClosed: "lp_ml s = MlRead r \<Longrightarrow> \<not> conn_open r (lp_cm s) \<Longrightarrow> is_closed_err e \<Longrightarrow>
    loop_step E po s (s\<lparr>lp_ml := MlTop False True\<rparr>)"
| ReadError: "lp_ml s = MlRead r \<Longrightarrow> \<not> is_closed_err e \<Longrightarrow>
    loop_step E po s (s\<lparr>lp_cm := shell_close E (lp_ev s) (lp_cm s), lp_ml := MlTop True True\<rparr>)"
  \<comment> \<open>\<open>dbusEventLoop\<close>\<close>
| NoRequest: "lp_db s = DbTop \<Longrightarrow> loop_step E po s (s\<lparr>lp_db := DbWait\<rparr>)"
| Signal: "lp_db s = DbWait \<Longrightarrow> dbus_signal po order (shell_close E (lp_ev s)) p (lp_d s, lp_cm s) = (new, d, c) \<Longrightarrow>
    loop_step E po s (if new then s\<lparr>lp_d := d, lp_cm := c, lp_need := True, lp_db := DbDrain p\<rparr>
      else s\<lparr>lp_d := dbus_store p d, lp_cm := c, lp_db := DbCheck\<rparr>)"
| NotDrained: "lp_db s = DbDrain p \<Longrightarrow> loop_step E po s (s\<lparr>lp_db := DbCheck, lp_d := dbus_store p (lp_d s)\<rparr>)"
| Check: "lp_db s = DbCheck \<Longrightarrow>
    loop_step E po s (if lp_need s \<and> d_authorized (lp_d s)
      then s\<lparr>lp_d := dbus_post t (lp_d s), lp_db := DbPost (fst t)\<rparr> else s\<lparr>lp_db := DbTop\<rparr>)"
  \<comment> \<open>\<open>d.eventChan <- event\<close> meets \<open>readEvent\<close>\<close>
| Post: "lp_db s = DbPost token \<Longrightarrow> lp_ev s = EvIdle \<Longrightarrow>
    loop_step E po s (s\<lparr>lp_db := DbTop, lp_need := False, lp_ev := EvConnect token\<rparr>)"
  \<comment> \<open>\<open>eventLoop\<close>\<close>
| Begin: "lp_ev s = EvConnect token \<Longrightarrow>
    connect_begin E ProtoTypeShell (d_serverUrl (lp_d s)) DefaultDeviceConnectPath
      (drop_handler ProtoTypeShell (lp_cm s)) = (u, c) \<Longrightarrow>
    loop_step E po s (s\<lparr>lp_cm := c,
      lp_ev := (case u of Inl e \<Rightarrow> EvReply EventConnectionError | Inr u \<Rightarrow> EvWait u token)\<rparr>)"
| Finish: "lp_ev s = EvWait u token \<Longrightarrow>
    connect_end E ProtoTypeShell u token rnd ev dl (lp_cm s) = (e, c) \<Longrightarrow>
    loop_step E po s (s\<lparr>lp_cm := c,
      lp_ev := EvReply (if e = None then EventConnectionEstablished else EventConnectionError)\<rparr>)"
| Reply: "lp_ev s = EvReply e \<Longrightarrow> loop_step E po s (s\<lparr>lp_est := Some e, lp_ev := EvIdle\<rparr>)"

inductive loop_reach :: "cm_env \<Rightarrow> proc_os \<Rightarrow> daemon \<Rightarrow> loops \<Rightarrow> bool" for E po d where
  Start: "loop_reach E po d (loops_init d)"
| Step: "loop_reach E po d s \<Longrightarrow> loop_step E po s s' \<Longrightarrow> loop_reach E po d s'"

text \<open>
  Every error of \<open>readMessage\<close> but that of a closed connection, a frame that the codec refuses among
  them, costs the connection: the message loop closes it and asks for another.
\<close>

lemma read_error_reconnects:
  assumes "lp_ml s = MlTop False False" "table_free (lp_ev s)"
    and "readMessage unmarshal frame (lp_cm s) = Inl e" "\<not> is_closed_err e"
  shows "(loop_step E po)\<^sup>*\<^sup>* s (s\<lparr>lp_cm := shell_close E (lp_ev s) (lp_cm s), lp_ml := MlTop True True\<rparr>)"
proof (cases "cm_handlers (lp_cm s) ProtoTypeShell")
  case None
  from loop_step.ReadNone [OF assms(1,2) None] show ?thesis by (rule r_into_rtranclp)
next
  case (Some r)
  let ?s = "s\<lparr>lp_ml := MlRead r\<rparr>"
  have "loop_step E po s ?s" by (rule loop_step.ReadStart [OF assms(1,2) Some])
  moreover have "loop_step E po ?s (?s\<lparr>lp_cm := shell_close E (lp_ev ?s) (lp_cm ?s), lp_ml := MlTop True True\<rparr>)"
    by (rule loop_step.ReadError [of _ r, OF _ assms(4)]) simp
  ultimately show ?thesis by simp
qed

lemma garbled_frame_reconnects:
  assumes "lp_ml s = MlTop False False" "table_free (lp_ev s)" "cm_handlers (lp_cm s) ProtoTypeShell = Some r"
    and "frame r = (Inr data :: gerror + bytes)" "unmarshal data = (Inl e :: gerror + ProtoMsg)" "\<not> is_closed_err e"
  shows "(loop_step E po)\<^sup>*\<^sup>* s (s\<lparr>lp_cm := shell_close E (lp_ev s) (lp_cm s), lp_ml := MlTop True True\<rparr>)"
  using assms(3-5) by (intro read_error_reconnects [OF assms(1,2) _ assms(6), of unmarshal frame])
    (simp add: readMessage_def Read_def ReadMessage_def)

section \<open>A reconnection is on its way\<close>

text \<open>The D-Bus loop will post one, or the event loop works on one, or the daemon is not
  authorized, in which case the next token starts one.\<close>

definition asked :: "loops \<Rightarrow> bool" where
  "asked s \<longleftrightarrow> lp_need s \<or> \<not> d_authorized (lp_d s)"

definition pending :: "loops \<Rightarrow> bool" where
  "pending s \<longleftrightarrow> asked s \<or> lp_ev s \<noteq> EvIdle"

definition ml_waits :: "loops \<Rightarrow> bool" where
  "ml_waits s \<longleftrightarrow> lp_ml s = MlTop False True \<or> (\<exists>r. lp_ml s = MlRead r \<and> \<not> conn_open r (lp_cm s))"

definition ml_will_ask :: "loops \<Rightarrow> bool" where
  "ml_will_ask s \<longleftrightarrow> (\<exists>w. lp_ml s = MlTop True w)"

text \<open>The registered connection is open, or someone is about to replace it.\<close>

definition registered_ok :: "loops \<Rightarrow> bool" where
  "registered_ok s \<longleftrightarrow> (\<forall>r. cm_handlers (lp_cm s) ProtoTypeShell = Some r \<longrightarrow> conn_open r (lp_cm s)) \<or>
     asked s \<or> ml_will_ask s \<or> (\<exists>t. lp_ev s = EvConnect t)"

definition wf_loops :: "loops \<Rightarrow> bool" where
  "wf_loops s \<longleftrightarrow>
     ((\<exists>p. lp_db s = DbDrain p) \<or> (\<exists>t. lp_db s = DbPost t) \<longrightarrow> lp_need s \<and> d_authorized (lp_d s)) \<and>
     (d_authorized (lp_d s) \<or> d_serverJwt (lp_d s) = [] \<or> d_serverUrl (lp_d s) = []) \<and>
     (\<forall>u t. lp_ev s = EvWait u t \<longrightarrow> cm_handlers (lp_cm s) ProtoTypeShell = None) \<and>
     (ml_waits s \<longrightarrow> pending s \<or> lp_est s \<noteq> None) \<and> registered_ok s"

section \<open>It stays on its way\<close>

lemma shell_close_handlers [simp]: "cm_handlers (shell_close E ev c) = cm_handlers c"
  by (auto simp: shell_close_def Close_def close_conn_def split: ev_pc.splits option.splits)

lemma shell_close_open: "conn_open r (shell_close E ev c) \<Longrightarrow> conn_open r c"
  by (auto simp: shell_close_def Close_def close_conn_def conn_open_def split: ev_pc.splits option.splits if_splits)

lemma connect_begin_sel:
  assumes "connect_begin E p url path c = (u, c')"
  shows "cm_handlers c' = cm_handlers c" "cm_conns c' = cm_conns c"
  using assms by (auto simp: connect_begin_def split: sum.splits)

lemma connect_end_open:
  assumes "connect_end E p u token rnd ev dl c = (e, c')" "cm_handlers c p = None" "cm_handlers c' p = Some r"
  shows "conn_open r c'"
proof -
  obtain w a where w: "WaitForBackoff rnd ev (cm_backoff c) = (w, a)" by fastforce
  have "w = None" using assms w by (cases w) (auto simp: connect_end_def)
  moreover have "ce_Dial E u token (cm_next c) = None"
    using assms w \<open>w = None\<close> by (cases "ce_Dial E u token (cm_next c)") (auto simp: connect_end_def NewConnection_def)
  ultimately show ?thesis
    using assms w by (auto simp: connect_end_def NewConnection_def conn_open_def new_wsconn_def)
qed

lemma dbus_store_auth [simp]: "d_authorized (dbus_store p d) = d_authorized d"
  by (simp add: dbus_store_def split: option.splits)

text \<open>What a signal does to the authorization: nothing new leaves it as it was or takes it away, and
  without it the first usable token is new.\<close>

lemma dbus_signal_cases:
  assumes "dbus_signal po order close p (d, c) = (new, d', c')"
    and known: "d_authorized d \<or> d_serverJwt d = [] \<or> d_serverUrl d = []"
  obtains (ignored) "\<not> new" "d' = d" "c' = c" "dbus_store p d' = d"
  | (kept) "\<not> new" "d_authorized d" "d_authorized d'" "c' = c"
  | (new) "new" "d_authorized d'" "c' = c \<or> c' = close c"
  | (lost) "\<not> new" "\<not> d_authorized d'" "d_serverJwt d' = []" "c' = close c" "dbus_store p d' = d'"
proof (cases "token_of p")
  case None
  with assms(1) have "\<not> new" "d' = d" "c' = c" by (simp_all add: dbus_signal_def)
  with None show thesis by (intro ignored) (simp_all add: dbus_store_def)
next
  case (Some tu)
  obtain t u where tu: "tu = (t, u)" by fastforce
  show thesis
  proof (cases "t \<noteq> [] \<and> u \<noteq> []")
    case True
    with assms(1) Some tu have r: "new = (t \<noteq> d_serverJwt d \<or> u \<noteq> d_serverUrl d)"
        "d' = d\<lparr>d_authorized := True\<rparr>" "c' = (if d_authorized d then c else close c)"
      by (auto simp: dbus_signal_def process_authorized)
    show thesis
    proof (cases new)
      case True
      with r show thesis by (intro new) auto
    next
      case False
      with r known True have "d_authorized d" by auto
      with r False show thesis by (intro kept) auto
    qed
  next
    case False
    then have e: "t = [] \<or> u = []" by blast
    from process_unauthorized [OF e, of po order close d c] obtain d1 where
      pr: "processJwtTokenStateChange po order close t u (d, c) = (d1, close c)" "\<not> d_authorized d1" "d_serverJwt d1 = []"
      by blast
    with assms(1) Some tu e have "\<not> new" "d' = d1" "c' = close c" by (auto simp: dbus_signal_def)
    with pr Some tu e show thesis by (intro lost) (auto simp: dbus_store_def)
  qed
qed

lemma wf_loops_start: "d_authorized d \<or> d_serverJwt d = [] \<or> d_serverUrl d = [] \<Longrightarrow> wf_loops (loops_init d)"
  by (auto simp: wf_loops_def loops_init_def ml_waits_def registered_ok_def ml_will_ask_def)

lemmas loops_defs = wf_loops_def ml_waits_def pending_def asked_def registered_ok_def ml_will_ask_def

lemma signal_wf:
  assumes wf: "wf_loops s" and db: "lp_db s = DbWait"
    and sg: "dbus_signal po order (shell_close E (lp_ev s)) p (lp_d s, lp_cm s) = (new, d, c)"
  shows "wf_loops (if new then s\<lparr>lp_d := d, lp_cm := c, lp_need := True, lp_db := DbDrain p\<rparr>
      else s\<lparr>lp_d := dbus_store p d, lp_cm := c, lp_db := DbCheck\<rparr>)"
proof -
  have known: "d_authorized (lp_d s) \<or> d_serverJwt (lp_d s) = [] \<or> d_serverUrl (lp_d s) = []"
    using wf by (simp add: wf_loops_def)
  have ev: "\<forall>u t. lp_ev s = EvWait u t \<longrightarrow> cm_handlers (lp_cm s) ProtoTypeShell = None"
    using wf by (simp add: wf_loops_def)
  from sg known show ?thesis
  proof (cases rule: dbus_signal_cases)
    case ignored
    with wf db show ?thesis by (simp add: loops_defs)
  next
    case kept
    with wf db show ?thesis by (simp add: loops_defs)
  next
    case new
    have "cm_handlers c = cm_handlers (lp_cm s)" using new(3) by auto
    with new(1,2) ev show ?thesis by (simp add: loops_defs)
  next
    case lost
    with ev db show ?thesis by (simp add: loops_defs)
  qed
qed

lemma loop_step_wf: "loop_step E po s s' \<Longrightarrow> wf_loops s \<Longrightarrow> wf_loops s'"
proof (induction rule: loop_step.induct)
  case (Request s w)
  then show ?case by (auto simp: loops_defs)
next
  case (RequestDrained s w p)
  then show ?case by (auto simp: loops_defs)
next
  case (Response s e)
  then show ?case by (auto simp: loops_defs)
next
  case (ReadStart s r)
  then show ?case by (auto simp: loops_defs)
next
  case (ReadNone s)
  then show ?case by (auto simp: loops_defs)
next
  case (ReadMessage s r d)
  then show ?case by (auto simp: loops_defs same_auth_def)
next
  case (ReadClosed s r e)
  then show ?case by (auto simp: loops_defs)
next
  case (ReadError s r e)
  then show ?case by (auto simp: loops_defs)
next
  case (NoRequest s)
  then show ?case by (auto simp: loops_defs)
next
  case (Signal s order p new d c)
  from signal_wf [OF Signal(3,1,2)] show ?case .
next
  case (NotDrained s p)
  then show ?case by (auto simp: loops_defs)
next
  case (Check s t)
  then show ?case by (auto simp: loops_defs dbus_post_def)
next
  case (Post s token)
  then show ?case by (auto simp: loops_defs)
next
  case (Begin s token u c)
  note sel = connect_begin_sel [OF Begin(2)]
  have none: "cm_handlers c ProtoTypeShell = None" by (simp add: sel drop_handler_sel)
  have "(case u of Inl e \<Rightarrow> EvReply EventConnectionError | Inr u \<Rightarrow> EvWait u token) \<noteq> EvIdle" by (cases u) simp_all
  with Begin(1,3) none show ?case by (auto simp: loops_defs)
next
  case (Finish s u token rnd ev dl e c)
  then have "cm_handlers (lp_cm s) ProtoTypeShell = None" by (cases u) (simp add: wf_loops_def)
  note op = connect_end_open [OF Finish(2) this]
  with Finish(1,3) show ?case by (auto simp: loops_defs)
next
  case (Reply s e)
  then show ?case by (auto simp: loops_defs)
qed

lemma loop_reach_wf:
  assumes "loop_reach E po d s" and "d_authorized d \<or> d_serverJwt d = [] \<or> d_serverUrl d = []"
  shows "wf_loops s"
  using assms(1)
proof (induction rule: loop_reach.induct)
  case Start
  from wf_loops_start [OF assms(2)] show ?case .
next
  case (Step s s')
  then show ?case using loop_step_wf by blast
qed

section \<open>It arrives\<close>

text \<open>
  Steps with no help from outside. The server sends nothing and does not break the connection: a
  message loop that reads goes on reading, unless someone else has closed the connection, which it
  then finds. No signal comes from the authentication
  manager: the wait for one ends with its time-out, which leaves everything else as it was. Asked
  for its token, the authentication manager answers \<open>tok\<close> and \<open>url\<close>.
\<close>

definition unaided :: "string \<Rightarrow> string \<Rightarrow> loops \<Rightarrow> loops \<Rightarrow> bool" where
  "unaided tok url s s' \<longleftrightarrow>
     (\<forall>r. lp_ml s = MlRead r \<and> lp_ml s' \<noteq> MlRead r \<longrightarrow>
        \<not> conn_open r (lp_cm s) \<and> s' = s\<lparr>lp_ml := MlTop False True\<rparr>) \<and>
     (lp_db s = DbWait \<and> lp_db s' \<noteq> DbWait \<longrightarrow> s' = s\<lparr>lp_db := DbCheck\<rparr>) \<and>
     (lp_db s = DbCheck \<and> lp_db s' \<notin> {DbCheck, DbTop} \<longrightarrow>
        s' = s\<lparr>lp_d := dbus_post (tok, url, None) (lp_d s), lp_db := DbPost tok\<rparr>)"

definition unaided_step :: "cm_env \<Rightarrow> proc_os \<Rightarrow> string \<Rightarrow> string \<Rightarrow> loops \<Rightarrow> loops \<Rightarrow> bool" where
  "unaided_step E po tok url s s' \<longleftrightarrow> loop_step E po s s' \<and> unaided tok url s s'"

text \<open>The server at this address accepts this token: the address parses, and dialling it succeeds
  whenever it is tried. Nothing is said of other addresses and tokens.\<close>

definition accepts_at :: "cm_env \<Rightarrow> string \<Rightarrow> string \<Rightarrow> bool" where
  "accepts_at E tok url \<longleftrightarrow>
     (case ce_Parse E url of
        Inl e \<Rightarrow> False
      | Inr (scheme, host) \<Rightarrow>
          \<forall>n. ce_Dial E (getWebSocketScheme scheme, host, DefaultDeviceConnectPath) tok n = None)"

abbreviation (input) "steps E po tok url \<equiv> (unaided_step E po tok url)\<^sup>*\<^sup>*"

lemma unaided_Request:
  "lp_ml s = MlTop True w \<Longrightarrow> lp_db s = DbTop \<Longrightarrow>
     unaided_step E po tok url s (s\<lparr>lp_ml := MlTop False w, lp_db := DbWait, lp_need := True\<rparr>)"
  using loop_step.Request by (auto simp: unaided_step_def unaided_def)

lemma unaided_Response:
  "lp_ml s = MlTop False True \<Longrightarrow> lp_est s = Some e \<Longrightarrow>
     unaided_step E po tok url s (s\<lparr>lp_est := None,
       lp_ml := (if e = EventConnectionEstablished then MlTop False False else MlTop True True)\<rparr>)"
  using loop_step.Response [of s e E po] by (auto simp: unaided_step_def unaided_def)

lemma unaided_ReadStart:
  "lp_ml s = MlTop False False \<Longrightarrow> table_free (lp_ev s) \<Longrightarrow> cm_handlers (lp_cm s) ProtoTypeShell = Some r \<Longrightarrow>
     unaided_step E po tok url s (s\<lparr>lp_ml := MlRead r\<rparr>)"
  using loop_step.ReadStart by (auto simp: unaided_step_def unaided_def)

lemma unaided_ReadNone:
  "lp_ml s = MlTop False False \<Longrightarrow> table_free (lp_ev s) \<Longrightarrow> cm_handlers (lp_cm s) ProtoTypeShell = None \<Longrightarrow>
     unaided_step E po tok url s (s\<lparr>lp_cm := shell_close E (lp_ev s) (lp_cm s), lp_ml := MlTop True True\<rparr>)"
  using loop_step.ReadNone by (auto simp: unaided_step_def unaided_def)

lemma unaided_ReadClosed:
  assumes "lp_ml s = MlRead r" "\<not> conn_open r (lp_cm s)"
  shows "unaided_step E po tok url s (s\<lparr>lp_ml := MlTop False True\<rparr>)"
proof -
  have "is_closed_err err_closed" by code_simp
  from loop_step.ReadClosed [OF assms this] assms show ?thesis by (auto simp: unaided_step_def unaided_def)
qed

lemma unaided_NoRequest: "lp_db s = DbTop \<Longrightarrow> unaided_step E po tok url s (s\<lparr>lp_db := DbWait\<rparr>)"
  using loop_step.NoRequest by (auto simp: unaided_step_def unaided_def)

lemma unaided_Timeout:
  assumes "lp_db s = DbWait"
  shows "unaided_step E po tok url s (s\<lparr>lp_db := DbCheck\<rparr>)"
proof -
  have "dbus_signal po [] (shell_close E (lp_ev s)) [] (lp_d s, lp_cm s) = (False, lp_d s, lp_cm s)"
    by (simp add: dbus_signal_def token_of_def)
  from loop_step.Signal [OF assms this] assms show ?thesis
    by (auto simp: unaided_step_def unaided_def dbus_store_def token_of_def)
qed

lemma unaided_NotDrained:
  "lp_db s = DbDrain p \<Longrightarrow> unaided_step E po tok url s (s\<lparr>lp_db := DbCheck, lp_d := dbus_store p (lp_d s)\<rparr>)"
  using loop_step.NotDrained by (auto simp: unaided_step_def unaided_def)

lemma unaided_Check:
  "lp_db s = DbCheck \<Longrightarrow> unaided_step E po tok url s (if lp_need s \<and> d_authorized (lp_d s)
     then s\<lparr>lp_d := dbus_post (tok, url, None) (lp_d s), lp_db := DbPost tok\<rparr> else s\<lparr>lp_db := DbTop\<rparr>)"
  using loop_step.Check [of s E po "(tok, url, None)"] by (cases "lp_need s \<and> d_authorized (lp_d s)") (auto simp: unaided_step_def unaided_def)

lemma unaided_Post:
  "lp_db s = DbPost t \<Longrightarrow> lp_ev s = EvIdle \<Longrightarrow>
     unaided_step E po tok url s (s\<lparr>lp_db := DbTop, lp_need := False, lp_ev := EvConnect t\<rparr>)"
  using loop_step.Post by (auto simp: unaided_step_def unaided_def)

text \<open>The steps of the event loop.\<close>

lemma drop_handler_stays: "conn_open r (drop_handler p c) \<Longrightarrow> conn_open r c"
  by (auto simp: drop_handler_def close_conn_def conn_open_def Let_def split: option.splits if_splits)

lemma unaided_event:
  assumes "loop_step E po s s'" "lp_ml s' = lp_ml s" "lp_db s' = lp_db s"
  shows "unaided_step E po tok url s s'"
  using assms by (auto simp: unaided_step_def unaided_def)

text \<open>Connected, with nobody but the message loop having anything to do.\<close>

definition connected_now :: "loops \<Rightarrow> bool" where
  "connected_now s \<longleftrightarrow> lp_db s = DbTop \<and> lp_ev s = EvIdle \<and> lp_est s = Some EventConnectionEstablished \<and>
     (\<exists>r. cm_handlers (lp_cm s) ProtoTypeShell = Some r \<and> conn_open r (lp_cm s))"

definition quiescent :: "loops \<Rightarrow> bool" where
  "quiescent s \<longleftrightarrow> lp_db s = DbTop \<and> lp_ev s = EvIdle \<and> d_authorized (lp_d s)"

definition keeps :: "loops \<Rightarrow> loops \<Rightarrow> bool" where
  "keeps s s' \<longleftrightarrow> lp_ml s' = lp_ml s \<and> (d_authorized (lp_d s) \<longrightarrow> d_authorized (lp_d s'))"

lemma keeps_refl [simp]: "keeps s s" by (simp add: keeps_def)
lemma keeps_trans: "keeps s s' \<Longrightarrow> keeps s' s'' \<Longrightarrow> keeps s s''" by (auto simp: keeps_def)

lemma unaided_wf: "unaided_step E po tok url s s' \<Longrightarrow> wf_loops s \<Longrightarrow> wf_loops s'"
  using loop_step_wf by (auto simp: unaided_step_def)

lemma steps_wf: "steps E po tok url s s' \<Longrightarrow> wf_loops s \<Longrightarrow> wf_loops s'"
  by (induction rule: rtranclp_induct) (auto simp: unaided_step_def intro: loop_step_wf)

text \<open>The event loop finishes what it does, with whatever outcome, and then the message loop has an
  answer.\<close>

lemma event_loop_replies:
  assumes "lp_ev s = EvReply e"
  shows "\<exists>s'. steps E po tok url s s' \<and> keeps s s' \<and> lp_ev s' = EvIdle \<and> lp_db s' = lp_db s \<and> lp_need s' = lp_need s \<and>
     lp_est s' = Some e \<and> lp_cm s' = lp_cm s"
proof -
  have "unaided_step E po tok url s (s\<lparr>lp_est := Some e, lp_ev := EvIdle\<rparr>)"
    by (rule unaided_event [OF loop_step.Reply [OF assms]]) simp_all
  then show ?thesis
    by (intro exI [of _ "s\<lparr>lp_est := Some e, lp_ev := EvIdle\<rparr>"]) (simp add: keeps_def r_into_rtranclp)
qed

lemma event_loop_waits:
  assumes w: "lp_ev s = EvWait u t" and run: "connect_end E ProtoTypeShell u t rnd ev dl (lp_cm s) = (x, c)"
  shows "\<exists>s'. steps E po tok url s s' \<and> keeps s s' \<and> lp_ev s' = EvIdle \<and> lp_db s' = lp_db s \<and> lp_need s' = lp_need s \<and>
     lp_est s' = Some (if x = None then EventConnectionEstablished else EventConnectionError) \<and> lp_cm s' = c"
proof -
  let ?e = "if x = None then EventConnectionEstablished else EventConnectionError"
  let ?s = "s\<lparr>lp_cm := c, lp_ev := EvReply ?e\<rparr>"
  have st: "unaided_step E po tok url s ?s" by (rule unaided_event [OF loop_step.Finish [OF w run]]) simp_all
  have "lp_ev ?s = EvReply ?e" by simp
  from event_loop_replies [OF this, of E po tok url] obtain s' where s': "steps E po tok url ?s s'" "keeps ?s s'" "lp_ev s' = EvIdle"
    "lp_db s' = lp_db s" "lp_need s' = lp_need s" "lp_est s' = Some ?e" "lp_cm s' = c" by auto
  have "steps E po tok url s s'" using st s'(1) by (rule converse_rtranclp_into_rtranclp)
  with s' show ?thesis by (intro exI [of _ s']) (auto simp: keeps_def)
qed

lemma event_loop_finishes:
  "\<exists>s'. steps E po tok url s s' \<and> keeps s s' \<and> lp_ev s' = EvIdle \<and> lp_db s' = lp_db s \<and> lp_need s' = lp_need s"
proof -
  have wait: "\<exists>s'. steps E po tok url s s' \<and> keeps s s' \<and> lp_ev s' = EvIdle \<and> lp_db s' = lp_db s \<and> lp_need s' = lp_need s"
    if "lp_ev s = EvWait u t" for s u t
    using event_loop_waits [OF that, of E 0 WaitOver 0 _ _ po tok url] by (meson prod.exhaust)
  show ?thesis
  proof (cases "lp_ev s")
    case (EvReply e)
    from event_loop_replies [OF this] show ?thesis by blast
  next
    case (EvWait u t)
    from wait [OF this] show ?thesis .
  next
    case (EvConnect t)
    obtain u c where b: "connect_begin E ProtoTypeShell (d_serverUrl (lp_d s)) DefaultDeviceConnectPath
        (drop_handler ProtoTypeShell (lp_cm s)) = (u, c)" by fastforce
    let ?s = "s\<lparr>lp_cm := c, lp_ev := (case u of Inl e \<Rightarrow> EvReply EventConnectionError | Inr u \<Rightarrow> EvWait u t)\<rparr>"
    have st: "unaided_step E po tok url s ?s" by (rule unaided_event [OF loop_step.Begin [OF EvConnect b]]) simp_all
    have "\<exists>s'. steps E po tok url ?s s' \<and> keeps ?s s' \<and> lp_ev s' = EvIdle \<and> lp_db s' = lp_db ?s \<and> lp_need s' = lp_need ?s"
    proof (cases u)
      case (Inl e)
      then have "lp_ev ?s = EvReply EventConnectionError" by simp
      from event_loop_replies [OF this] show ?thesis by blast
    next
      case (Inr v)
      then have "lp_ev ?s = EvWait v t" by simp
      from wait [OF this] show ?thesis .
    qed
    then obtain s' where s': "steps E po tok url ?s s'" "keeps ?s s'" "lp_ev s' = EvIdle" "lp_db s' = lp_db s" "lp_need s' = lp_need s"
      by auto
    have "steps E po tok url s s'" using st s'(1) by (rule converse_rtranclp_into_rtranclp)
    with s' show ?thesis by (intro exI [of _ s']) (auto simp: keeps_def)
  qed (intro exI [of _ s], simp)
qed

text \<open>With the answer of the authentication manager it connects.\<close>

lemma connect_end_up:
  assumes "\<forall>n. ce_Dial E u t n = None"
  obtains c r where "connect_end E p u t rnd WaitOver dl cm = (None, c)" "cm_handlers c p = Some r" "conn_open r c"
proof -
  obtain w a where w: "WaitForBackoff rnd WaitOver (cm_backoff cm) = (w, a)" by fastforce
  then have "w = None" by (auto simp: WaitForBackoff_def Let_def split: prod.splits if_splits)
  with w assms show thesis
    by (intro that [of "snd (connect_end E p u t rnd WaitOver dl cm)" "cm_next cm"])
       (simp_all add: connect_end_def NewConnection_def conn_open_def new_wsconn_def Let_def)
qed

lemma event_loop_connects:
  assumes up: "accepts_at E tok url" and ev: "lp_ev s = EvConnect tok" "d_serverUrl (lp_d s) = url"
  shows "\<exists>s'. steps E po tok url s s' \<and> keeps s s' \<and> lp_ev s' = EvIdle \<and> lp_db s' = lp_db s \<and>
     lp_est s' = Some EventConnectionEstablished \<and>
     (\<exists>r. cm_handlers (lp_cm s') ProtoTypeShell = Some r \<and> conn_open r (lp_cm s'))"
proof -
  obtain scheme host where sh: "ce_Parse E url = Inr (scheme, host)"
    "\<forall>n. ce_Dial E (getWebSocketScheme scheme, host, DefaultDeviceConnectPath) tok n = None"
    using up by (auto simp: accepts_at_def split: sum.splits)
  let ?u = "(getWebSocketScheme scheme, host, DefaultDeviceConnectPath)"
  obtain c where b: "connect_begin E ProtoTypeShell (d_serverUrl (lp_d s)) DefaultDeviceConnectPath
      (drop_handler ProtoTypeShell (lp_cm s)) = (Inr ?u, c)" using sh(1) ev(2) by (simp add: connect_begin_def)
  let ?s = "s\<lparr>lp_cm := c, lp_ev := EvWait ?u tok\<rparr>"
  have st: "unaided_step E po tok url s ?s" by (rule unaided_event) (use loop_step.Begin [OF ev(1) b, of po] in simp_all)
  obtain c1 r where c1: "connect_end E ProtoTypeShell ?u tok 0 WaitOver 0 (lp_cm ?s) = (None, c1)"
    "cm_handlers c1 ProtoTypeShell = Some r" "conn_open r c1" using connect_end_up [OF sh(2)] by metis
  have "lp_ev ?s = EvWait ?u tok" by simp
  from event_loop_waits [OF this c1(1), of po tok url] obtain s' where s': "steps E po tok url ?s s'" "keeps ?s s'" "lp_ev s' = EvIdle"
    "lp_db s' = lp_db s" "lp_est s' = Some EventConnectionEstablished" "lp_cm s' = c1" by auto
  have "steps E po tok url s s'" using st s'(1) by (rule converse_rtranclp_into_rtranclp)
  with s' c1 show ?thesis by (intro exI [of _ s']) (auto simp: keeps_def)
qed

text \<open>The D-Bus loop posts what has been asked for, without waiting for a signal.\<close>

lemma dbus_loop_posts:
  assumes up: "accepts_at E tok url" and "lp_db s = DbWait \<or> lp_db s = DbCheck" "lp_ev s = EvIdle" "lp_need s" "d_authorized (lp_d s)"
  shows "\<exists>s'. steps E po tok url s s' \<and> keeps s s' \<and> connected_now s'"
proof -
  have check: "\<exists>s'. steps E po tok url s s' \<and> keeps s s' \<and> connected_now s'"
    if "lp_db s = DbCheck" "lp_ev s = EvIdle" "lp_need s" "d_authorized (lp_d s)" for s
  proof -
    let ?s1 = "s\<lparr>lp_d := dbus_post (tok, url, None) (lp_d s), lp_db := DbPost tok\<rparr>"
    have s1: "unaided_step E po tok url s ?s1" using unaided_Check [OF that(1), of E po tok url] that(3,4) by simp
    let ?s2 = "?s1\<lparr>lp_db := DbTop, lp_need := False, lp_ev := EvConnect tok\<rparr>"
    have s2: "unaided_step E po tok url ?s1 ?s2" using that(2) by (intro unaided_Post) simp_all
    have "lp_ev ?s2 = EvConnect tok" "d_serverUrl (lp_d ?s2) = url" by (simp_all add: dbus_post_def)
    from event_loop_connects [OF up this, of po] obtain s' where s': "steps E po tok url ?s2 s'" "keeps ?s2 s'" "lp_ev s' = EvIdle"
      "lp_db s' = DbTop" "lp_est s' = Some EventConnectionEstablished"
      "\<exists>r. cm_handlers (lp_cm s') ProtoTypeShell = Some r \<and> conn_open r (lp_cm s')" by auto
    have "steps E po tok url s s'" using s1 s2 s'(1) by (meson converse_rtranclp_into_rtranclp)
    moreover have "keeps s s'" using s'(2) that(4) by (simp add: keeps_def dbus_post_def)
    ultimately show ?thesis using s' by (auto simp: connected_now_def)
  qed
  show ?thesis
  proof (cases "lp_db s = DbCheck")
    case False
    let ?s = "s\<lparr>lp_db := DbCheck\<rparr>"
    have st: "unaided_step E po tok url s ?s" using False assms(2) by (intro unaided_Timeout) simp
    from check [of ?s] assms obtain s' where s': "steps E po tok url ?s s'" "keeps ?s s'" "connected_now s'" by auto
    have "steps E po tok url s s'" using st s'(1) by (rule converse_rtranclp_into_rtranclp)
    with s' show ?thesis by (auto simp: keeps_def)
  qed (use check assms in blast)
qed

text \<open>Both come to rest.\<close>

lemma loops_settle:
  assumes up: "accepts_at E tok url" and "d_authorized (lp_d s)"
  shows "\<exists>s'. steps E po tok url s s' \<and> keeps s s' \<and> quiescent s'"
proof -
  have idle: "\<exists>s'. steps E po tok url s s' \<and> keeps s s' \<and> lp_ev s' = EvIdle \<and> lp_db s' = lp_db s" for s
    using event_loop_finishes [of E po tok url s] by blast
  have check: "\<exists>s'. steps E po tok url s s' \<and> keeps s s' \<and> quiescent s'"
    if "lp_db s = DbCheck" "lp_ev s = EvIdle" "d_authorized (lp_d s)" for s
  proof (cases "lp_need s")
    case True
    from dbus_loop_posts [OF up disjI2 [OF that(1)] that(2) True that(3)] obtain s' where
      "steps E po tok url s s'" "keeps s s'" "connected_now s'" by blast
    with that show ?thesis by (auto simp: quiescent_def connected_now_def keeps_def)
  next
    case False
    with unaided_Check [OF that(1), of E po tok url] have "unaided_step E po tok url s (s\<lparr>lp_db := DbTop\<rparr>)" by simp
    with that show ?thesis
      by (intro exI [of _ "s\<lparr>lp_db := DbTop\<rparr>"]) (auto simp: quiescent_def keeps_def)
  qed
  obtain s1 where s1: "steps E po tok url s s1" "keeps s s1" "lp_ev s1 = EvIdle" "lp_db s1 = lp_db s" using idle by blast
  have a1: "d_authorized (lp_d s1)" using s1(2) assms(2) by (simp add: keeps_def)
  have "\<exists>s'. steps E po tok url s1 s' \<and> keeps s1 s' \<and> quiescent s'"
  proof (cases "lp_db s1")
    case DbTop
    with s1 a1 show ?thesis by (auto simp: quiescent_def intro!: exI [of _ s1])
  next
    case DbWait
    let ?s = "s1\<lparr>lp_db := DbCheck\<rparr>"
    have st: "unaided_step E po tok url s1 ?s" by (rule unaided_Timeout [OF DbWait])
    from check [of ?s] s1 a1 obtain s' where s': "steps E po tok url ?s s'" "keeps ?s s'" "quiescent s'" by auto
    have "steps E po tok url s1 s'" using st s'(1) by (rule converse_rtranclp_into_rtranclp)
    with s' show ?thesis by (auto simp: keeps_def)
  next
    case (DbDrain p)
    let ?s = "s1\<lparr>lp_db := DbCheck, lp_d := dbus_store p (lp_d s1)\<rparr>"
    from unaided_NotDrained [OF DbDrain] have st: "unaided_step E po tok url s1 ?s" by simp
    from check [of ?s] s1 a1 obtain s' where s': "steps E po tok url ?s s'" "keeps ?s s'" "quiescent s'" by auto
    have "steps E po tok url s1 s'" using st s'(1) by (rule converse_rtranclp_into_rtranclp)
    with s' a1 show ?thesis by (auto simp: keeps_def)
  next
    case DbCheck
    from check [OF this s1(3) a1] show ?thesis .
  next
    case (DbPost t)
    let ?s = "s1\<lparr>lp_db := DbTop, lp_need := False, lp_ev := EvConnect t\<rparr>"
    from unaided_Post [OF DbPost s1(3)] have st: "unaided_step E po tok url s1 ?s" by simp
    from idle [of ?s] obtain s' where s': "steps E po tok url ?s s'" "keeps ?s s'" "lp_ev s' = EvIdle" "lp_db s' = DbTop" by auto
    have "steps E po tok url s1 s'" using st s'(1) by (rule converse_rtranclp_into_rtranclp)
    with s' a1 show ?thesis by (auto simp: keeps_def quiescent_def)
  qed
  with s1 show ?thesis by (meson keeps_trans rtranclp_trans)
qed

text \<open>From a state at rest, by where the message loop stands.\<close>

definition reads_open :: "loops \<Rightarrow> bool" where
  "reads_open s \<longleftrightarrow> (\<exists>r. lp_ml s = MlRead r \<and> conn_open r (lp_cm s))"

lemma step_then:
  "unaided_step E po tok url s s1 \<Longrightarrow> \<exists>s'. steps E po tok url s1 s' \<and> P s' \<Longrightarrow> \<exists>s'. steps E po tok url s s' \<and> P s'"
  by (meson converse_rtranclp_into_rtranclp)

lemma steps_then:
  "steps E po tok url s s1 \<Longrightarrow> \<exists>s'. steps E po tok url s1 s' \<and> P s' \<Longrightarrow> \<exists>s'. steps E po tok url s s' \<and> P s'"
  by (meson rtranclp_trans)

lemma read_registered:
  assumes "lp_ml s = MlTop False False" "lp_ev s = EvIdle" "cm_handlers (lp_cm s) ProtoTypeShell = Some r"
  shows "unaided_step E po tok url s (s\<lparr>lp_ml := MlRead r\<rparr>)"
  using assms by (intro unaided_ReadStart) (simp_all add: table_free_def)

lemma read_when_connected:
  assumes "connected_now s" "lp_ml s = MlTop False w"
  shows "\<exists>s'. steps E po tok url s s' \<and> reads_open s'"
proof -
  from assms(1) obtain r where r: "cm_handlers (lp_cm s) ProtoTypeShell = Some r" "conn_open r (lp_cm s)"
    "lp_ev s = EvIdle" "lp_est s = Some EventConnectionEstablished" by (auto simp: connected_now_def)
  show ?thesis
  proof (cases w)
    case True
    let ?s1 = "s\<lparr>lp_est := None, lp_ml := MlTop False False\<rparr>"
    have "unaided_step E po tok url s ?s1" using unaided_Response [of s _ E po tok url] assms(2) True r(4) by simp
    moreover have "unaided_step E po tok url ?s1 (?s1\<lparr>lp_ml := MlRead r\<rparr>)" by (rule read_registered) (use r in simp_all)
    moreover have "reads_open (?s1\<lparr>lp_ml := MlRead r\<rparr>)" using r(2) by (simp add: reads_open_def)
    ultimately show ?thesis by (meson converse_rtranclp_into_rtranclp rtranclp.rtrancl_refl)
  next
    case False
    have "unaided_step E po tok url s (s\<lparr>lp_ml := MlRead r\<rparr>)" by (rule read_registered) (use r assms(2) False in simp_all)
    moreover have "reads_open (s\<lparr>lp_ml := MlRead r\<rparr>)" using r(2) by (simp add: reads_open_def)
    ultimately show ?thesis by blast
  qed
qed

text \<open>It asks.\<close>

lemma reads_after_asking:
  assumes up: "accepts_at E tok url" and q: "quiescent s" and ml: "lp_ml s = MlTop True w"
  shows "\<exists>s'. steps E po tok url s s' \<and> reads_open s'"
proof -
  let ?s = "s\<lparr>lp_ml := MlTop False w, lp_db := DbWait, lp_need := True\<rparr>"
  have st: "unaided_step E po tok url s ?s" using q by (intro unaided_Request [OF ml]) (simp add: quiescent_def)
  from dbus_loop_posts [OF up, of ?s po] q obtain s' where s': "steps E po tok url ?s s'" "keeps ?s s'" "connected_now s'"
    by (auto simp: quiescent_def)
  then have "lp_ml s' = MlTop False w" by (simp add: keeps_def)
  from read_when_connected [OF s'(3) this] s'(1) st show ?thesis by (blast intro: step_then steps_then)
qed

text \<open>It waits for what has been asked for.\<close>

lemma reads_after_waiting:
  assumes up: "accepts_at E tok url" and q: "quiescent s" and wf: "wf_loops s" and ml: "lp_ml s = MlTop False True"
    and est: "lp_est s = None"
  shows "\<exists>s'. steps E po tok url s s' \<and> reads_open s'"
proof -
  have need: "lp_need s" using wf q ml est by (auto simp: loops_defs quiescent_def)
  let ?s = "s\<lparr>lp_db := DbWait\<rparr>"
  have st: "unaided_step E po tok url s ?s" using q by (intro unaided_NoRequest) (simp add: quiescent_def)
  from dbus_loop_posts [OF up, of ?s po] q need obtain s' where s': "steps E po tok url ?s s'" "keeps ?s s'" "connected_now s'"
    by (auto simp: quiescent_def)
  then have "lp_ml s' = MlTop False True" using ml by (simp add: keeps_def)
  from read_when_connected [OF s'(3) this] s'(1) st show ?thesis by (blast intro: step_then steps_then)
qed

text \<open>It reads a connection, with no answer waiting in the channel.\<close>

lemma reads_again:
  assumes up: "accepts_at E tok url" and q: "quiescent s" and wf: "wf_loops s" and ml: "lp_ml s = MlRead r"
    and est: "lp_est s = None"
  shows "\<exists>s'. steps E po tok url s s' \<and> reads_open s'"
proof (cases "conn_open r (lp_cm s)")
  case True
  with ml show ?thesis by (intro exI [of _ s]) (simp add: reads_open_def)
next
  case False
  let ?s = "s\<lparr>lp_ml := MlTop False True\<rparr>"
  have st: "unaided_step E po tok url s ?s" by (rule unaided_ReadClosed [OF ml False])
  from reads_after_waiting [OF up, of ?s po] unaided_wf [OF st wf] q est
  have "\<exists>s'. steps E po tok url ?s s' \<and> reads_open s'" by (simp add: quiescent_def)
  with st show ?thesis by (blast intro: step_then)
qed

lemma reads_after_start:
  assumes up: "accepts_at E tok url" and q: "quiescent s" and wf: "wf_loops s" and ml: "lp_ml s = MlTop False False"
    and est: "lp_est s = None"
  shows "\<exists>s'. steps E po tok url s s' \<and> reads_open s'"
proof (cases "cm_handlers (lp_cm s) ProtoTypeShell")
  case None
  let ?s = "s\<lparr>lp_cm := shell_close E (lp_ev s) (lp_cm s), lp_ml := MlTop True True\<rparr>"
  have st: "unaided_step E po tok url s ?s" using q None ml by (intro unaided_ReadNone) (simp_all add: quiescent_def table_free_def)
  from reads_after_asking [OF up, of ?s True po] q have "\<exists>s'. steps E po tok url ?s s' \<and> reads_open s'" by (simp add: quiescent_def)
  with st show ?thesis by (blast intro: step_then)
next
  case (Some r)
  let ?s = "s\<lparr>lp_ml := MlRead r\<rparr>"
  have st: "unaided_step E po tok url s ?s" using q by (intro read_registered ml Some) (simp add: quiescent_def)
  from reads_again [OF up, of ?s r po] unaided_wf [OF st wf] q est
  have "\<exists>s'. steps E po tok url ?s s' \<and> reads_open s'" by (simp add: quiescent_def)
  with st show ?thesis by (blast intro: step_then)
qed

text \<open>Any answer in the channel is taken first, or found after the connection has failed.\<close>

lemma reads_after_answer:
  assumes up: "accepts_at E tok url" and q: "quiescent s" and wf: "wf_loops s" and ml: "lp_ml s = MlTop False True"
  shows "\<exists>s'. steps E po tok url s s' \<and> reads_open s'"
proof (cases "lp_est s")
  case None
  from reads_after_waiting [OF up q wf ml None] show ?thesis .
next
  case (Some e)
  let ?s = "s\<lparr>lp_est := None, lp_ml := (if e = EventConnectionEstablished then MlTop False False else MlTop True True)\<rparr>"
  have st: "unaided_step E po tok url s ?s" by (rule unaided_Response [OF ml Some])
  have "\<exists>s'. steps E po tok url ?s s' \<and> reads_open s'"
  proof (cases "e = EventConnectionEstablished")
    case True
    from reads_after_start [OF up, of ?s po] unaided_wf [OF st wf] q True show ?thesis by (simp add: quiescent_def)
  next
    case False
    from reads_after_asking [OF up, of ?s True po] q False show ?thesis by (simp add: quiescent_def)
  qed
  with st show ?thesis by (blast intro: step_then)
qed

lemma reads_from_rest:
  assumes up: "accepts_at E tok url" and q: "quiescent s" and wf: "wf_loops s"
  shows "\<exists>s'. steps E po tok url s s' \<and> reads_open s'"
proof -
  have read: "\<exists>s'. steps E po tok url s s' \<and> reads_open s'" if "lp_ml s = MlRead r" "quiescent s" "wf_loops s" for s r
  proof (cases "conn_open r (lp_cm s)")
    case True
    with that show ?thesis by (intro exI [of _ s]) (simp add: reads_open_def)
  next
    case False
    let ?s = "s\<lparr>lp_ml := MlTop False True\<rparr>"
    have st: "unaided_step E po tok url s ?s" by (rule unaided_ReadClosed [OF that(1) False])
    from reads_after_answer [OF up, of ?s po] unaided_wf [OF st that(3)] that(2)
    have "\<exists>s'. steps E po tok url ?s s' \<and> reads_open s'" by (simp add: quiescent_def)
    with st show ?thesis by (blast intro: step_then)
  qed
  show ?thesis
  proof (cases "lp_ml s")
    case (MlRead r)
    from read [OF this q wf] show ?thesis .
  next
    case (MlTop b w)
    show ?thesis
    proof (cases b)
      case True
      with MlTop have "lp_ml s = MlTop True w" by simp
      from reads_after_asking [OF up q this] show ?thesis .
    next
      case b: False
      show ?thesis
      proof (cases w)
        case True
        with MlTop b have "lp_ml s = MlTop False True" by simp
        from reads_after_answer [OF up q wf this] show ?thesis .
      next
        case w: False
        show ?thesis
        proof (cases "cm_handlers (lp_cm s) ProtoTypeShell")
          case (Some r)
          let ?s = "s\<lparr>lp_ml := MlRead r\<rparr>"
          have st: "unaided_step E po tok url s ?s" using q MlTop b w by (intro read_registered Some) (simp_all add: quiescent_def)
          from read [of ?s r] unaided_wf [OF st wf] q have "\<exists>s'. steps E po tok url ?s s' \<and> reads_open s'"
            by (simp add: quiescent_def)
          with st show ?thesis by (blast intro: step_then)
        next
          case None
          let ?s = "s\<lparr>lp_cm := shell_close E (lp_ev s) (lp_cm s), lp_ml := MlTop True True\<rparr>"
          have st: "unaided_step E po tok url s ?s" using q None MlTop b w
            by (intro unaided_ReadNone) (simp_all add: quiescent_def table_free_def)
          from reads_after_asking [OF up, of ?s True po] q have "\<exists>s'. steps E po tok url ?s s' \<and> reads_open s'"
            by (simp add: quiescent_def)
          with st show ?thesis by (blast intro: step_then)
        qed
      qed
    qed
  qed
qed

section \<open>Properties of the loops\<close>

lemma Run_token_known: "d_authorized d = False \<Longrightarrow>
   d_authorized (Run_token t d) \<or> d_serverJwt (Run_token t d) = [] \<or> d_serverUrl (Run_token t d) = []"
  by (simp add: Run_token_def Let_def)

text \<open>
  C6. The message loop does not wait in vain. In every interleaving of the three goroutines,
  with any signals, errors and messages, when the message loop waits for the outcome of a
  reconnection and there is none in the channel, then a reconnection has been asked for, or the
  event loop is working on one, or the daemon is not authorized and the next token will start
  one; and then the daemon's token or its server is empty, so that any usable token is a new
  one. The same holds while it reads from a connection that someone else has closed.
\<close>

theorem no_lost_wakeup:
  assumes "loop_reach E po (Run_token t d) s" and "\<not> d_authorized d" and "lp_est s = None"
    and "lp_ml s = MlTop False True \<or> (\<exists>r. lp_ml s = MlRead r \<and> \<not> conn_open r (lp_cm s))"
  shows "lp_need s \<or> lp_ev s \<noteq> EvIdle \<or>
     (\<not> d_authorized (lp_d s) \<and> (d_serverJwt (lp_d s) = [] \<or> d_serverUrl (lp_d s) = []))"
  using loop_reach_wf [OF assms(1)] Run_token_known [of d t] assms(2-4)
  by (auto simp: wf_loops_def ml_waits_def pending_def asked_def)

lemma reads_reachable:
  assumes "wf_loops s" "accepts_at E tok url" "d_authorized (lp_d s)"
  shows "\<exists>s'. steps E po tok url s s' \<and> reads_open s'"
proof -
  obtain s1 where s1: "steps E po tok url s s1" "quiescent s1" using loops_settle [OF assms(2,3)] by blast
  from reads_from_rest [OF assms(2) s1(2) steps_wf [OF s1(1) assms(1)]] s1(1)
  show ?thesis by (blast intro: steps_then)
qed

text \<open>
  C7. The connection can always be had. Take any state that the goroutines can reach in which the
  daemon is authorized, and let the server at the address that the authentication manager gives
  accept the token that it gives. Then there is a continuation after which the message loop reads
  from an open connection: no interleaving, no stale answer in the channel, no failed or cancelled
  attempt under way and no other address it is at leads into a dead end. The continuation needs
  nothing else from outside (\<open>unaided_step\<close>): no signal of the authentication manager, no message
  and no error of a connection that is open.
\<close>

theorem connection_restorable:
  assumes "loop_reach E po (Run_token t d) s" and "\<not> d_authorized d"
    and "accepts_at E tok url" and "d_authorized (lp_d s)"
  shows "\<exists>s' r. (unaided_step E po tok url)\<^sup>*\<^sup>* s s' \<and> lp_ml s' = MlRead r \<and> conn_open r (lp_cm s')"
proof -
  have "wf_loops s" using loop_reach_wf [OF assms(1)] Run_token_known [of d t] assms(2) by blast
  from reads_reachable [OF this assms(3,4)] show ?thesis by (auto simp: reads_open_def)
qed

section \<open>The properties at concrete inputs\<close>

definition fresh_daemon :: daemon where
  "fresh_daemon = NewDaemon NewMenderShellConfig good_wire empty_registry"

lemma fresh_daemon_unauthorized: "\<not> d_authorized fresh_daemon"
  by (simp add: fresh_daemon_def NewDaemon_def)

theorem no_lost_wakeup_witness:
  "\<exists>s. loop_reach sample_cm_env sample_po (Run_token (''jwt'', ''srv'', None) fresh_daemon) s \<and>
     lp_ml s = MlTop False True \<and> lp_est s = None \<and> (lp_need s \<or> lp_ev s \<noteq> EvIdle)"
proof -
  let ?i = "loops_init (Run_token (''jwt'', ''srv'', None) fresh_daemon)"
  let ?s = "?i\<lparr>lp_ml := MlTop False True, lp_db := DbWait, lp_need := True\<rparr>"
  have "loop_step sample_cm_env sample_po ?i ?s" by (rule loop_step.Request) (simp_all add: loops_init_def)
  then have reach: "loop_reach sample_cm_env sample_po (Run_token (''jwt'', ''srv'', None) fresh_daemon) ?s"
    by (rule loop_reach.Step [OF loop_reach.Start])
  from no_lost_wakeup [OF this fresh_daemon_unauthorized] have "lp_need ?s \<or> lp_ev ?s \<noteq> EvIdle"
    by (simp add: loops_init_def)
  with reach show ?thesis by (intro exI [of _ ?s]) (simp add: loops_init_def)
qed

text \<open>A server that knows one token only, and a daemon that has been given another.\<close>

definition picky_cm_env :: cm_env where
  "picky_cm_env = sample_cm_env\<lparr>ce_Dial := (\<lambda>u t n. if t = ''jwt2'' then None else Some ENOENT)\<rparr>"

theorem connection_restorable_witness:
  "\<exists>s' r. (unaided_step picky_cm_env sample_po ''jwt2'' ''srv'')\<^sup>*\<^sup>*
     (loops_init (Run_token (''jwt'', ''srv'', None) fresh_daemon)) s' \<and>
     lp_ml s' = MlRead r \<and> conn_open r (lp_cm s')"
proof -
  have up: "accepts_at picky_cm_env ''jwt2'' ''srv''" by (simp add: accepts_at_def picky_cm_env_def sample_cm_env_def)
  have "d_authorized (lp_d (loops_init (Run_token (''jwt'', ''srv'', None) fresh_daemon)))"
    by (simp add: loops_init_def Run_token_def)
  from connection_restorable [OF loop_reach.Start fresh_daemon_unauthorized up this] show ?thesis .
qed

end
