(* ===== verification/Cli.thy ===== *)
theory Cli
  imports Daemon
begin

text \<open>
  The command line (\<open>cli/cli.go\<close>, \<open>cli/commands.go\<close>): from the configuration files to a
  daemon that is created and run, or an error; and the two signals a running daemon reacts to.
\<close>

section \<open>Commands\<close>

text \<open>\<open>runOptionsType\<close>, with the files that the two paths name.\<close>

record run_options =
  ro_config :: config_file
  ro_fallbackConfig :: config_file
  ro_debug :: bool
  ro_trace :: bool

text \<open>How the program goes on: with an error, with \<open>log.Fatal\<close>, with the help text and exit
  status 1, or with a daemon and the settings it was created from.\<close>

datatype cli_end = CliError gerror | CliFatal gerror | CliHelp | CliDaemon MenderShellConfig daemon

definition initDaemon :: "MenderShellConfig \<Rightarrow> daemon" where
  "initDaemon conf = NewDaemon conf good_wire empty_registry"

definition handleCLIOptions ::
  "os_env \<Rightarrow> (gerror + string list) \<Rightarrow> string \<Rightarrow> run_options \<Rightarrow> cli_end" where
  "handleCLIOptions os shells command ro =
     (case LoadConfig (ro_config ro) (ro_fallbackConfig ro) of
        Inl e \<Rightarrow> CliError e
      | Inr config \<Rightarrow>
          let config = config\<lparr>cfg_Debug := ro_debug ro, cfg_Trace := ro_trace ro\<rparr>
          in (case Validate os shells config of
                Fatal e \<Rightarrow> CliFatal e
              | Ret (Some e, config) \<Rightarrow> CliError e
              | Ret (None, config) \<Rightarrow>
                  if command = ''daemon'' then CliDaemon config (initDaemon config) else CliHelp))"

text \<open>The goroutine of \<open>runDaemon\<close>: SIGTERM and SIGUSR1; \<open>stop\<close> and \<open>printStatus\<close> of the daemon.\<close>

datatype os_signal = SIGTERM | SIGUSR1

record run_flags =
  rf_stop :: bool
  rf_printStatus :: bool

definition StopDaemon :: "run_flags \<Rightarrow> run_flags" where "StopDaemon f = f\<lparr>rf_stop := True\<rparr>"
definition PrintStatus :: "run_flags \<Rightarrow> run_flags" where "PrintStatus f = f\<lparr>rf_printStatus := True\<rparr>"
definition shouldStop :: "run_flags \<Rightarrow> bool" where "shouldStop f = rf_stop f"
definition shouldPrintStatus :: "run_flags \<Rightarrow> bool" where "shouldPrintStatus f = rf_printStatus f"

definition on_signal :: "os_signal \<Rightarrow> run_flags \<Rightarrow> run_flags" where
  "on_signal sig f = (case sig of SIGTERM \<Rightarrow> StopDaemon f | SIGUSR1 \<Rightarrow> PrintStatus f)"

lemma stops_iff: "shouldStop (fold on_signal sigs f) \<longleftrightarrow> shouldStop f \<or> SIGTERM \<in> set sigs"
  by (induction sigs arbitrary: f)
     (auto simp: on_signal_def shouldStop_def StopDaemon_def PrintStatus_def split: os_signal.splits)

text \<open>
  How signals get there (\<open>runDaemon\<close>): \<open>signal.Notify\<close> asks for each of the two, before which the
  system ends the process; the channel has room for two, and one that arrives when it is full is
  dropped, as \<open>os/signal\<close> never blocks; the goroutine takes one at a time.
\<close>

record signals =
  sg_notified :: "os_signal list"
  sg_pending :: "os_signal list"
  sg_flags :: run_flags

datatype signal_ev = Notify os_signal | Arrives os_signal | Taken

definition signal_step :: "signal_ev \<Rightarrow> signals \<Rightarrow> signals option" where
  "signal_step ev s =
     (case ev of
        Notify sig \<Rightarrow> Some (s\<lparr>sg_notified := sig # sg_notified s\<rparr>)
      | Arrives sig \<Rightarrow>
          if sig \<notin> set (sg_notified s) then None
          else if length (sg_pending s) < 2 then Some (s\<lparr>sg_pending := sg_pending s @ [sig]\<rparr>)
          else Some s
      | Taken \<Rightarrow> (case sg_pending s of
            [] \<Rightarrow> Some s
          | sig # rest \<Rightarrow> Some (s\<lparr>sg_pending := rest, sg_flags := on_signal sig (sg_flags s)\<rparr>)))"

fun signal_run :: "signal_ev list \<Rightarrow> signals \<Rightarrow> signals option" where
  "signal_run [] s = Some s"
| "signal_run (ev # evs) s = Option.bind (signal_step ev s) (signal_run evs)"

lemma stop_stays: "shouldStop f \<Longrightarrow> shouldStop (on_signal sig f)"
  by (simp add: on_signal_def shouldStop_def StopDaemon_def PrintStatus_def split: os_signal.split)

text \<open>A SIGTERM that found room stops the daemon once the goroutine has taken what is pending, whatever
  else arrives.\<close>

definition will_stop :: "signals \<Rightarrow> bool" where
  "will_stop s \<longleftrightarrow> shouldStop (sg_flags s) \<or> SIGTERM \<in> set (sg_pending s)"

lemma signal_step_will_stop: "signal_step ev s = Some s' \<Longrightarrow> will_stop s \<Longrightarrow> will_stop s'"
  by (auto simp: signal_step_def will_stop_def stop_stays on_signal_def shouldStop_def StopDaemon_def PrintStatus_def
      split: signal_ev.splits os_signal.splits if_splits list.splits)

lemma signal_run_will_stop: "signal_run evs s = Some s' \<Longrightarrow> will_stop s \<Longrightarrow> will_stop s' \<and> (sg_pending s' = [] \<longrightarrow> shouldStop (sg_flags s'))"
proof (induction evs arbitrary: s)
  case (Cons ev evs)
  then show ?case by (auto split: Option.bind_splits dest: signal_step_will_stop)
qed (auto simp: will_stop_def)

text \<open>One that arrives behind two that are pending is lost.\<close>

lemma sigterm_swallowed:
  "map_option (\<lambda>s. (sg_pending s, shouldStop (sg_flags s)))
     (signal_run [Notify SIGTERM, Notify SIGUSR1, Arrives SIGUSR1, Arrives SIGUSR1, Arrives SIGTERM, Taken, Taken]
        \<lparr>sg_notified = [], sg_pending = [], sg_flags = \<lparr>rf_stop = False, rf_printStatus = False\<rparr>\<rparr>) = Some ([], False)"
  by code_simp

lemma initDaemon_ok: "ok_daemon (initDaemon c)" and initDaemon_unauthorized: "\<not> d_authorized (initDaemon c)"
  by (auto simp: initDaemon_def NewDaemon_def ok_daemon_def ok_reg_def empty_registry_def wf_reg_def idx_def
        word_less_def)

section \<open>Properties\<close>

lemma handleCLIOptions_daemon:
  assumes "handleCLIOptions os shells command ro = CliDaemon c d"
  obtains c0 where "LoadConfig (ro_config ro) (ro_fallbackConfig ro) = Inr c0"
    "Validate os shells (c0\<lparr>cfg_Debug := ro_debug ro, cfg_Trace := ro_trace ro\<rparr>) = Ret (None, c)"
    "command = ''daemon''" "d = initDaemon c"
  using assms
  by (auto simp: handleCLIOptions_def Let_def split: sum.splits outcome.splits prod.splits option.splits if_splits)

lemma handleCLIOptions_flags:
  assumes "handleCLIOptions os shells command ro = CliDaemon c d"
  shows "cfg_Debug c = ro_debug ro" "cfg_Trace c = ro_trace ro"
proof -
  from handleCLIOptions_daemon [OF assms] obtain c0 where
    v: "Validate os shells (c0\<lparr>cfg_Debug := ro_debug ro, cfg_Trace := ro_trace ro\<rparr>) = Ret (None, c)" by blast
  from v [unfolded Validate_ok_iff] show "cfg_Debug c = ro_debug ro" "cfg_Trace c = ro_trace ro"
    by (simp_all add: applyDefaults_def)
qed

text \<open>
  C31. No daemon runs with an incomplete configuration. Whenever the program gets as far as a
  daemon, the files could be loaded, every setting with a default has a usable value, the shell
  is an absolute path to an executable listed among the shells, the user exists, and the
  daemon has these settings: its shell and arguments, its terminal, expiry times that are not
  both zero exactly when expired sessions are to be stopped, and the given limit of sessions
  per user.
\<close>

theorem daemon_has_valid_config:
  assumes "handleCLIOptions os shells command ro = CliDaemon c d"
  shows "complete_config c \<and> hd (ShellCommand c) = CHR ''/'' \<and> isExecutable os (ShellCommand c) \<and>
     isInShells shells (ShellCommand c) = Ret True \<and> (\<exists>u. user_Lookup os (cfg_User c) = Inr u) \<and>
     cfg_Debug c = ro_debug ro \<and> cfg_Trace c = ro_trace ro \<and>
     d_shell d = ShellCommand c \<and> Some (d_shellArguments d) = ShellArguments c \<and> d_Terminal d = Terminal c \<and>
     (d_expireAfter d \<noteq> 0 \<or> d_expireAfterIdle d \<noteq> 0 \<longleftrightarrow> sc_StopExpired (Sessions c)) \<and>
     (0 < sc_MaxPerUser (Sessions c) \<longrightarrow> sr_MaxUserSessions (d_reg d) = uint (sc_MaxPerUser (Sessions c))) \<and>
     ok_reg (d_reg d) \<and> \<not> d_authorized d"
proof -
  from handleCLIOptions_daemon [OF assms] obtain c0 where
    v: "Validate os shells (c0\<lparr>cfg_Debug := ro_debug ro, cfg_Trace := ro_trace ro\<rparr>) = Ret (None, c)"
    and d: "d = initDaemon c" by blast
  note ok = v [unfolded Validate_ok_iff]
  have cc: "complete_config c" using ok applyDefaults_complete by blast
  have user: "\<exists>u. user_Lookup os (cfg_User c) = Inr u"
    using ok by (auto simp: validateUser_def split: if_splits sum.splits)
  note flags = handleCLIOptions_flags [OF assms]
  have abs: "hd (ShellCommand c) = CHR ''/''" using ok unfolding filepath_IsAbs_def by blast
  have args: "Some (d_shellArguments d) = ShellArguments c"
    using cc d by (auto simp: complete_config_def initDaemon_def NewDaemon_def split: option.splits)
  have reg: "ok_reg (d_reg d)" using initDaemon_ok d by (simp add: ok_daemon_def)
  have ex: "isExecutable os (ShellCommand c)" "isInShells shells (ShellCommand c) = Ret True" using ok by blast+
  have sel: "d_shell d = ShellCommand c" "d_Terminal d = Terminal c" "\<not> d_authorized d"
    "0 < sc_MaxPerUser (Sessions c) \<longrightarrow> sr_MaxUserSessions (d_reg d) = uint (sc_MaxPerUser (Sessions c))"
    unfolding d by (simp_all add: initDaemon_def NewDaemon_def)
  have exp: "d_expireAfter d \<noteq> 0 \<or> d_expireAfterIdle d \<noteq> 0 \<longleftrightarrow> sc_StopExpired (Sessions c)"
    using cc d by (simp add: complete_config_def initDaemon_def NewDaemon_def uint_0_iff)
  from cc abs ex user flags sel args exp reg show ?thesis by blast
qed

text \<open>
  Without a configuration file there is no daemon. When neither file exists, loading
  succeeds with the built-in values; what stops the program is that these name no user, and
  with a usable default shell that is the error reported.
\<close>

theorem no_config_no_daemon:
  assumes "cf_stat (ro_config ro) = Some e1" "is_not_exist e1" "cf_stat (ro_fallbackConfig ro) = Some e2" "is_not_exist e2"
  shows "LoadConfig (ro_config ro) (ro_fallbackConfig ro) = Inr NewMenderShellConfig \<and>
     handleCLIOptions os shells command ro =
       CliError (ErrText (if isExecutable os DefaultShellCommand then ''please provide a user to run the shell as''
         else ''given shell ('' @ DefaultShellCommand @ '') is not executable''))"
  using assms
  by (simp add: LoadConfig_def loadConfigFile_missing handleCLIOptions_def Validate_def applyDefaults_def
        NewMenderShellConfig_def DefaultShellCommand_def filepath_IsAbs_def validateUser_def Let_def)

section \<open>The properties at concrete inputs\<close>

definition missing_file :: config_file where
  "missing_file = \<lparr>cf_stat = Some (ErrOS ENotExist []), cf_read = (\<lambda>c. (c, None)), cf_deprecated = None\<rparr>"

definition root_file :: config_file where
  "root_file = \<lparr>cf_stat = None, cf_read = (\<lambda>c. (c\<lparr>cfg_User := ''root''\<rparr>, None)), cf_deprecated = None\<rparr>"

definition shell_os :: os_env where
  "shell_os = sample_os\<lparr>os_Stat := (\<lambda>p. Inr \<lparr>st_Mode = 0x1ED, st_Size = 1, st_ModTime = 0, st_Sys = Some (0, 0)\<rparr>),
     user_Lookup := (\<lambda>u. Inr ''0'')\<rparr>"

theorem no_config_no_daemon_witness:
  "handleCLIOptions shell_os (Inr [''/bin/sh'']) ''daemon'' \<lparr>ro_config = missing_file, ro_fallbackConfig = missing_file,
     ro_debug = False, ro_trace = False\<rparr> \<noteq> CliHelp"
  using no_config_no_daemon [of "\<lparr>ro_config = missing_file, ro_fallbackConfig = missing_file, ro_debug = False,
    ro_trace = False\<rparr>" "ErrOS ENotExist []" "ErrOS ENotExist []" shell_os "Inr [''/bin/sh'']" "''daemon''"]
  by (simp add: missing_file_def)

definition root_options :: run_options where
  "root_options = \<lparr>ro_config = root_file, ro_fallbackConfig = missing_file, ro_debug = False, ro_trace = True\<rparr>"

lemma root_cli: "\<exists>c d. handleCLIOptions shell_os (Inr [''/bin/sh'']) ''daemon'' root_options = CliDaemon c d"
  by (simp add: handleCLIOptions_def LoadConfig_def loadConfigFile_def root_options_def root_file_def missing_file_def
      Validate_def applyDefaults_def NewMenderShellConfig_def DefaultShellCommand_def filepath_IsAbs_def validateUser_def
      isExecutable_def isInShells_def shell_os_def checkforDeprecatedFields_def Let_def)

theorem daemon_has_valid_config_witness:
  "\<exists>c d. handleCLIOptions shell_os (Inr [''/bin/sh'']) ''daemon'' root_options = CliDaemon c d \<and> complete_config c"
proof -
  obtain c d where "handleCLIOptions shell_os (Inr [''/bin/sh'']) ''daemon'' root_options = CliDaemon c d"
    using root_cli by blast
  with daemon_has_valid_config [OF this] show ?thesis by blast
qed

end
