(* ===== verification/LibGio.thy ===== *)
theory LibGio
  imports DBusClient
begin

text \<open>
  The one implementation of \<open>DBusAPI\<close>, over GLib (\<open>client/dbus/dbus_libgio.go\<close>, \<open>error.go\<close>,
  \<open>dbus_libgio_response.go\<close>, \<open>dbus_libgio_helpers.go\<close>). GLib's functions are a parameter; what
  the Go code makes of their results, of a \<open>GError\<close> or of a nil pointer is here.
\<close>

section \<open>GLib\<close>

text \<open>
  A handle is a pointer, \<open>0\<close> the nil one. A \<open>GError\<close> is given by its message, which may be
  nil; each call gives a handle and, through its last argument, an error or none.
\<close>

type_synonym handle = nat
type_synonym native_error = "string option"

record glib =
  g_bus_get_sync :: "nat \<Rightarrow> handle \<times> native_error option"
  g_dbus_proxy_new_sync :: "handle \<Rightarrow> nat \<Rightarrow> string \<Rightarrow> string \<Rightarrow> string \<Rightarrow> handle \<times> native_error option"
  g_dbus_proxy_call_sync :: "handle \<Rightarrow> string \<Rightarrow> nat \<Rightarrow> int \<Rightarrow> handle \<times> native_error option"
  string_from_g_variant :: "handle \<Rightarrow> string"
  first_string_from_g_variant :: "handle \<Rightarrow> string"
  second_string_from_g_variant :: "handle \<Rightarrow> string"
  boolean_from_g_variant :: "handle \<Rightarrow> int"

definition GDbusProxyFlagsDoNotLoadProperties :: nat where "GDbusProxyFlagsDoNotLoadProperties = 2 ^ 0"
definition GDBusCallFlagsNone :: nat where "GDBusCallFlagsNone = 0"

section \<open>Errors and responses\<close>

definition Error_Message :: "native_error option \<Rightarrow> string" where
  "Error_Message v = (case v of None \<Rightarrow> [] | Some None \<Rightarrow> [] | Some (Some message) \<Rightarrow> message)"

definition ErrorFromNative :: "native_error option \<Rightarrow> gerror" where
  "ErrorFromNative e = ErrText (Error_Message e)"

definition goBool :: "int \<Rightarrow> bool" where "goBool b = (b \<noteq> 0)"

definition NewDBusCallResponse :: "glib \<Rightarrow> handle \<Rightarrow> dbus_response" where
  "NewDBusCallResponse G ptr =
     \<lparr>rs_String = string_from_g_variant G ptr,
      rs_TwoStrings = (first_string_from_g_variant G ptr, second_string_from_g_variant G ptr),
      rs_Boolean = goBool (boolean_from_g_variant G ptr)\<rparr>"

section \<open>Calls\<close>

definition BusGet :: "glib \<Rightarrow> nat \<Rightarrow> gerror + handle" where
  "BusGet G busType =
     (case g_bus_get_sync G busType of
        (conn, Some e) \<Rightarrow> Inl (ErrorFromNative (Some e))
      | (conn, None) \<Rightarrow> Inr conn)"

definition BusProxyNew :: "glib \<Rightarrow> handle \<Rightarrow> string \<Rightarrow> string \<Rightarrow> string \<Rightarrow> gerror + handle" where
  "BusProxyNew G conn name objectPath interfaceName =
     (case g_dbus_proxy_new_sync G conn GDbusProxyFlagsDoNotLoadProperties name objectPath interfaceName of
        (proxy, Some e) \<Rightarrow> Inl (ErrorFromNative (Some e))
      | (proxy, None) \<Rightarrow>
          if proxy = 0 then Inl (ErrText ''unable to create a new dbus proxy'') else Inr proxy)"

definition BusProxyCall :: "glib \<Rightarrow> handle \<Rightarrow> string \<Rightarrow> int \<Rightarrow> gerror + dbus_response" where
  "BusProxyCall G proxy methodName timeout =
     (case g_dbus_proxy_call_sync G proxy methodName GDBusCallFlagsNone timeout of
        (r, Some e) \<Rightarrow> Inl (ErrorFromNative (Some e))
      | (r, None) \<Rightarrow> Inr (NewDBusCallResponse G r))"

text \<open>The interface that \<open>GetDBusAPI\<close> returns, with the time-out the client passes.\<close>

definition DBusMethodTimeoutInMilliSeconds :: int where "DBusMethodTimeoutInMilliSeconds = 5000"

definition libgio_api :: "glib \<Rightarrow> dbus_api" where
  "libgio_api G =
     \<lparr>da_BusGet = BusGet G, da_BusProxyNew = BusProxyNew G,
      da_BusProxyCall = (\<lambda>proxy m. BusProxyCall G (case proxy of None \<Rightarrow> 0 | Some p \<Rightarrow> p) m DBusMethodTimeoutInMilliSeconds)\<rparr>"

section \<open>The client over GLib\<close>

text \<open>Connecting succeeds exactly when neither call reports an error and the proxy is there.\<close>

lemma libgio_Connect:
  "(\<exists>client. auth_Connect (libgio_api G) n p i a = (None, client)) \<longleftrightarrow>
     snd (g_bus_get_sync G GBusTypeSystem) = None \<and>
     (let r = g_dbus_proxy_new_sync G (fst (g_bus_get_sync G GBusTypeSystem)) GDbusProxyFlagsDoNotLoadProperties n p i
      in snd r = None \<and> fst r \<noteq> 0)"
  by (auto simp: auth_Connect_def libgio_api_def BusGet_def BusProxyNew_def Let_def split: prod.splits option.splits sum.splits)

text \<open>An error of GLib is never taken for a token: the token is that of the response, or empty.\<close>

lemma libgio_token:
  "GetJWTToken (libgio_api G) a =
     (case g_dbus_proxy_call_sync G (case ac_authManagerProxy a of None \<Rightarrow> 0 | Some p \<Rightarrow> p) ''GetJwtToken''
             GDBusCallFlagsNone DBusMethodTimeoutInMilliSeconds of
        (r, Some e) \<Rightarrow> ([], [], Some (ErrText (Error_Message (Some e))))
      | (r, None) \<Rightarrow> (first_string_from_g_variant G r, second_string_from_g_variant G r, None))"
  by (simp add: GetJWTToken_def libgio_api_def BusProxyCall_def ErrorFromNative_def NewDBusCallResponse_def
      split: prod.splits option.splits)

section \<open>The main loop\<close>

text \<open>
  GLib's main loop, by the calls into GLib that the Go code makes in the order it makes them.
  \<open>MainLoopNew\<close> sets a finalizer on its own variable \<open>loop\<close>, which is garbage when it returns the
  value: the garbage collector may release the loop from then on (\<open>gm_finalizer\<close>). \<open>Run\<close> starts a
  goroutine for \<open>MainLoopRun\<close>, which starts another for the call (\<open>gm_spawn\<close> of the first,
  \<open>gm_runner\<close> of the second); \<open>MainLoopQuit\<close> is deferred to the return of \<open>Run\<close>.
\<close>

datatype loop_call = G_main_loop_new | G_main_loop_run | G_main_loop_quit | G_main_loop_unref

record gmain =
  gm_calls :: "loop_call list"
  gm_finalizer :: bool
  gm_spawn :: bool
  gm_runner :: bool
  gm_deferred :: bool

definition MainLoopNew :: gmain where
  "MainLoopNew = \<lparr>gm_calls = [G_main_loop_new], gm_finalizer = True, gm_spawn = False, gm_runner = False,
     gm_deferred = False\<rparr>"

definition MainLoopRun :: "gmain \<Rightarrow> gmain" where
  "MainLoopRun m = m\<lparr>gm_spawn := False, gm_runner := True\<rparr>"

definition MainLoopQuit :: "gmain \<Rightarrow> gmain" where
  "MainLoopQuit m = m\<lparr>gm_calls := gm_calls m @ [G_main_loop_quit]\<rparr>"

text \<open>The lines of \<open>Run\<close> that make the loop, start it and defer its end.\<close>

definition Run_main_loop :: gmain where
  "Run_main_loop = MainLoopNew\<lparr>gm_spawn := True, gm_deferred := True\<rparr>"

text \<open>What may happen next: the first goroutine runs, or the second, \<open>Run\<close> returns, or the garbage
  collector finds the variable.\<close>

datatype gmain_ev = Spawned | Runner | RunReturns | Collected

definition gmain_step :: "gmain_ev \<Rightarrow> gmain \<Rightarrow> gmain option" where
  "gmain_step ev m =
     (case ev of
        Spawned \<Rightarrow> if gm_spawn m then Some (MainLoopRun m) else None
      | Runner \<Rightarrow> if gm_runner m then Some (m\<lparr>gm_calls := gm_calls m @ [G_main_loop_run], gm_runner := False\<rparr>) else None
      | RunReturns \<Rightarrow> if gm_deferred m then Some ((MainLoopQuit m)\<lparr>gm_deferred := False\<rparr>) else None
      | Collected \<Rightarrow>
          if gm_finalizer m then Some (m\<lparr>gm_calls := gm_calls m @ [G_main_loop_unref], gm_finalizer := False\<rparr>) else None)"

fun gmain_run :: "gmain_ev list \<Rightarrow> gmain \<Rightarrow> gmain option" where
  "gmain_run [] m = Some m"
| "gmain_run (ev # evs) m = Option.bind (gmain_step ev m) (gmain_run evs)"

text \<open>No call is made twice, and the loop is made before all else.\<close>

definition gmain_ok :: "gmain \<Rightarrow> bool" where
  "gmain_ok m \<longleftrightarrow> hd (gm_calls m) = G_main_loop_new \<and> gm_calls m \<noteq> [] \<and> distinct (gm_calls m) \<and>
     (gm_finalizer m \<longrightarrow> G_main_loop_unref \<notin> set (gm_calls m)) \<and>
     (gm_spawn m \<or> gm_runner m \<longrightarrow> G_main_loop_run \<notin> set (gm_calls m)) \<and> \<not> (gm_spawn m \<and> gm_runner m) \<and>
     (gm_deferred m \<longrightarrow> G_main_loop_quit \<notin> set (gm_calls m))"

lemma gmain_step_ok: "gmain_step ev m = Some m' \<Longrightarrow> gmain_ok m \<Longrightarrow> gmain_ok m'"
  by (cases ev) (auto simp: gmain_step_def gmain_ok_def MainLoopRun_def MainLoopQuit_def split: if_splits)

lemma gmain_calls_once: "gmain_run evs Run_main_loop = Some m \<Longrightarrow> gmain_ok m"
proof -
  have "gmain_run evs n = Some m \<Longrightarrow> gmain_ok n \<Longrightarrow> gmain_ok m" for n
    by (induction evs arbitrary: n) (auto split: Option.bind_splits dest: gmain_step_ok)
  then show "gmain_run evs Run_main_loop = Some m \<Longrightarrow> gmain_ok m"
    by (simp add: gmain_ok_def Run_main_loop_def MainLoopNew_def)
qed

text \<open>But the loop may have been released before it runs, and told to quit before it runs.\<close>

lemma released_before_run:
  "map_option gm_calls (gmain_run [Collected, Spawned, Runner] Run_main_loop) =
     Some [G_main_loop_new, G_main_loop_unref, G_main_loop_run]"
  by code_simp

lemma quit_before_run:
  "map_option gm_calls (gmain_run [RunReturns, Spawned, Runner] Run_main_loop) =
     Some [G_main_loop_new, G_main_loop_quit, G_main_loop_run]"
  by code_simp

end
