(* ===== verification/Run.thy ===== *)
theory Run
  imports DaemonLoops Cli LibGio
begin

text \<open>
  \<open>Run\<close> of \<open>app/daemon.go\<close> as a whole: the start, with every error that keeps the daemon from
  starting its goroutines, and the main loop with the status report and the sweep, from the
  first turn to the one that finds the daemon told to stop.
\<close>

section \<open>The version (config/version.go)\<close>

definition VersionString :: "string \<Rightarrow> string" where
  "VersionString Version = (if Version \<noteq> [] then Version else ''unknown'')"

definition ShowVersion :: "string \<Rightarrow> string \<Rightarrow> string" where
  "ShowVersion Version runtime = VersionString Version @ CHR 9 # ''runtime: '' @ runtime"

section \<open>The logging level (setupLogging)\<close>

text \<open>The daemon's \<open>trace\<close> and \<open>debug\<close> are those of its configuration; \<open>level\<close> is the logger's own.\<close>

datatype log_level = InfoLevel | DebugLevel | TraceLevel

definition setupLogging :: "MenderShellConfig \<Rightarrow> log_level \<Rightarrow> log_level" where
  "setupLogging conf level = (if cfg_Trace conf then TraceLevel else if cfg_Debug conf then DebugLevel else level)"

text \<open>Tracing is the finer of the two when both are asked for, and only the command line asks.\<close>

lemma setupLogging_options:
  assumes "handleCLIOptions os shells command ro = CliDaemon c d"
  shows "setupLogging c level = (if ro_trace ro then TraceLevel else if ro_debug ro then DebugLevel else level)"
  by (simp add: setupLogging_def handleCLIOptions_flags [OF assms])

section \<open>The status (outputStatus)\<close>

text \<open>What the report formats with: \<open>Format\<close> of a time, the verb \<open>%.2f\<close>, the version.\<close>

record 'f formats =
  fm_time :: "int \<Rightarrow> string"
  fm_float :: "'f \<Rightarrow> string"
  fm_version :: string

fun status_code :: "session_status \<Rightarrow> int" where
  "status_code ActiveSession = 0"
| "status_code ExpiredSession = 1"
| "status_code IdleSession = 2"
| "status_code HangedSession = 3"
| "status_code EmptySession = 4"
| "status_code NewSession = 5"

text \<open>All sessions, in the order in which Go walks the table.\<close>

definition MenderShellSessionGetAll :: "ref list \<Rightarrow> registry \<Rightarrow> shell_session list" where
  "MenderShellSessionGetAll order s = List.map_filter (sr_heap s) order"

text \<open>The lines for a session. \<open>GetShellCommandPath\<close> reads \<open>s.command.Path\<close>: a session whose shell
  has never been started has no command, and reading its path is a panic, \<open>None\<close>.\<close>

definition session_lines :: "'f formats \<Rightarrow> shell_session \<Rightarrow> string list option" where
  "session_lines F x =
     (case ms_shell x of
        None \<Rightarrow> None
      | Some _ \<Rightarrow> Some
          [''   id:'' @ ms_id x @ '' status:'' @ itoa (status_code (ms_status x)) @ '' started:'' @ fm_time F (ms_createdAt x),
           ''   expires:'' @ fm_time F (ms_expiresAt x) @ '' active:'' @ fm_time F (ms_activeAt x),
           ''   shell:'' @ ms_command x])"

fun sessions_lines :: "'f formats \<Rightarrow> shell_session list \<Rightarrow> string list option" where
  "sessions_lines F [] = Some []"
| "sessions_lines F (x # xs) =
     (case session_lines F x of
        None \<Rightarrow> None
      | Some ls \<Rightarrow> map_option (\<lambda>ls'. ls @ ls') (sessions_lines F xs))"

definition outputStatus ::
  "'f formats \<Rightarrow> 'f Counters \<Rightarrow> ref list \<Rightarrow> daemon \<Rightarrow> run_flags \<Rightarrow> (string list \<times> run_flags) option" where
  "outputStatus F device order d f =
     (let sessions = MenderShellSessionGetAll order (d_reg d);
          (tx, rx, tx1m, rx1m) = GetCounters device
      in case sessions_lines F sessions of
           None \<Rightarrow> None
         | Some ls \<Rightarrow> Some
             ([''mender-connect daemon v'' @ VersionString (fm_version F), '' status: '',
               ''  shells: '' @ itoa (uint (d_shellsSpawned d)) @ ''/'' @ itoa (uint MaxShellsSpawned),
               ''  sessions: '' @ itoa (int (length sessions))] @ ls @
              [''  file-transfer:'',
               ''   total: tx/rx '' @ itoa (uint tx) @ ''/'' @ itoa (uint rx),
               ''   1m: tx rx '' @ fm_float F tx1m @ '' '' @ fm_float F rx1m @ '' (w)''],
              f\<lparr>rf_printStatus := False\<rparr>))"

section \<open>The main loop\<close>

text \<open>
  A turn of the loop. Before it, signals may have come in and the other goroutines may have changed
  the daemon (\<open>tn_others\<close>); the rest is the time, the orders in which Go walks the sessions, and
  the byte counters of the device.
\<close>

record 'f turn =
  tn_signals :: "os_signal list"
  tn_others :: "daemon \<Rightarrow> daemon"
  tn_now :: int
  tn_status_order :: "ref list"
  tn_sweep_order :: "ref list"
  tn_device :: "'f Counters"

text \<open>How \<open>Run\<close> ends: with an error or none, or in a panic.\<close>

datatype run_end = RunReturned "gerror option" | RunPanic

type_synonym run_state = "daemon \<times> int \<times> run_flags"

definition run_turn ::
  "'f formats \<Rightarrow> proc_os \<Rightarrow> 'f turn \<Rightarrow> run_state \<Rightarrow> run_end option \<times> string list \<times> run_state" where
  "run_turn F po tn = (\<lambda>(d, last, f).
     if shouldStop f then (Some (RunReturned None), [], d, last, f)
     else case (if shouldPrintStatus f then outputStatus F (tn_device tn) (tn_status_order tn) d f else Some ([], f)) of
       None \<Rightarrow> (Some RunPanic, [], d, last, f)
     | Some (ls, f) \<Rightarrow>
         (case main_turn po (tn_now tn) (tn_sweep_order tn) (d, last) of (d, last) \<Rightarrow> (None, ls, d, last, f)))"

text \<open>The loop over a schedule: how it ended, or \<open>None\<close> when it still runs, and the reports.\<close>

definition arrive :: "'f turn \<Rightarrow> run_state \<Rightarrow> run_state" where
  "arrive tn = (\<lambda>(d, last, f). (tn_others tn d, last, fold on_signal (tn_signals tn) f))"

fun main_loop ::
  "'f formats \<Rightarrow> proc_os \<Rightarrow> 'f turn list \<Rightarrow> run_state \<Rightarrow> run_end option \<times> string list list \<times> run_state" where
  "main_loop F po [] s = (None, [], s)"
| "main_loop F po (tn # tns) s =
     (case run_turn F po tn (arrive tn s) of
        (Some e, ls, s) \<Rightarrow> (Some e, [], s)
      | (None, ls, s) \<Rightarrow>
          (case main_loop F po tns s of (e, rs, s) \<Rightarrow> (e, (if ls = [] then rs else ls # rs), s)))"

section \<open>The start\<close>

abbreviation (input) "DBusObjectName \<equiv> ''io.mender.AuthenticationManager''"
abbreviation (input) "DBusObjectPath \<equiv> ''/io/mender/AuthenticationManager''"
abbreviation (input) "DBusInterfaceName \<equiv> ''io.mender.Authentication1''"

text \<open>
  Up to the start of the goroutines: the error with which \<open>Run\<close> returns, and the daemon as it is
  then, or the goroutines at their beginning. The D-Bus interface is compiled in, so that
  \<open>GetDBusAPI\<close> and with it \<open>NewAuthClient\<close> give no error. An error of \<open>GetJWTToken\<close> is only
  logged.
\<close>

definition Run_start :: "(gerror + os_user option) \<Rightarrow> dbus_api \<Rightarrow> daemon \<Rightarrow> (gerror \<times> daemon) + loops" where
  "Run_start lookup api d =
     (case Run_user lookup d of
        (Some e, d) \<Rightarrow> Inl (e, d)
      | (None, d) \<Rightarrow>
          (case auth_Connect api DBusObjectName DBusObjectPath DBusInterfaceName NewAuthClient of
             (Some e, client) \<Rightarrow> Inl (e, d)
           | (None, client) \<Rightarrow> Inr (loops_init (Run_token (GetJWTToken api client) d))))"

text \<open>\<open>Run\<close>: an error of the start, or what becomes of the main loop. The goroutines' effect on
  the daemon is in the turns.\<close>

definition Run ::
  "'f formats \<Rightarrow> proc_os \<Rightarrow> (gerror + os_user option) \<Rightarrow> dbus_api \<Rightarrow> int \<Rightarrow> 'f turn list \<Rightarrow> daemon \<Rightarrow> run_flags \<Rightarrow>
     run_end option \<times> string list list \<times> run_state" where
  "Run F po lookup api started tns d f =
     (case Run_start lookup api d of
        Inl (e, d) \<Rightarrow> (Some (RunReturned (Some e)), [], d, started, f)
      | Inr l \<Rightarrow> main_loop F po tns (lp_d l, started, f))"

section \<open>The status report\<close>

lemma sessions_lines_None: "sessions_lines F xs = None \<longleftrightarrow> (\<exists>x \<in> set xs. ms_shell x = None)"
  by (induction xs) (auto simp: session_lines_def split: option.splits)

lemma sessions_lines_Some:
  "sessions_lines F xs = Some ls \<Longrightarrow>
     length ls = 3 * length xs \<and> (\<forall>x \<in> set xs. ''   shell:'' @ ms_command x \<in> set ls)"
  by (induction xs arbitrary: ls) (auto simp: session_lines_def split: option.splits)

text \<open>The sessions that the report walks over are those of the table.\<close>

lemma wf_heap: "wf_reg s \<Longrightarrow> r \<in> ran (sr_map s) \<Longrightarrow> \<exists>x. sr_heap s r = Some x"
  by (auto simp: ran_def idx_def dest!: wf_map)

lemma GetAll_in_table:
  assumes "wf_reg s" "walks s order"
  shows "set (MenderShellSessionGetAll order s) = {x. \<exists>k r. sr_map s k = Some r \<and> sr_heap s r = Some x}"
    and "length (MenderShellSessionGetAll order s) = card (ran (sr_map s))"
proof -
  have all: "r \<in> set order \<Longrightarrow> \<exists>x. sr_heap s r = Some x" for r
    using wf_heap [OF assms(1)] assms(2) by (simp add: walks_def)
  then have eq: "MenderShellSessionGetAll order s = map (\<lambda>r. the (sr_heap s r)) order"
    unfolding MenderShellSessionGetAll_def by (induction order) (fastforce simp: List.map_filter_simps)+
  show "length (MenderShellSessionGetAll order s) = card (ran (sr_map s))"
    using assms(2) by (simp add: eq walks_def distinct_card [symmetric])
  show "set (MenderShellSessionGetAll order s) = {x. \<exists>k r. sr_map s k = Some r \<and> sr_heap s r = Some x}"
    using all assms(2) by (force simp: eq walks_def ran_def)
qed

lemma outputStatus_panics:
  assumes "wf_reg (d_reg d)" "walks (d_reg d) order"
  shows "outputStatus F dev order d f = None \<longleftrightarrow>
     (\<exists>k r x. sr_map (d_reg d) k = Some r \<and> sr_heap (d_reg d) r = Some x \<and> ms_shell x = None)"
proof -
  have "outputStatus F dev order d f = None \<longleftrightarrow> sessions_lines F (MenderShellSessionGetAll order (d_reg d)) = None"
    by (simp add: outputStatus_def Let_def split: option.splits prod.splits)
  also have "\<dots> \<longleftrightarrow> (\<exists>k r x. sr_map (d_reg d) k = Some r \<and> sr_heap (d_reg d) r = Some x \<and> ms_shell x = None)"
    unfolding sessions_lines_None GetAll_in_table [OF assms] by blast
  finally show ?thesis .
qed

text \<open>
  The status report. It names every session in the table, three lines for each, and only
  clears the request for it; unless one of the sessions has never had a shell, in which case it
  is a panic of the main loop.
\<close>

theorem status_report:
  assumes "wf_reg (d_reg d)" "walks (d_reg d) order"
  shows "case outputStatus F dev order d f of
     None \<Rightarrow> \<exists>k r x. sr_map (d_reg d) k = Some r \<and> sr_heap (d_reg d) r = Some x \<and> ms_shell x = None
   | Some (ls, f') \<Rightarrow> f' = f\<lparr>rf_printStatus := False\<rparr> \<and> length ls = 7 + 3 * card (ran (sr_map (d_reg d))) \<and>
       (\<forall>k r x. sr_map (d_reg d) k = Some r \<longrightarrow> sr_heap (d_reg d) r = Some x \<longrightarrow>
          ms_shell x \<noteq> None \<and> ''   shell:'' @ ms_command x \<in> set ls)"
proof (cases "outputStatus F dev order d f")
  case None
  with outputStatus_panics [OF assms, of F dev f] show ?thesis by simp
next
  case (Some o1)
  let ?xs = "MenderShellSessionGetAll order (d_reg d)"
  from Some obtain ls where ls: "sessions_lines F ?xs = Some ls"
    by (auto simp: outputStatus_def Let_def split: option.splits prod.splits)
  from Some ls have o1: "snd o1 = f\<lparr>rf_printStatus := False\<rparr>" "length (fst o1) = 7 + length ls" "set ls \<subseteq> set (fst o1)"
    by (auto simp: outputStatus_def Let_def split: prod.splits)
  have tab: "ms_shell x \<noteq> None \<and> ''   shell:'' @ ms_command x \<in> set (fst o1)"
    if "sr_map (d_reg d) k = Some r" "sr_heap (d_reg d) r = Some x" for k r x
  proof -
    from that have "x \<in> set ?xs" unfolding GetAll_in_table(1) [OF assms] by blast
    with sessions_lines_None [of F ?xs] sessions_lines_Some [OF ls] ls o1(3) show ?thesis by fastforce
  qed
  obtain o2 f2 where o: "o1 = (o2, f2)" by fastforce
  have "length (fst o1) = 7 + 3 * card (ran (sr_map (d_reg d)))"
    using o1(2) sessions_lines_Some [OF ls] GetAll_in_table(2) [OF assms] by simp
  with o1(1) tab show ?thesis unfolding Some o by (auto simp del: append.simps)
qed

section \<open>From the first turn to the last\<close>

lemma shouldStop_signals [simp]: "rf_stop (fold on_signal sigs f) \<longleftrightarrow> rf_stop f \<or> SIGTERM \<in> set sigs"
  using stops_iff [of sigs f] by (simp add: shouldStop_def)

lemma shouldPrintStatus_signals [simp]:
  "rf_printStatus (fold on_signal sigs f) \<longleftrightarrow> rf_printStatus f \<or> SIGUSR1 \<in> set sigs"
  by (induction sigs arbitrary: f)
     (auto simp: on_signal_def StopDaemon_def PrintStatus_def split: os_signal.splits)

lemmas run_defs = run_turn_def arrive_def shouldStop_def shouldPrintStatus_def

text \<open>What the turns make of the daemon and the time of the last sweep.\<close>

definition turn_effect :: "proc_os \<Rightarrow> 'f turn \<Rightarrow> daemon \<times> int \<Rightarrow> daemon \<times> int" where
  "turn_effect po tn = (\<lambda>(d, sw). main_turn po (tn_now tn) (tn_sweep_order tn) (tn_others tn d, sw))"

definition told_to_stop :: "'f turn \<Rightarrow> bool" where "told_to_stop tn \<longleftrightarrow> SIGTERM \<in> set (tn_signals tn)"
definition told_to_report :: "'f turn \<Rightarrow> bool" where "told_to_report tn \<longleftrightarrow> SIGUSR1 \<in> set (tn_signals tn)"

lemma outputStatus_flags:
  "outputStatus F dev order d f = Some (ls, f') \<Longrightarrow> ls \<noteq> [] \<and> f' = f\<lparr>rf_printStatus := False\<rparr>"
  by (auto simp: outputStatus_def Let_def split: option.splits prod.splits)

text \<open>A turn, from flags that are down.\<close>

lemma run_turn_cases:
  assumes "run_turn F po tn (arrive tn (d, sw, f)) = (e, ls, s)" "\<not> rf_stop f" "\<not> rf_printStatus f"
  obtains (stop) "told_to_stop tn" "e = Some (RunReturned None)" "fst s = tn_others tn d" "fst (snd s) = sw"
  | (panic) "\<not> told_to_stop tn" "told_to_report tn" "e = Some RunPanic"
      "\<exists>f. outputStatus F (tn_device tn) (tn_status_order tn) (tn_others tn d) f = None"
  | (goes_on) f' where "\<not> told_to_stop tn" "e = None" "ls \<noteq> [] \<longleftrightarrow> told_to_report tn"
      "(fst s, fst (snd s)) = turn_effect po tn (d, sw)" "snd (snd s) = f'" "\<not> rf_stop f'" "\<not> rf_printStatus f'"
proof (cases "told_to_stop tn")
  case True
  with assms show thesis by (intro stop) (auto simp: run_defs told_to_stop_def)
next
  case False
  let ?f = "fold on_signal (tn_signals tn) f"
  let ?o = "outputStatus F (tn_device tn) (tn_status_order tn) (tn_others tn d) ?f"
  have nostop: "\<not> rf_stop ?f" using False assms(2) by (simp add: told_to_stop_def)
  show thesis
  proof (cases "told_to_report tn")
    case rep: True
    then have pr: "rf_printStatus ?f" by (simp add: told_to_report_def)
    show thesis
    proof (cases ?o)
      case None
      with assms(1) nostop pr show thesis by (intro panic [OF False rep]) (auto simp: run_defs)
    next
      case (Some x)
      obtain ls' f' where x: "x = (ls', f')" by fastforce
      from outputStatus_flags [of F "tn_device tn" "tn_status_order tn" "tn_others tn d" ?f ls' f'] Some x
      have l: "ls' \<noteq> []" "f' = ?f\<lparr>rf_printStatus := False\<rparr>" by simp_all
      with assms(1) nostop pr Some x rep False show thesis
        by (intro goes_on [of f']) (auto simp: run_defs turn_effect_def split: prod.splits)
    qed
  next
    case rep: False
    then have "\<not> rf_printStatus ?f" using assms(3) by (simp add: told_to_report_def)
    with assms(1) nostop rep False show thesis
      by (intro goes_on [of ?f]) (auto simp: run_defs turn_effect_def split: prod.splits)
  qed
qed

lemma main_loop_runs:
  "main_loop F po tns (d, sw, f) = (e, rs, d', sw', f') \<Longrightarrow> \<not> rf_stop f \<Longrightarrow> \<not> rf_printStatus f \<Longrightarrow>
   e \<noteq> Some RunPanic \<Longrightarrow>
     (let before = takeWhile (\<lambda>tn. \<not> told_to_stop tn) tns; (d1, sw1) = fold (turn_effect po) before (d, sw)
      in length rs = length (filter told_to_report before) \<and> sw' = sw1 \<and>
         (case dropWhile (\<lambda>tn. \<not> told_to_stop tn) tns of
            [] \<Rightarrow> e = None \<and> d' = d1
          | tn # _ \<Rightarrow> e = Some (RunReturned None) \<and> d' = tn_others tn d1))"
proof (induction tns arbitrary: d sw f rs)
  case (Cons tn tns)
  obtain e1 ls s where t: "run_turn F po tn (arrive tn (d, sw, f)) = (e1, ls, s)" by (rule prod_cases3)
  obtain d1 sw1 f1 where s: "s = (d1, sw1, f1)" by (rule prod_cases3)
  from t Cons.prems(2,3) show ?case
  proof (cases rule: run_turn_cases)
    case stop
    with Cons.prems(1) t s show ?thesis by simp
  next
    case panic
    with Cons.prems(1,4) t s show ?thesis by simp
  next
    case (goes_on f2)
    obtain rs1 where r: "main_loop F po tns (d1, sw1, f1) = (e, rs1, d', sw', f')"
        "rs = (if ls = [] then rs1 else ls # rs1)"
      using Cons.prems(1) t s goes_on(2) by (cases "main_loop F po tns s") auto
    have eff: "turn_effect po tn (d, sw) = (d1, sw1)" using goes_on(4) s by simp
    from Cons.IH [OF r(1) _ _ Cons.prems(4)] goes_on(5-7) s
    have "let before = takeWhile (\<lambda>tn. \<not> told_to_stop tn) tns; (d2, last2) = fold (turn_effect po) before (d1, sw1)
      in length rs1 = length (filter told_to_report before) \<and> sw' = last2 \<and>
         (case dropWhile (\<lambda>tn. \<not> told_to_stop tn) tns of
            [] \<Rightarrow> e = None \<and> d' = d2
          | tn # _ \<Rightarrow> e = Some (RunReturned None) \<and> d' = tn_others tn d2)" by simp
    with goes_on(1,3) r(2) eff show ?thesis by (auto simp: Let_def split: prod.splits)
  qed
qed (simp add: Let_def)

text \<open>
  C33. \<open>Run\<close> ends when it is told to, and only then. The main loop goes on over every schedule
  without SIGTERM, and returns without an error in the first turn that finds one, without a
  sweep in that turn; until then every turn with SIGUSR1 has given one report, and the daemon
  is what the sweeps of these turns have made of it, with the other goroutines in between.
  The exception is a panic of the report.
\<close>

theorem run_until_term:
  assumes "main_loop F po tns (d, sw, \<lparr>rf_stop = False, rf_printStatus = False\<rparr>) = (e, rs, d', sw', f')"
    and "e \<noteq> Some RunPanic"
    and "before = takeWhile (\<lambda>tn. SIGTERM \<notin> set (tn_signals tn)) tns"
    and "fold (turn_effect po) before (d, sw) = (d1, sw1)"
  shows "(e = None \<longleftrightarrow> before = tns) \<and> (e \<noteq> None \<longrightarrow> e = Some (RunReturned None)) \<and>
     length rs = length (filter (\<lambda>tn. SIGUSR1 \<in> set (tn_signals tn)) before) \<and> sw' = sw1 \<and>
     d' = (if before = tns then d1 else tn_others (tns ! length before) d1)"
proof -
  have tw: "takeWhile (\<lambda>tn. \<not> told_to_stop tn) tns = before" "filter told_to_report = filter (\<lambda>tn. SIGUSR1 \<in> set (tn_signals tn))"
    unfolding assms(3) told_to_stop_def told_to_report_def by simp_all
  note m = main_loop_runs [OF assms(1) _ _ assms(2), unfolded Let_def tw assms(4), simplified]
  show ?thesis
  proof (cases "dropWhile (\<lambda>tn. \<not> told_to_stop tn) tns")
    case Nil
    with takeWhile_dropWhile_id [of "\<lambda>tn. \<not> told_to_stop tn" tns] tw(1) have "before = tns" by simp
    with m Nil show ?thesis by simp
  next
    case (Cons tn rest)
    with takeWhile_dropWhile_id [of "\<lambda>tn. \<not> told_to_stop tn" tns] tw(1) have tns: "tns = before @ tn # rest" by simp
    then have "before \<noteq> tns" "tns ! length before = tn" by (auto simp: nth_append)
    with m Cons show ?thesis by simp
  qed
qed

section \<open>The start\<close>

lemma parse_gids_all: "(\<exists>ns. parse_gids gs = Inr ns) \<longleftrightarrow> (\<forall>g \<in> set gs. \<exists>n. ParseUint g 10 32 = Inr n)"
  by (induction gs) (auto split: sum.splits)

lemma Run_user_starts:
  "(\<exists>d'. Run_user lookup d = (None, d')) \<longleftrightarrow>
     (\<exists>u gids. lookup = Inr (Some u) \<and> u_GroupIds u = Inr gids \<and>
        (\<forall>g \<in> set (u_Uid u # u_Gid u # gids). \<exists>n. ParseUint g 10 32 = Inr n))"
proof -
  have "(\<exists>d'. Run_user lookup d = (None, d')) \<longleftrightarrow>
     (\<exists>u gids ns uid gid. lookup = Inr (Some u) \<and> u_GroupIds u = Inr gids \<and> parse_gids gids = Inr ns \<and>
        ParseUint (u_Uid u) 10 32 = Inr uid \<and> ParseUint (u_Gid u) 10 32 = Inr gid)"
    by (auto simp: Run_user_def Let_def split: sum.splits option.splits)
  also have "\<dots> \<longleftrightarrow> (\<exists>u gids. lookup = Inr (Some u) \<and> u_GroupIds u = Inr gids \<and>
        (\<forall>g \<in> set (u_Uid u # u_Gid u # gids). \<exists>n. ParseUint g 10 32 = Inr n))"
    using parse_gids_all by (simp, blast)
  finally show ?thesis .
qed

text \<open>It leaves the terminal's tables and the authorization alone.\<close>

lemma Run_user_frame:
  assumes "Run_user lookup d = (e, d')"
  shows "d_reg d' = d_reg d" "d_shellsSpawned d' = d_shellsSpawned d" "d_authorized d' = d_authorized d"
  using assms by (auto simp: Run_user_def Let_def split: sum.splits option.splits)

lemma Run_token_frame:
  "d_reg (Run_token t d) = d_reg d" "d_shellsSpawned (Run_token t d) = d_shellsSpawned d"
  "\<not> d_authorized d \<Longrightarrow> d_authorized (Run_token t d) \<longleftrightarrow> d_serverJwt (Run_token t d) \<noteq> [] \<and> d_serverUrl (Run_token t d) \<noteq> []"
  by (simp_all add: Run_token_def Let_def)

lemma Run_start_Inr:
  assumes "Run_start lookup api d = Inr l"
  obtains d1 client where "Run_user lookup d = (None, d1)"
    "auth_Connect api DBusObjectName DBusObjectPath DBusInterfaceName NewAuthClient = (None, client)"
    "l = loops_init (Run_token (GetJWTToken api client) d1)"
  using assms by (auto simp: Run_start_def split: prod.splits option.splits)

text \<open>
  C32. A daemon starts completely or not at all. A daemon that the command line has made gets as
  far as its goroutines exactly when the user exists, all the user's ids are numbers of 32 bits
  and the authentication manager can be reached on the bus. Then the goroutines start in a
  state from which a lost connection cannot go unnoticed, with no connection and no shell, and
  the daemon is authorized exactly when it has a token and a server; otherwise \<open>Run\<close> returns its
  error with no goroutine started, and terminals and authorization as they were.
\<close>

theorem run_starts:
  assumes "handleCLIOptions os shells command ro = CliDaemon c d"
  shows "((\<exists>l. Run_start lookup (libgio_api G) d = Inr l) \<longleftrightarrow>
       (\<exists>u gids. lookup = Inr (Some u) \<and> u_GroupIds u = Inr gids \<and>
          (\<forall>g \<in> set (u_Uid u # u_Gid u # gids). \<exists>n. ParseUint g 10 32 = Inr n)) \<and>
       snd (g_bus_get_sync G GBusTypeSystem) = None \<and>
       (let r = g_dbus_proxy_new_sync G (fst (g_bus_get_sync G GBusTypeSystem)) GDbusProxyFlagsDoNotLoadProperties
                  DBusObjectName DBusObjectPath DBusInterfaceName
        in snd r = None \<and> fst r \<noteq> 0)) \<and>
     (\<forall>l. Run_start lookup (libgio_api G) d = Inr l \<longrightarrow> wf_loops l \<and> lp_cm l = cm_init \<and> ok_daemon (lp_d l) \<and>
        d_shellsSpawned (lp_d l) = 0 \<and> sr_map (d_reg (lp_d l)) = Map.empty \<and>
        (d_authorized (lp_d l) \<longleftrightarrow> d_serverJwt (lp_d l) \<noteq> [] \<and> d_serverUrl (lp_d l) \<noteq> [])) \<and>
     (\<forall>e d'. Run_start lookup (libgio_api G) d = Inl (e, d') \<longrightarrow>
        Run F po lookup (libgio_api G) sw tns d f = (Some (RunReturned (Some e)), [], d', sw, f) \<and>
        d_reg d' = d_reg d \<and> d_shellsSpawned d' = d_shellsSpawned d \<and> \<not> d_authorized d')"
proof (intro conjI allI impI)
  have "(\<exists>l. Run_start lookup (libgio_api G) d = Inr l) \<longleftrightarrow> (\<exists>d'. Run_user lookup d = (None, d')) \<and>
      (\<exists>client. auth_Connect (libgio_api G) DBusObjectName DBusObjectPath DBusInterfaceName NewAuthClient = (None, client))"
    by (auto simp: Run_start_def split: prod.splits option.splits)
  then show "(\<exists>l. Run_start lookup (libgio_api G) d = Inr l) \<longleftrightarrow>
       (\<exists>u gids. lookup = Inr (Some u) \<and> u_GroupIds u = Inr gids \<and>
          (\<forall>g \<in> set (u_Uid u # u_Gid u # gids). \<exists>n. ParseUint g 10 32 = Inr n)) \<and>
       snd (g_bus_get_sync G GBusTypeSystem) = None \<and>
       (let r = g_dbus_proxy_new_sync G (fst (g_bus_get_sync G GBusTypeSystem)) GDbusProxyFlagsDoNotLoadProperties
                  DBusObjectName DBusObjectPath DBusInterfaceName
        in snd r = None \<and> fst r \<noteq> 0)"
    unfolding Run_user_starts libgio_Connect .
next
  fix l assume "Run_start lookup (libgio_api G) d = Inr l"
  then obtain d1 client where r: "Run_user lookup d = (None, d1)"
    "l = loops_init (Run_token (GetJWTToken (libgio_api G) client) d1)" by (rule Run_start_Inr)
  from handleCLIOptions_daemon [OF assms] have d: "d = initDaemon c" by blast
  note fr = Run_user_frame [OF r(1)] Run_token_frame
  have un: "\<not> d_authorized d1" using fr d initDaemon_unauthorized by simp
  have lp: "lp_d l = Run_token (GetJWTToken (libgio_api G) client) d1" "lp_cm l = cm_init" using r(2) by (simp_all add: loops_init_def)
  show "wf_loops l" unfolding r(2) by (rule wf_loops_start) (rule Run_token_known, use un in simp)
  show "lp_cm l = cm_init" by (rule lp)
  show "ok_daemon (lp_d l)" using initDaemon_ok [of c] fr d lp by (simp add: ok_daemon_def)
  show "d_shellsSpawned (lp_d l) = 0" "sr_map (d_reg (lp_d l)) = Map.empty"
    using fr d lp by (simp_all add: initDaemon_def NewDaemon_def empty_registry_def)
  show "d_authorized (lp_d l) \<longleftrightarrow> d_serverJwt (lp_d l) \<noteq> [] \<and> d_serverUrl (lp_d l) \<noteq> []"
    unfolding lp by (rule Run_token_frame(3) [OF un])
next
  fix e d' assume e: "Run_start lookup (libgio_api G) d = Inl (e, d')"
  then show "Run F po lookup (libgio_api G) sw tns d f = (Some (RunReturned (Some e)), [], d', sw, f)" by (simp add: Run_def)
  from e obtain e1 where u: "Run_user lookup d = (e1, d')" by (auto simp: Run_start_def split: prod.splits option.splits)
  from handleCLIOptions_daemon [OF assms] have "d = initDaemon c" by blast
  with Run_user_frame [OF u] initDaemon_unauthorized
  show "d_reg d' = d_reg d" "d_shellsSpawned d' = d_shellsSpawned d" "\<not> d_authorized d'" by simp_all
qed

section \<open>A shell that could not be started\<close>

text \<open>The session it was for is in the table without a shell.\<close>

lemma failed_shell_entry:
  assumes "routeMessageShellCommand wr now m' d = (RoutePanic, d)" "wf_reg (d_reg d)"
  shows "\<exists>r x. sr_map (d_reg d) (SessionID (Header m')) = Some r \<and> sr_heap (d_reg d) r = Some x \<and> ms_shell x = None"
proof -
  let ?k = "SessionID (Header m')"
  from assms(1) obtain r where r: "sr_map (d_reg d) ?k = Some r" "ShellSessions.ShellCommand now (wr r) (Body m') r (d_reg d) = None"
    by (auto simp: routeMessageShellCommand_def MenderShellSessionGetById_def Let_def split: option.splits)
  from wf_map [OF assms(2) r(1)] obtain x where x: "sr_heap (d_reg d) r = Some x" by (auto simp: idx_def)
  with r(2) have "ms_shell x = None"
    by (auto simp: ShellSessions.ShellCommand_def modify_def Let_def split: option.splits prod.splits)
  with r(1) x show ?thesis by blast
qed

text \<open>
  C39. A shell that could not be started takes the daemon down with the next command, change of
  size or status report. The session it was for stays in the table without a terminal or a
  command: the first two dereference a missing writer in the message loop, the report, which
  SIGUSR1 asks for, reads the path of a missing command in the main loop; neither recovers.
\<close>

theorem failed_shell_fatal:
  assumes ok: "ok_daemon d" and new: "MenderShellSessionGetById (d_reg d) (SessionID (Header m)) = None"
    and run: "routeMessageSpawnShell po now m d = (Routed (Some (Wrapped ''failed to start shell'' e)), d1)"
    and sid: "SessionID (Header m') = SessionID (Header m)"
    and tn: "tn_others tn = id" "SIGUSR1 \<in> set (tn_signals tn)" "SIGTERM \<notin> set (tn_signals tn)"
      "walks (d_reg d1) (tn_status_order tn)"
  shows "routeMessageShellCommand wr now' m' d1 = (RoutePanic, d1) \<and>
     (mapPropertiesToTerminalHeightAndWidth (Properties (Header m')) = (h, w) \<longrightarrow> 0 < h \<longrightarrow> 0 < w \<longrightarrow>
        routeMessageShellResize m' d1 = (RoutePanic, d1)) \<and>
     (\<not> rf_stop f \<longrightarrow> fst (main_loop F po' (tn # tns) (d1, sw, f)) = Some RunPanic)"
proof -
  have "ok_reg (d_reg d)" using ok by (simp add: ok_daemon_def)
  note crash = failed_shell_crashes [OF this new run sid, of wr now' h w]
  have wf: "wf_reg (d_reg d1)" using routeMessageSpawnShell_ok [OF run ok] by (simp add: ok_daemon_def ok_reg_def)
  have "outputStatus F (tn_device tn) (tn_status_order tn) d1 f' = None" for f'
    unfolding outputStatus_panics [OF wf tn(4)] using failed_shell_entry [OF conjunct1 [OF crash] wf] by blast
  then have "\<not> rf_stop f \<longrightarrow> fst (main_loop F po' (tn # tns) (d1, sw, f)) = Some RunPanic"
    using tn by (simp add: run_defs)
  with crash show ?thesis by blast
qed

section \<open>The properties at concrete inputs\<close>

definition sample_formats :: "nat formats" where
  "sample_formats = \<lparr>fm_time = itoa, fm_float = (\<lambda>n. show_base 10 n), fm_version = ''1.2''\<rparr>"

definition sample_turn :: "os_signal list \<Rightarrow> ref list \<Rightarrow> nat turn" where
  "sample_turn sigs order = \<lparr>tn_signals = sigs, tn_others = id, tn_now = 7, tn_status_order = order, tn_sweep_order = order,
     tn_device = zero_counters sample_fops\<rparr>"

definition busy_daemon :: daemon where
  "busy_daemon = sample_daemon\<lparr>d_reg := modify 0 (\<lambda>x. x\<lparr>ms_shell := Some True, ms_command := ''/bin/sh''\<rparr>) one_session\<rparr>"

lemma busy_daemon_reg:
  "wf_reg (d_reg busy_daemon)" "walks (d_reg busy_daemon) [0]" "sr_map (d_reg busy_daemon) = [''s1'' \<mapsto> 0]"
proof -
  have "ok_reg (d_reg busy_daemon)" using one_session_ok by (simp add: busy_daemon_def ok_modify)
  then show "wf_reg (d_reg busy_daemon)" by (simp add: ok_reg_def)
  show "sr_map (d_reg busy_daemon) = [''s1'' \<mapsto> 0]" by (simp add: busy_daemon_def modify_def one_session_map)
  then show "walks (d_reg busy_daemon) [0]" by (simp add: walks_def)
qed

theorem status_report_witness:
  "\<exists>ls. outputStatus sample_formats (zero_counters sample_fops) [0] busy_daemon \<lparr>rf_stop = False, rf_printStatus = True\<rparr> =
     Some (ls, \<lparr>rf_stop = False, rf_printStatus = False\<rparr>) \<and> length ls = 10"
proof -
  let ?f = "\<lparr>rf_stop = False, rf_printStatus = True\<rparr>"
  have shell: "\<exists>b. ms_shell x = Some b" if "sr_heap (d_reg busy_daemon) 0 = Some x" for x
    using that by (auto simp: busy_daemon_def modify_def)
  from status_report [OF busy_daemon_reg(1,2), where F = sample_formats and dev = "zero_counters sample_fops" and f = ?f] shell
  show ?thesis unfolding busy_daemon_reg(3) by (auto split: option.splits prod.splits if_splits)
qed

theorem run_until_term_witness:
  "\<exists>d'. main_loop sample_formats sample_po [sample_turn [] [], sample_turn [SIGTERM, SIGUSR1] []]
     (sample_daemon, 0, \<lparr>rf_stop = False, rf_printStatus = False\<rparr>) =
       (Some (RunReturned None), [], d', 0, \<lparr>rf_stop = True, rf_printStatus = True\<rparr>)"
proof -
  let ?tns = "[sample_turn [] [], sample_turn [SIGTERM, SIGUSR1] []]"
  let ?r = "main_loop sample_formats sample_po ?tns (sample_daemon, 0, \<lparr>rf_stop = False, rf_printStatus = False\<rparr>)"
  obtain e rs d' sw' f' where run: "?r = (e, rs, d', sw', f')" by (metis prod_cases5)
  have turn: "turn_effect sample_po (sample_turn [] []) (sample_daemon, 0) = (sample_daemon, 0)"
    by (simp add: turn_effect_def sample_turn_def main_turn_def timeToSweepSessions_def sample_daemon_def)
  have r: "fst ?r = Some (RunReturned None)" "snd (snd (snd (snd ?r))) = \<lparr>rf_stop = True, rf_printStatus = True\<rparr>"
    by code_simp+
  then have e: "e \<noteq> Some RunPanic" "f' = \<lparr>rf_stop = True, rf_printStatus = True\<rparr>" using run by simp_all
  have "(e = None) = False" using run r by simp
  with run_until_term [OF run e(1) refl, of sample_daemon 0] turn run r e show ?thesis
    by (simp add: sample_turn_def)
qed

definition sample_glib :: glib where
  "sample_glib = \<lparr>g_bus_get_sync = (\<lambda>t. (1, None)), g_dbus_proxy_new_sync = (\<lambda>c fl n p i. (2, None)),
     g_dbus_proxy_call_sync = (\<lambda>p m fl t. (0, Some (Some ''not authorized''))), string_from_g_variant = (\<lambda>r. []),
     first_string_from_g_variant = (\<lambda>r. []), second_string_from_g_variant = (\<lambda>r. []), boolean_from_g_variant = (\<lambda>r. 0)\<rparr>"

abbreviation sample_bus :: dbus_api where "sample_bus \<equiv> libgio_api sample_glib"

lemma sample_started: "\<exists>l. Run_start (Inr (Some sample_user)) sample_bus d = Inr l"
proof -
  have "\<exists>n. ParseUint g 10 32 = Inr n" if "g \<in> set (map (show_base 10) [1000, 100, 100, 27])" for g
    using that by (auto simp: ParseUint_show_base)
  then have "\<forall>g \<in> set (u_Uid sample_user # u_Gid sample_user # map (show_base 10) [100, 27]). \<exists>n. ParseUint g 10 32 = Inr n"
    by (auto simp: sample_user_def)
  moreover have "u_GroupIds sample_user = Inr (map (show_base 10) [100, 27])" by (simp add: sample_user_def)
  ultimately obtain d' where "Run_user (Inr (Some sample_user)) d = (None, d')"
    using Run_user_starts [of "Inr (Some sample_user)" d] by blast
  then show ?thesis
    by (simp add: Run_start_def auth_Connect_def libgio_api_def sample_glib_def BusGet_def BusProxyNew_def)
qed

theorem run_starts_witness:
  "\<exists>c d l. handleCLIOptions shell_os (Inr [''/bin/sh'']) ''daemon'' root_options = CliDaemon c d \<and>
     Run_start (Inr (Some sample_user)) sample_bus d = Inr l \<and> wf_loops l"
proof -
  obtain c d where cli: "handleCLIOptions shell_os (Inr [''/bin/sh'']) ''daemon'' root_options = CliDaemon c d"
    using root_cli by blast
  obtain l where "Run_start (Inr (Some sample_user)) sample_bus d = Inr l" using sample_started by blast
  with conjunct1 [OF conjunct2 [OF run_starts [OF cli, where lookup = "Inr (Some sample_user)" and G = sample_glib]]] cli
  show ?thesis by blast
qed

theorem failed_shell_fatal_witness:
  "\<exists>d1. routeMessageSpawnShell (sample_po\<lparr>po_CurrentUid := Inl (ErrText ''no user'')\<rparr>) 5
       (shell_request ''new'') sample_daemon = (Routed (Some (Wrapped ''failed to start shell''
          (ErrText (''unknown error with exec.Command('' @ ''/bin/sh'' @ '')'')))), d1) \<and>
     fst (main_loop sample_formats sample_po [sample_turn [SIGUSR1] [0]] (d1, 0, \<lparr>rf_stop = False, rf_printStatus = False\<rparr>)) =
       Some RunPanic"
proof -
  let ?po = "sample_po\<lparr>po_CurrentUid := Inl (ErrText ''no user'')\<rparr>"
  let ?e = "ErrText (''unknown error with exec.Command('' @ ''/bin/sh'' @ '')'')"
  have "fst (routeMessageSpawnShell ?po 5 (shell_request ''new'') sample_daemon) =
      Routed (Some (Wrapped ''failed to start shell'' ?e))" by code_simp
  then obtain d1 where run: "routeMessageSpawnShell ?po 5 (shell_request ''new'') sample_daemon =
      (Routed (Some (Wrapped ''failed to start shell'' ?e)), d1)" by (metis prod.collapse)
  have ok: "ok_daemon sample_daemon" using sample_daemon_ok by (simp add: ok_daemon_def sample_daemon_def)
  have "sr_map (d_reg d1) = [''s1'' \<mapsto> 0]"
    using run
  proof (cases rule: routeMessageSpawnShell_cases)
    case (refused e d2)
    with spawn_session_refused [OF refused(2)] show ?thesis by simp
  next
    case (failed r d2 e reg rsp)
    have "sr_map (d_reg d2) = [''s1'' \<mapsto> 0]"
      using spawn_session_new [OF failed(2)]
      by (simp add: sample_daemon_def empty_registry_def shell_request_def)
    with failed(6) StartShell_index [OF failed(4)] show ?thesis by (simp add: same_index_def)
  qed simp_all
  then have w: "walks (d_reg d1) (tn_status_order (sample_turn [SIGUSR1] [0]))" by (simp add: walks_def sample_turn_def)
  from failed_shell_fatal [OF ok sample_daemon_none run refl _ _ _ w,
      where f = "\<lparr>rf_stop = False, rf_printStatus = False\<rparr>" and F = sample_formats and po' = sample_po and tns = "[]" and sw = 0] run
  show ?thesis by (simp add: sample_turn_def)
qed

end
