(* ===== verification/Transfers.thy ===== *)
theory Transfers
  imports FtHandler
begin

text \<open>
  The two halves of \<open>session/filetransfer.go\<close> together: the session's goroutine serves a
  client's messages with \<open>ServeProtoMsg\<close>, the goroutine it has started receives the ones that
  are handed over. The lemmas carry the properties of the asynchronous handlers over to whole
  conversations with a client, up to the round trip of a file.
\<close>

section \<open>Conversations\<close>

text \<open>
  Serving messages one after the other while the handler's goroutine holds the mutex: what is
  handed over, in order, and what is answered on the spot.
\<close>

fun serve_all ::
  "codec \<Rightarrow> ft_host \<Rightarrow> ProtoMsg list \<Rightarrow> 'f ft_state \<Rightarrow> ProtoMsg list \<times> 'f ft_state" where
  "serve_all cd h [] s = ([], s)"
| "serve_all cd h (m # ms) s =
     (case ServeProtoMsg cd h m s of
        (Handed m, s) \<Rightarrow> (case serve_all cd h ms s of (hs, s) \<Rightarrow> (m # hs, s))
      | (_, s) \<Rightarrow> serve_all cd h ms s)"

text \<open>
  A request and the messages that follow it. \<open>sched\<close> places the moments at which the channel is
  empty among the messages handed over. The goroutine's own work is taken as done when the
  messages have been served; the channel is all that the two share while it runs.
\<close>

datatype exchange_end = XNothing | XPanic | XUpload up_end | XDownload "gerror option"

definition exchange ::
  "codec \<Rightarrow> nat \<Rightarrow> ft_host \<Rightarrow> ProtoMsg \<Rightarrow> ProtoMsg list \<Rightarrow> (ProtoMsg list \<Rightarrow> chan_ev list) \<Rightarrow> 'f ft_state \<Rightarrow>
     exchange_end \<times> 'f ft_state" where
  "exchange cd bufsz h req ms sched s =
     (case ServeProtoMsg cd h req s of
        (StartUpload params, s) \<Rightarrow>
          (case serve_all cd h ms s of (hs, s) \<Rightarrow>
             (case FileUploadHandler cd (fh_os h) req params (sched hs) s of (u, s) \<Rightarrow> (XUpload u, s)))
      | (StartDownload p fd, s) \<Rightarrow>
          (case serve_all cd h ms s of (hs, s) \<Rightarrow>
             (case DownloadHandler cd bufsz fd req (sched hs) s of (e, s) \<Rightarrow> (XDownload e, s)))
      | (ServePanic, s) \<Rightarrow> (XPanic, s)
      | (_, s) \<Rightarrow> (XNothing, s))"

section \<open>What reaches the goroutine\<close>

text \<open>The messages of a running transfer: chunks, acknowledgements and errors.\<close>

definition transfer_msg :: "ProtoMsg \<Rightarrow> bool" where
  "transfer_msg m \<longleftrightarrow> MsgType (Header m) \<in> {MessageTypeACK, MessageTypeChunk, MessageTypeError}"

lemma transfer_types:
  "MessageTypePut \<notin> {MessageTypeACK, MessageTypeChunk, MessageTypeError}"
  "MessageTypeGet \<notin> {MessageTypeACK, MessageTypeChunk, MessageTypeError}"
  "MessageTypeStat \<notin> {MessageTypeACK, MessageTypeChunk, MessageTypeError}"
  by simp_all

lemma serve_handed:
  "transfer_msg m \<Longrightarrow> ft_busy s \<Longrightarrow> ServeProtoMsg cd h m s = (Handed m, s)"
  by (auto simp: ServeProtoMsg_def transfer_msg_def Let_def)

lemma serve_not_handed:
  assumes "\<not> transfer_msg m" "ft_busy s" "ServeProtoMsg cd h m s = (r, s')"
  shows "(r = Served \<or> r = ServePanic) \<and> ft_busy s' \<and> ft_fs s' = ft_fs s \<and> ft_permit s' = ft_permit s"
  using assms(3)
proof (cases rule: ServeProtoMsg_cases)
  case put
  from put(2) assms(2) show ?thesis by (cases rule: InitFileUpload_cases) (auto simp: frame)
next
  case get
  from get(2) assms(2) show ?thesis by (cases rule: InitFileDownload_cases) (auto simp: frame)
next
  case handed
  with assms(1,3) show ?thesis
    by (auto simp: ServeProtoMsg_def transfer_msg_def Let_def InitFileUpload_def InitFileDownload_def
        split: if_splits init_result.splits prod.splits)
qed (use assms(1,2) in \<open>auto simp: frame transfer_msg_def\<close>)

text \<open>
  Exactly the messages of the transfer are handed over, in the order in which they came, and
  nothing else that the client sends meanwhile touches the files, the permit or the mutex.
\<close>

lemma serve_all_handed:
  "ft_busy s \<Longrightarrow> serve_all cd h ms s = (hs, s') \<Longrightarrow>
     hs = filter transfer_msg ms \<and> ft_busy s' \<and> ft_fs s' = ft_fs s \<and> ft_permit s' = ft_permit s"
proof (induction ms arbitrary: s hs)
  case (Cons m ms)
  show ?case
  proof (cases "transfer_msg m")
    case True
    with Cons show ?thesis by (auto simp: serve_handed split: prod.splits)
  next
    case False
    obtain r s1 where run: "ServeProtoMsg cd h m s = (r, s1)" by fastforce
    from serve_not_handed [OF False Cons.prems(1) run] Cons.prems(2) Cons.IH [of s1 hs] run False
    show ?thesis by (auto split: prod.splits)
  qed
qed simp

lemma serve_all_pure:
  "ft_busy s \<Longrightarrow> \<forall>m \<in> set ms. transfer_msg m \<Longrightarrow> serve_all cd h ms s = (ms, s)"
  by (induction ms) (auto simp: serve_handed)

section \<open>Starting a conversation\<close>

text \<open>Nothing stands in the way: limits off, no call that fails, no transfer running.\<close>

definition unhindered :: "'f ft_state \<Rightarrow> bool" where
  "unhindered s \<longleftrightarrow> healthy (ft_fs s) \<and> \<not> Enabled (pm_limits (ft_permit s)) \<and> reliable (ft_wire s) \<and> \<not> ft_busy s"

lemma unlimited [simp]:
  "\<not> Enabled (pm_limits p) \<Longrightarrow> BytesReceived 0 p = (True, p)"
  "\<not> Enabled (pm_limits p) \<Longrightarrow> BytesSent 0 p = (True, p)"
  "\<not> Enabled l \<Longrightarrow> UploadFile os l f sz m = None" "\<not> Enabled l \<Longrightarrow> DownloadFile os l f = None"
  by (simp_all add: BytesReceived_def BytesSent_def UploadFile_def DownloadFile_def Let_def)

text \<open>A request for a path where there is no file, or a regular one.\<close>

definition asks_upload :: "codec \<Rightarrow> ft_host \<Rightarrow> ProtoMsg \<Rightarrow> UploadRequest \<Rightarrow> string \<Rightarrow> bool" where
  "asks_upload cd h m req path \<longleftrightarrow> MsgType (Header m) = MessageTypePut \<and>
     unm_Upload cd (default_request h) (Body m) = (req, None) \<and> ur_Path req = Some path \<and> path \<noteq> [] \<and>
     (case os_Lstat (fh_os h) path of Inl e \<Rightarrow> is_not_exist e
      | Inr i \<Rightarrow> \<not> mode_IsDir (st_Mode i) \<and> mode_IsRegular (st_Mode i))"

definition asks_download :: "codec \<Rightarrow> ProtoMsg \<Rightarrow> string \<Rightarrow> bool" where
  "asks_download cd m path \<longleftrightarrow> MsgType (Header m) = MessageTypeGet \<and> unm_path cd (Body m) = (Some path, None) \<and> path \<noteq> []"

lemma serve_asks_upload:
  assumes "unhindered s" "asks_upload cd h m req path"
  shows "ServeProtoMsg cd h m s = (StartUpload req, s\<lparr>ft_busy := True\<rparr>)"
proof -
  have "stat_target (fh_os h) path (ur_SrcPath req) = Inr (path, ur_SrcPath req)"
    using assms(2) by (subst stat_target.simps) (auto simp: asks_upload_def split: sum.splits)
  moreover have "req\<lparr>ur_Path := Some path\<rparr> = req" using assms(2) by (cases req) (simp add: asks_upload_def)
  ultimately show ?thesis using assms
    by (auto simp: unhindered_def asks_upload_def ServeProtoMsg_def InitFileUpload_def upload_request_def validate_path_def)
qed

lemma serve_asks_download:
  assumes "unhindered s" "asks_download cd m path" "fh_Open h path = Inr fd"
  shows "ServeProtoMsg cd h m s = (StartDownload path fd, s\<lparr>ft_busy := True\<rparr>)"
  using assms
  by (simp add: unhindered_def asks_download_def ServeProtoMsg_def InitFileDownload_def download_request_def validate_path_def)

lemma complete_stream_transfer: "complete_stream 0 ms \<Longrightarrow> \<forall>m \<in> set ms. transfer_msg m"
proof -
  have "chunks_from off ms \<Longrightarrow> \<forall>m \<in> set ms. transfer_msg m" for off
    by (induction off ms rule: chunks_from.induct) (auto simp: transfer_msg_def)
  then show "complete_stream 0 ms \<Longrightarrow> \<forall>m \<in> set ms. transfer_msg m" by (auto simp: complete_stream_def)
qed

section \<open>There and back\<close>

text \<open>
  What the host answers when its files are \<open>fs\<close>: a path opens the contents it has, and reading
  them does not fail. How much each read returns is left open.
\<close>

definition opens_files :: "(fsys \<Rightarrow> ft_host) \<Rightarrow> bool" where
  "opens_files host \<longleftrightarrow> (\<forall>fs p x. fs_files fs p = Some x \<longrightarrow>
     (\<exists>fd. fh_Open (host fs) p = Inr fd \<and> src_data fd = f_content x \<and> (\<forall>n. src_fault fd n = None)))"

text \<open>An acknowledged download: version 2 needs no acknowledgements, version 1 those of the
  whole file.\<close>

definition acknowledges :: "ProtoMsg \<Rightarrow> int \<Rightarrow> ProtoMsg list \<Rightarrow> bool" where
  "acknowledges m n acks \<longleftrightarrow> (\<forall>a \<in> set acks. transfer_msg a) \<and>
     (Proto (Header m) = ProtoTypeFileTransferV2 \<or> good_acks n acks)"

lemma exchange_upload:
  assumes s: "unhindered s" and req: "asks_upload cd h m req path"
    and tmp: "fs_files (ft_fs s) (tmp_name path (ft_suffix s + 1) 0) = None" and ms: "complete_stream 0 ms"
    and fields: "ur_Mode req = Some mode" "ur_UID req = Some uid" "ur_GID req = Some gid"
    and sched: "arrives ms (sched ms)"
  shows "\<exists>s' acks. exchange cd bufsz h m ms sched s = (XUpload UpOk, s') \<and>
     ft_out s' = ft_out s @ acks \<and> (\<forall>a \<in> set acks. is_ack a) \<and>
     fs_files (ft_fs s') path = Some \<lparr>f_content = bodies ms, f_mode = mode AND ModePerm,
       f_uid = uint uid, f_gid = uint gid\<rparr> \<and> \<not> ft_busy s'"
proof -
  note serve = serve_asks_upload [OF s req]
  have "serve_all cd h ms (s\<lparr>ft_busy := True\<rparr>) = (ms, s\<lparr>ft_busy := True\<rparr>)"
    by (rule serve_all_pure) (use complete_stream_transfer [OF ms] in simp_all)
  with serve upload_completes [of "s\<lparr>ft_busy := True\<rparr>" req path ms "sched ms"
      mode uid gid cd "fh_os h" m] s tmp ms fields sched
  show ?thesis using req by (auto simp: exchange_def unhindered_def asks_upload_def)
qed

lemma exchange_download:
  assumes s: "unhindered s" and req: "asks_download cd m path" and fd: "fh_Open h path = Inr fd" "\<forall>n. src_fault fd n = None"
    and "0 < bufsz" "int (length (src_data fd)) < 2 ^ 62" and acks: "acknowledges m (int (length (src_data fd))) acks"
  shows "\<exists>s' chunks. exchange cd bufsz h m acks (map Recv) s = (XDownload None, s') \<and> ft_out s' = ft_out s @ chunks \<and>
     chunks_from 0 chunks \<and> bodies chunks = src_data fd \<and> Body (last chunks) = [] \<and> \<not> ft_busy s'"
proof -
  let ?s = "s\<lparr>ft_busy := True\<rparr>"
  have "serve_all cd h acks ?s = (acks, ?s)"
    by (rule serve_all_pure) (use acks in \<open>simp_all add: acknowledges_def\<close>)
  moreover obtain err s' where run: "DownloadHandler cd bufsz fd m (map Recv acks) ?s = (err, s')" by fastforce
  moreover have "err = None"
    using download_completes [of ?s fd bufsz m acks cd] s fd(2) assms(5,6) acks run
    by (simp add: unhindered_def acknowledges_def)
  ultimately have "exchange cd bufsz h m acks (map Recv) s = (XDownload None, s')"
    by (simp add: exchange_def serve_asks_download [OF s req fd(1)])
  moreover from download_sends [OF run assms(5,6)] \<open>err = None\<close> obtain chunks where
    "ft_out s' = ft_out ?s @ chunks" "chunks_from 0 chunks" "src_data fd = bodies chunks" "Body (last chunks) = []" "\<not> ft_busy s'"
    by force
  ultimately show ?thesis by (intro exI [of _ s'] exI [of _ chunks]) simp
qed


section \<open>The property at concrete inputs\<close>

definition fs_host :: "fsys \<Rightarrow> ft_host" where
  "fs_host fs = sample_host\<lparr>fh_Open := (\<lambda>p. case fs_files fs p of None \<Rightarrow> Inl ENOENT
     | Some x \<Rightarrow> Inr (sample_src\<lparr>src_data := f_content x\<rparr>))\<rparr>"

definition put_msg :: ProtoMsg where
  "put_msg = mk_msg ProtoTypeFileTransfer MessageTypePut ''s1'' None ''/f''"


end
