(* ===== verification/TransferOutput.thy ===== *)
theory TransferOutput
  imports Transfers Device
begin

text \<open>
  The two goroutines of a file transfer in their session: whatever they meet, an upload fed
  with messages of its session and a download write messages of that session only. With the
  contract of the handlers this makes every message a session sends its own.
\<close>

section \<open>What the transfers' goroutines write\<close>

text \<open>Only messages of the session: their own answers and the acknowledgements of its messages.\<close>

definition in_sess_evs :: "string \<Rightarrow> chan_ev list \<Rightarrow> bool" where
  "in_sess_evs sid evs \<longleftrightarrow> (\<forall>m \<in> set (chan_msgs evs). in_session sid m)"

lemma CopyBuffer_own:
  "CopyBuffer req bufsz limit n d = (r, d') \<Longrightarrow>
     ftw.extends_by (in_session (SessionID (Header req))) (dl_ft d) (dl_ft d')"
proof (induction req bufsz limit n d arbitrary: r d' rule: CopyBuffer.induct)
  case (1 req bufsz limit n d)
  let ?P = "in_session (SessionID (Header req))"
  note run = "1.prems" [unfolded CopyBuffer.simps [of req bufsz limit n d]]
  show ?case
  proof (cases "read_size bufsz limit = 0")
    case False
    obtain rd f where rd: "src_Read (read_size bufsz limit) (dl_src d) = (rd, f)" by fastforce
    show ?thesis
    proof (cases rd)
      case (ReadOk b)
      obtain e d1 where c: "chunk_Write req b (d\<lparr>dl_src := f\<rparr>) = (e, d1)" by fastforce
      have own: "ftw.extends_by ?P (dl_ft d) (dl_ft d1)"
        using c ftw.extends_by_wr [of ?P "chunk_at req (dl_off d) b" "dl_ft d"]
        by (auto simp: chunk_Write_def chunk_at_def split: prod.splits option.splits)
      show ?thesis
      proof (cases e)
        case None
        from run False rd ReadOk c None
        have "CopyBuffer req bufsz (map_option (\<lambda>l. l - int (length b)) limit) (n + int (length b)) d1 = (r, d')" by simp
        from "1.IH" [OF False rd [symmetric] ReadOk c [symmetric] None this] own show ?thesis
          by (auto intro: ftw.extends_by_trans)
      qed (use run False rd ReadOk c own in simp)
    qed (use run False rd in auto)
  qed (use run in simp)
qed

lemma send_window_own:
  "send_window req ack d = (r, d') \<Longrightarrow> ftw.extends_by (in_session (SessionID (Header req))) (dl_ft d) (dl_ft d')"
  by (auto simp: send_window_def Let_def ftw.extends_by_def dest!: CopyBuffer_own split: if_splits prod.splits option.splits)

lemma send_loop_own:
  "send_loop req ack evs d = (r, es, d') \<Longrightarrow>
     ftw.extends_by (in_session (SessionID (Header req))) (dl_ft d) (dl_ft d')"
proof (induction req ack evs d arbitrary: r es d' rule: send_loop.induct)
  case (1 req ack evs d)
  obtain x d1 where w: "send_window req ack d = (x, d1)" by fastforce
  note run = "1.prems" [unfolded send_loop.simps [of req ack evs d] w]
  note own = send_window_own [OF w]
  show ?case
  proof (cases x)
    case (Inr b)
    show ?thesis
    proof (cases b)
      case False
      obtain a r1 where a: "waitAck evs = (a, r1)" by fastforce
      show ?thesis
      proof (cases a)
        case c: (Inr off)
        from run Inr False a c have "send_loop req off r1 d1 = (r, es, d')" by simp
        from "1.IH" [OF w [symmetric] Inr False a [symmetric] c this] own show ?thesis
          by (auto intro: ftw.extends_by_trans)
      qed (use run Inr False a own in simp)
    qed (use run Inr own in simp)
  qed (use run own in simp)
qed

lemma ft_reply_own: "ftw.extends_by (in_session (SessionID (Header m))) s (ft_reply_error cd m e s)"
  unfolding ft_reply_error_def by (rule ftw.extends_by_wr) (simp add: ft_error_msg_def)

lemma DownloadHandler_own:
  assumes "DownloadHandler cd bufsz fd req evs s = (e, s')"
  shows "ftw.extends_by (in_session (SessionID (Header req))) s s'"
proof -
  let ?P = "in_session (SessionID (Header req))"
  let ?d = "\<lparr>dl_ft = s, dl_src = fd, dl_off = 0\<rparr>"
  have chunk: "ftw.extends_by ?P (dl_ft d) (dl_ft d1)" if "chunk_Write req b d = (x, d1)" for b d x d1
    using that ftw.extends_by_wr [of ?P "chunk_at req (dl_off d) b" "dl_ft d"]
    by (auto simp: chunk_Write_def chunk_at_def split: prod.splits option.splits)
  obtain err d where b: "download_body bufsz req evs ?d = (err, d)" by fastforce
  have body: "ftw.extends_by ?P s (dl_ft d)"
    using b by (auto simp: download_body_def split: prod.splits sum.splits option.splits if_splits
        dest!: CopyBuffer_own send_loop_own chunk intro: ftw.extends_by_trans)
  have "s' = download_cleanup cd req err (dl_ft d)" using assms b by (auto simp: DownloadHandler_def)
  then have "ftw.extends_by ?P (dl_ft d) s'"
    using ft_reply_own [of req "dl_ft d" cd] by (auto simp: download_cleanup_def ftw.extends_by_def split: option.splits)
  with body show ?thesis by (rule ftw.extends_by_trans)
qed

lemma ack_batch_own:
  "ack_batch dst k msg eof o1 evs s = (br, o2, r, s2) \<Longrightarrow> in_session sid msg \<Longrightarrow> in_sess_evs sid evs \<Longrightarrow>
     in_sess_evs sid r \<and> (\<forall>msg' eof'. br = Inr (msg', eof') \<longrightarrow> in_session sid msg')"
proof (induction k arbitrary: msg eof o1 evs s)
  case (Suc k)
  show ?case
  proof (cases "chan_poll evs")
    case (PMsg m r1)
    obtain cr o3 s3 where w: "writeChunk dst m o1 s = (cr, o3, s3)" by (cases "writeChunk dst m o1 s") auto
    from chan_poll_msgs(1) [OF PMsg] Suc.prems(3) have m: "in_session sid m" "in_sess_evs sid r1"
      by (simp_all add: in_sess_evs_def)
    from Suc.prems(1) PMsg w Suc.IH [OF _ m] m show ?thesis by (cases cr) auto
  qed (use Suc.prems chan_poll_msgs(2) in \<open>auto simp: in_sess_evs_def\<close>)
qed auto

lemma ftw_same_wire: "ft_wire s' = ft_wire s \<Longrightarrow> ftw.extends_by P s s'"
  by (simp add: ftw.extends_by_def)

lemma writeFile_own:
  "writeFile dst offset evs s = (res, offset', r, s') \<Longrightarrow> in_sess_evs sid evs \<Longrightarrow>
     ftw.extends_by (in_session sid) s s'"
proof (induction evs arbitrary: offset s rule: measure_induct_rule [where f = length])
  case (less evs)
  note step = less.prems(1) [unfolded writeFile.simps [of dst offset evs s]]
  show ?case
  proof (cases "chan_recv evs")
    case (Some mr)
    obtain msg r1 where mr: "mr = (msg, r1)" by (cases mr)
    note r1 = chan_recv_length [OF Some [unfolded mr]]
    have m: "in_session sid msg" "in_sess_evs sid r1"
      using chan_recv_msgs [OF Some [unfolded mr]] less.prems(2) by (simp_all add: in_sess_evs_def)
    obtain cr o1 s1 where w: "writeChunk dst msg offset s = (cr, o1, s1)"
      by (cases "writeChunk dst msg offset s") auto
    have x1: "ftw.extends_by (in_session sid) s s1" using writeChunk_only [OF w] by (intro ftw_same_wire) simp
    obtain br o2 r2 s2 where b:
      "ack_batch dst (ACKSlidingWindowSend - 1) msg (cr = ChunkEOF) o1 r1 s1 = (br, o2, r2, s2)"
      by (metis prod_cases4)
    note bm = ack_batch_own [OF b m] and b2 = ack_batch_rest [OF b]
    have x2: "ftw.extends_by (in_session sid) s s2"
      using x1 ack_batch_only [OF b] by (auto intro: ftw.extends_by_trans ftw_same_wire)
    have x3: "ftw.extends_by (in_session sid) s (snd (send (ack_of (Header m')) s2))" if "in_session sid m'" for m'
      using x2 by (rule ftw.extends_by_trans) (use that in \<open>simp add: ftw.extends_by_wr\<close>)
    have IH1: "ftw.extends_by (in_session sid) s s'" if "writeFile dst o1 r1 s1 = (res, offset', r, s')"
      using less.IH [OF r1 that m(2)] x1 by (auto intro: ftw.extends_by_trans)
    have IH3: "ftw.extends_by (in_session sid) s s'"
      if "in_session sid m'" "writeFile dst o2 r2 (snd (send (ack_of (Header m')) s2)) = (res, offset', r, s')" for m'
      using less.IH [OF _ that(2)] r1 b2 bm x3 [OF that(1)] by (auto intro: ftw.extends_by_trans)
    show ?thesis
    proof (cases br)
      case (Inl e)
      with step Some mr w b x1 x2 IH1 show ?thesis by (cases cr) (auto split: if_splits)
    next
      case (Inr p)
      obtain m' eof where p: "p = (m', eof)" by fastforce
      then have m': "in_session sid m'" using bm Inr by simp
      note x3' = x3 [OF m'] and IH3' = IH3 [OF m']
      obtain e3 s3 where snd: "send (ack_of (Header m')) s2 = (e3, s3)" by fastforce
      have x4: "ftw.extends_by (in_session sid) s s3" using x3' snd by simp
      have IH4: "ftw.extends_by (in_session sid) s s'" if "writeFile dst o2 r2 s3 = (res, offset', r, s')"
        using IH3' that snd by simp
      show ?thesis
        by (cases cr; cases e3) (use step Some mr w b Inr p snd x1 x4 IH1 IH4 in \<open>auto split: if_splits\<close>)
    qed
  qed (use step in auto)
qed

lemma upload_commit_own:
  assumes "upload_commit os msg params path name s = (u, fd, closeFd, s')"
  shows "ftw.extends_by (in_session (SessionID (Header msg))) s s'"
proof -
  have fs: "ft_wire s2 = ft_wire s1" if "on_fs f s1 = (e, s2)" for f e and s1 s2 :: "'a ft_state"
    using on_fs_sel(3) [of f s1] that by simp
  have ack: "ftw.extends_by (in_session (SessionID (Header msg))) s s2"
    if "send (ack_of (Header msg)) s1 = (e, s2)" "ft_wire s1 = ft_wire s" for s1 s2 e
    using ftw.extends_by_wr [of "in_session (SessionID (Header msg))" "ack_of (Header msg)" s1] that
    by (simp add: ftw.extends_by_def)
  from assms show ?thesis
    by (auto simp: upload_commit_def on_fs_sel intro!: ftw_same_wire split: option.splits prod.splits if_splits dest!: fs elim!: ack)
qed

lemma create_tmp_wire: "create_tmp k err i path s = (r, s') \<Longrightarrow> ft_wire s' = ft_wire s"
  by (induction k arbitrary: err i s) (auto simp: Let_def split: option.splits prod.splits if_splits)

lemma createWrOnlyTempFile_wire: "createWrOnlyTempFile path s = (r, s') \<Longrightarrow> ft_wire s' = ft_wire s"
  unfolding createWrOnlyTempFile_def by (rule create_tmp_wire)

lemma ft_reply_own_wire:
  "ft_wire s1 = ft_wire s \<Longrightarrow> ftw.extends_by (in_session (SessionID (Header m))) s (ft_reply_error cd m e s1)"
  using ft_reply_own [of m s1 cd e] by (simp add: ftw.extends_by_def)

lemma upload_cleanup_own:
  "ftw.extends_by (in_session (SessionID (Header msg))) s (upload_cleanup cd msg fd closeFd e s)"
proof -
  have busy: "ftw.extends_by P s (s1\<lparr>ft_busy := b\<rparr>) = ftw.extends_by P s s1" for P b and s1 :: "'a ft_state"
    by (simp add: ftw.extends_by_def)
  show ?thesis
    unfolding upload_cleanup_def Let_def busy
    by (auto intro: ft_reply_own_wire ftw_same_wire split: option.splits)
qed

lemma FileUploadHandler_own:
  assumes "FileUploadHandler cd os msg params evs s = (u, s')" and "in_sess_evs (SessionID (Header msg)) evs"
  shows "ftw.extends_by (in_session (SessionID (Header msg))) s s'"
proof -
  let ?P = "in_session (SessionID (Header msg))"
  let ?own = "\<lambda>s1. ftw.extends_by ?P s s1"
  have clean: "?own (upload_cleanup cd msg fd closeFd e s1)" if "?own s1" for fd closeFd e s1
    using that upload_cleanup_own by (rule ftw.extends_by_trans)
  show ?thesis
  proof (cases "ur_Path params")
    case None
    with assms(1) clean [of s] show ?thesis by (auto simp: FileUploadHandler_def)
  next
    case (Some path)
    obtain t s1 where t: "createWrOnlyTempFile path s = (t, s1)" by fastforce
    have o1: "?own s1" using createWrOnlyTempFile_wire [OF t] by (intro ftw_same_wire) simp
    show ?thesis
    proof (cases t)
      case (Inl e)
      have "?own (ft_reply_error cd msg (Wrapped ''failed to create target file'' e) s1)"
        using o1 ft_reply_own by (rule ftw.extends_by_trans)
      from clean [OF this] assms(1) Some t Inl show ?thesis by (auto simp: FileUploadHandler_def)
    next
      case (Inr name)
      obtain a s2 where a: "(if Proto (Header msg) = ProtoTypeFileTransfer then send (first_ack msg) s1 else (None, s1)) = (a, s2)"
        by fastforce
      have "ftw.extends_by ?P s1 s2"
        using a ftw.extends_by_wr [of ?P "first_ack msg" s1] by (auto simp: first_ack_def split: if_splits)
      with o1 have o2: "?own s2" by (rule ftw.extends_by_trans)
      obtain w o3 r s3 where w: "writeFile name 0 evs s2 = (w, o3, r, s3)" by (metis prod_cases4)
      from o2 writeFile_own [OF w assms(2)] have o3: "?own s3" by (rule ftw.extends_by_trans)
      obtain u1 fd closeFd s4 where c: "upload_commit os msg params path name s3 = (u1, fd, closeFd, s4)" by (metis prod_cases4)
      from o3 upload_commit_own [OF c] have o4: "?own s4" by (rule ftw.extends_by_trans)
      from assms(1) Some t Inr a w c clean [OF o2] clean [OF o3] clean [OF o4] show ?thesis
        by (cases a; cases w) (auto simp: FileUploadHandler_def)
    qed
  qed
qed

section \<open>A transfer stays in its session\<close>

text \<open>
  C9. A file transfer stays in its session. Whatever the file system, the permit and the
  connection do, and however it ends, the goroutine of an upload or a download whose request and
  channel are of one session writes messages of that session only, errors and acknowledgements
  included, and takes none back.
\<close>

theorem transfers_in_session:
  assumes "SessionID (Header req) = sid" and "\<forall>m \<in> set (chan_msgs evs). SessionID (Header m) = sid"
  shows "(\<exists>ms. ft_out (snd (FileUploadHandler cd os req params evs s)) = ft_out s @ ms \<and>
       (\<forall>m \<in> set ms. SessionID (Header m) = sid)) \<and>
     (\<exists>ms. ft_out (snd (DownloadHandler cd bufsz fd req evs s)) = ft_out s @ ms \<and>
       (\<forall>m \<in> set ms. SessionID (Header m) = sid))"
proof -
  have "in_sess_evs (SessionID (Header req)) evs" using assms by (simp add: in_sess_evs_def)
  note up = FileUploadHandler_own [OF prod.collapse [symmetric] this]
  note down = DownloadHandler_own [OF prod.collapse [symmetric], where req = req]
  show ?thesis using up down unfolding ftw.extends_by_def assms(1) by blast
qed

theorem transfers_in_session_witness:
  "\<exists>ms. ft_out (snd (FileUploadHandler sample_codec sample_os sample_put sample_upload (map Recv sample_stream @ [Idle]) sample_ft)) =
     ft_out sample_ft @ ms \<and> length ms = 2 \<and> (\<forall>m \<in> set ms. SessionID (Header m) = ''s1'')"
proof -
  let ?s = "snd (FileUploadHandler sample_codec sample_os sample_put sample_upload (map Recv sample_stream @ [Idle]) sample_ft)"
  have sid: "SessionID (Header sample_put) = ''s1''"
    "\<forall>m \<in> set (chan_msgs (map Recv sample_stream @ [Idle])). SessionID (Header m) = ''s1''"
    by (simp_all add: sample_put_def sample_stream_def chunk_msg_def)
  obtain ms where ms: "ft_out ?s = ft_out sample_ft @ ms" "\<forall>m \<in> set ms. SessionID (Header m) = ''s1''"
    using conjunct1 [OF transfers_in_session [OF sid]] by blast
  have "length (ft_out ?s) = length (ft_out sample_ft) + 2" by code_simp
  with ms show ?thesis by auto
qed

end
