(* ===== verification/System.thy ===== *)
theory System
  imports Run TransferOutput
begin

text \<open>
  The whole device: the message loop, the loops that keep the connection, the main loop, the
  sessions with the goroutines of their handlers, and the shells with theirs, as one step
  relation in which the daemon routes every message that arrives with \<open>routeMessage\<close>. What the
  theories of the parts assume of each other is proved here of the parts themselves.
\<close>

section \<open>What the terminal's operations leave alone\<close>

text \<open>They leave the authorization alone and send messages of the terminal's protocol only.\<close>

abbreviation of_terminal :: "ProtoMsg \<Rightarrow> bool" where
  "of_terminal m \<equiv> Proto (Header m) = ProtoTypeShell"

definition terminal_frame :: "daemon \<Rightarrow> daemon \<Rightarrow> bool" where
  "terminal_frame d d' \<longleftrightarrow> same_auth d d' \<and> conn.extends_by of_terminal (d_wire d) (d_wire d')"

lemma terminal_frame_refl [simp]: "terminal_frame d d"
  by (simp add: terminal_frame_def same_auth_def)

lemma terminal_frame_upd [simp]:
  "terminal_frame d (d'\<lparr>d_reg := g\<rparr>) = terminal_frame d d'"
  "terminal_frame d (d'\<lparr>d_shellsSpawned := n\<rparr>) = terminal_frame d d'"
  "terminal_frame d (DecreaseSpawnedShellsCount k d') = terminal_frame d d'"
  by (simp_all add: terminal_frame_def same_auth_def)

lemma response_to_Proto [simp]: "Proto (Header (response_to m)) = Proto (Header m)"
  by (simp add: response_to_def)

lemma terminal_frame_write:
  assumes "terminal_frame d d'" "of_terminal m"
  shows "terminal_frame d (d'\<lparr>d_wire := snd (WriteProtoMsg m (d_wire d'))\<rparr>)"
  using assms conn.extends_by_trans [OF _ conn.extends_by_wr [of of_terminal m "d_wire d'"]]
  by (simp add: terminal_frame_def same_auth_def)

lemma responseMessage_snd: "snd (responseMessage m d) = d\<lparr>d_wire := snd (WriteProtoMsg m (d_wire d))\<rparr>"
  by (simp add: responseMessage_def split_beta)

lemma terminal_frame_message:
  "terminal_frame d d' \<Longrightarrow> of_terminal rsp \<Longrightarrow> terminal_frame d (snd (responseMessage rsp d'))"
  unfolding responseMessage_snd by (rule terminal_frame_write)

lemma terminal_frame_response:
  assumes "terminal_frame d d'" "of_terminal rsp"
  shows "terminal_frame d (routeMessageResponse rsp e d')"
proof (cases e)
  case None
  with terminal_frame_message [OF assms] show ?thesis by (simp add: routeMessageResponse_def)
next
  case (Some x)
  have "of_terminal ((with_status ErrorMessage rsp)\<lparr>Body := err_msg x\<rparr>)" using assms(2) by (simp add: with_status_def)
  from terminal_frame_message [OF assms(1) this] Some show ?thesis by (simp add: routeMessageResponse_def)
qed

lemma spawn_session_frame:
  assumes "spawn_session now m d = (x, d')"
  shows "terminal_frame d d'"
  using assms by (auto simp: spawn_session_def split: option.splits prod.splits)

lemma stop_done_frame:
  assumes "(x, d') = stop_done (response_to m) r d1" "terminal_frame d d1" "of_terminal m"
  shows "terminal_frame d d'"
  using assms by (auto simp: stop_done_def Let_def intro!: terminal_frame_response split: prod.splits if_splits)

lemma route_shell_frame:
  assumes "route_shell po wr now m d = Some (x, d')" "of_terminal m"
  shows "terminal_frame d d'"
  using assms(1)
proof (cases rule: route_shell_cases)
  case 1
  from 1(2) show ?thesis
    by (cases rule: routeMessageSpawnShell_cases)
       (auto simp: assms(2) intro!: terminal_frame_response dest: spawn_session_frame)
next
  case 2
  from 2(2) show ?thesis
  proof (cases rule: routeMessageStopShell_cases)
    case user
    then show ?thesis
      by (auto simp: stop_user_shells_def Let_def assms(2) intro!: terminal_frame_response split: if_splits prod.splits option.splits)
  next
    case (stopped r res reg)
    from stop_done_frame [OF stopped(4) _ assms(2), of d] show ?thesis by simp
  qed (auto simp: assms(2) intro!: terminal_frame_response)
qed (auto simp: route_defs Let_def assms(2) intro!: terminal_frame_response split: option.splits prod.splits if_splits)

text \<open>Routing a message: a terminal's, or one that a session gets.\<close>

lemma routeMessage_terminal:
  assumes "routeMessage E po wr now m (d, t) = (r, d', t')" "of_terminal m"
  shows "t' = t \<and> terminal_frame d d'"
proof (cases "tc_Disable (d_Terminal d) \<or> route_shell po wr now m d = None")
  case True
  have "of_terminal (unknown_response m)" using assms(2) by (simp add: unknown_response_def)
  from terminal_frame_message [OF terminal_frame_refl this, of d] True assms show ?thesis
    by (auto simp: routeMessage_def split: if_splits)
next
  case False
  then obtain x d1 where s: "route_shell po wr now m d = Some (x, d1)" by auto
  from route_shell_frame [OF s assms(2)] s False assms show ?thesis
    by (cases x) (auto simp: routeMessage_def)
qed

lemma routeMessage_session:
  assumes "routeMessage E po wr now m (d, t) = (r, d', t')" "\<not> of_terminal m"
  obtains q where "RouteMessage E m (t\<lparr>rt_wire := d_wire d\<rparr>) = (q, t')" "d' = d\<lparr>d_wire := rt_wire t'\<rparr>"
  using assms by (cases "RouteMessage E m (t\<lparr>rt_wire := d_wire d\<rparr>)") (auto simp: routeMessage_def)

lemma routeMessage_auth: "routeMessage E po wr now m (d, t) = (r, d', t') \<Longrightarrow> same_auth d d'"
proof (cases "of_terminal m")
  case True
  assume "routeMessage E po wr now m (d, t) = (r, d', t')"
  from routeMessage_terminal [OF this True] show ?thesis by (simp add: terminal_frame_def)
next
  case False
  assume "routeMessage E po wr now m (d, t) = (r, d', t')"
  from this False show ?thesis by (rule routeMessage_session) (simp add: same_auth_def)
qed

lemma routeMessage_ok:
  assumes "routeMessage E po wr now m (d, t) = (r, d', t')" "ok_daemon d"
  shows "ok_daemon d'"
proof (cases "of_terminal m")
  case True
  show ?thesis
  proof (cases "tc_Disable (d_Terminal d) \<or> route_shell po wr now m d = None")
    case none: True
    then have "d' = snd (responseMessage (unknown_response m) d)"
      using assms(1) True by (auto simp: routeMessage_def split: if_splits)
    with assms(2) show ?thesis by (simp add: responseMessage_snd ok_daemon_def)
  next
    case False
    then obtain x d1 where s: "route_shell po wr now m d = Some (x, d1)" by auto
    with False assms(1) True have "d' = d1" by (cases x) (auto simp: routeMessage_def)
    with route_shell_ok [OF s assms(2)] show ?thesis by simp
  qed
next
  case False
  from assms(1) False show ?thesis by (rule routeMessage_session) (use assms(2) in \<open>simp add: ok_daemon_def\<close>)
qed

section \<open>The other goroutines and the daemon's tables\<close>

text \<open>Ending sessions keeps the registry consistent in whatever order they come.\<close>

lemma stop_all_ok: "stop_all po rs n err s = (x, s') \<Longrightarrow> ok_reg s \<Longrightarrow> ok_reg s'"
  by (induction rs arbitrary: n err s)
     (auto split: prod.splits option.splits dest!: StopShell_index ok_same_index)

lemma delete_all_keeps: "delete_all rs n left err s = (x, s') \<Longrightarrow> ok_reg s \<Longrightarrow> ok_reg s'"
proof (induction rs arbitrary: n left err s)
  case (Cons r rs)
  obtain e s1 where d: "MenderShellDeleteById (id_of s r) s = (e, s1)" by fastforce
  with delete_ok [OF Cons.prems(2), of "id_of s r"] have "ok_reg s1" by simp
  with Cons d show ?case by (cases e) auto
qed simp

lemma TerminateAll_ok: "ok_reg s \<Longrightarrow> ok_reg (snd (MenderSessionTerminateAll po order s))"
  by (auto simp: MenderSessionTerminateAll_def split: prod.splits dest!: stop_all_ok delete_all_keeps)

lemma TerminateExpired_ok: "ok_reg s \<Longrightarrow> ok_reg (snd (MenderSessionTerminateExpired po now order s))"
  by (auto simp: MenderSessionTerminateExpired_def Let_def split: prod.splits dest!: stop_all_ok delete_all_keeps)

lemma Decrease_ok: "ok_daemon d \<Longrightarrow> ok_daemon (DecreaseSpawnedShellsCount n d)"
  using le_count [of "DecreaseSpawnedShellsCount n d" d] by (simp add: ok_daemon_def DecreaseSpawnedShellsCount_count)

lemma process_ok:
  assumes "processJwtTokenStateChange po order close token url (d, c) = (d', c')" "ok_daemon d"
  shows "ok_daemon d'" "d_wire d' = d_wire d"
proof -
  obtain n k e g where t: "MenderSessionTerminateAll po order (d_reg d) = ((n, k, e), g)" by (metis prod.exhaust)
  with TerminateAll_ok [of "d_reg d" po order] assms(2) have "ok_daemon (d\<lparr>d_reg := g\<rparr>)" by (simp add: ok_daemon_def)
  with Decrease_ok [OF this] have dec: "ok_daemon (if n > 0 then DecreaseSpawnedShellsCount (word_of_nat n) (d\<lparr>d_reg := g\<rparr>) else d\<lparr>d_reg := g\<rparr>)"
    by simp
  have auth: "ok_daemon (d\<lparr>d_authorized := b\<rparr>) = ok_daemon d" "ok_daemon (d\<lparr>d_serverJwt := j\<rparr>) = ok_daemon d" for d b j
    by (simp_all add: ok_daemon_def)
  show "ok_daemon d'"
    using assms t dec by (auto simp: processJwtTokenStateChange_def Let_def auth split: if_splits)
  show "d_wire d' = d_wire d"
    using assms(1) t by (auto simp: processJwtTokenStateChange_def Let_def split: if_splits)
qed

lemma dbus_store_ok [simp]: "ok_daemon (dbus_store p d) = ok_daemon d" "d_wire (dbus_store p d) = d_wire d"
  by (auto simp: dbus_store_def ok_daemon_def split: option.splits)

lemma dbus_post_ok [simp]: "ok_daemon (dbus_post t d) = ok_daemon d" "d_wire (dbus_post t d) = d_wire d"
  by (simp_all add: dbus_post_def ok_daemon_def)

lemma dbus_signal_ok:
  assumes "dbus_signal po order close p (d, c) = (new, d', c')" "ok_daemon d"
  shows "ok_daemon d' \<and> d_wire d' = d_wire d"
proof (cases "token_of p")
  case (Some tu)
  obtain t u where tu: "tu = (t, u)" by fastforce
  obtain d1 c1 where pr: "processJwtTokenStateChange po order close t u (d, c) = (d1, c1)" by fastforce
  have "d' = d1" using assms(1) Some tu pr by (simp add: dbus_signal_def Let_def)
  with process_ok [OF pr assms(2)] show ?thesis by simp
qed (use assms in \<open>simp add: dbus_signal_def\<close>)

lemma main_turn_ok:
  assumes "main_turn po now order (d, sw) = (d', sw')" "ok_daemon d"
  shows "ok_daemon d'" "d_wire d' = d_wire d" "same_auth d d'"
proof -
  obtain b l where s: "timeToSweepSessions now d sw = (b, l)" by fastforce
  obtain n k left e g where t: "MenderSessionTerminateExpired po now order (d_reg d) = ((n, k, left, e), g)"
    by (metis prod.exhaust)
  with TerminateExpired_ok [of "d_reg d" po now order] assms(2) have "ok_daemon (d\<lparr>d_reg := g\<rparr>)"
    by (simp add: ok_daemon_def)
  with Decrease_ok [OF this] assms s t show "ok_daemon d'"
    by (cases b) (auto simp: main_turn_def Let_def split: if_splits)
  show "d_wire d' = d_wire d" "same_auth d d'"
    using assms(1) s t by (cases b; auto simp: main_turn_def same_auth_def Let_def split: if_splits)+
qed

lemma run_turn_ok:
  assumes "run_turn F po tn (d, sw, f) = (None, ls, d', sw', f')" "ok_daemon d"
  shows "ok_daemon d'" "d_wire d' = d_wire d" "same_auth d d'"
proof -
  have "main_turn po (tn_now tn) (tn_sweep_order tn) (d, sw) = (d', sw')"
    using assms(1) by (auto simp: run_turn_def split: if_splits option.splits prod.splits)
  from main_turn_ok [OF this assms(2)] show "ok_daemon d'" "d_wire d' = d_wire d" "same_auth d d'" .
qed

section \<open>The system\<close>

text \<open>
  The daemon with its loops (\<open>sy_loops\<close>), the router with the sessions, the goroutines of file
  transfers whose session has left the table (\<open>sy_left\<close>, with its ID), the time of the last sweep, the
  flags of the signals, and whether the message loop is in a handler that never returns. Everyone
  writes to the connection in \<open>d_wire\<close>.
\<close>

record 'f system =
  sy_loops :: loops
  sy_router :: "'f dev_handler router"
  sy_left :: "(string \<times> ft_job) set"
  sy_last :: int
  sy_flags :: run_flags
  sy_hung :: bool

abbreviation sy_d :: "'f system \<Rightarrow> daemon" where "sy_d s \<equiv> lp_d (sy_loops s)"

definition system_init :: "loops \<Rightarrow> int \<Rightarrow> 'f system" where
  "system_init l started = \<lparr>sy_loops = l, sy_router = NewRouter (d_wire (lp_d l)), sy_left = {}, sy_last = started,
     sy_flags = \<lparr>rf_stop = False, rf_printStatus = False\<rparr>, sy_hung = False\<rparr>"

definition set_d :: "daemon \<Rightarrow> 'f system \<Rightarrow> 'f system" where
  "set_d d s = s\<lparr>sy_loops := (sy_loops s)\<lparr>lp_d := d\<rparr>\<rparr>"

text \<open>The router at the daemon's connection, and the state after it has been used.\<close>

definition at_router :: "'f system \<Rightarrow> 'f dev_handler router" where
  "at_router s = (sy_router s)\<lparr>rt_wire := d_wire (sy_d s)\<rparr>"

definition set_router :: "'f dev_handler router \<Rightarrow> 'f system \<Rightarrow> 'f system" where
  "set_router t s = set_d ((sy_d s)\<lparr>d_wire := rt_wire t\<rparr>) (s\<lparr>sy_router := t\<rparr>)"

text \<open>A handler of a session, which one of its goroutines replaces.\<close>

definition has_handler :: "'f system \<Rightarrow> string \<Rightarrow> ProtoType \<Rightarrow> 'f dev_handler \<Rightarrow> bool" where
  "has_handler s sid p h \<longleftrightarrow> (\<exists>x. rt_sessions (sy_router s) sid = Some x \<and> ss_handlers x p = Some h)"

definition put_handler :: "string \<Rightarrow> ProtoType \<Rightarrow> 'f dev_handler \<Rightarrow> wire \<Rightarrow> 'f system \<Rightarrow> 'f system" where
  "put_handler sid p h w s =
     (case rt_sessions (sy_router s) sid of
        None \<Rightarrow> s
      | Some x \<Rightarrow> set_router (rt_put sid (x\<lparr>ss_handlers := (ss_handlers x)(p \<mapsto> h)\<rparr>) ((sy_router s)\<lparr>rt_wire := w\<rparr>)) s)"

text \<open>
  What the goroutine of a file transfer writes. It is one of the messages of a run of \<open>FileUploadHandler\<close>
  or \<open>DownloadHandler\<close> on its request, with messages from its channel among those it has been handed;
  the file system, the permit, the connection and the moments it finds the channel empty or closed
  are as they may be, since others use them in between.
\<close>

definition job_writes :: "'f device \<Rightarrow> ft_job \<Rightarrow> ProtoMsg \<Rightarrow> bool" where
  "job_writes dv j m \<longleftrightarrow>
     (\<exists>evs ms (st :: 'f ft_state). set (chan_msgs evs) \<subseteq> set (jb_got j) \<and> m \<in> set ms \<and>
        (case jb_task j of
           UploadTask params \<Rightarrow>
             ft_out (snd (FileUploadHandler (dv_codec dv) (fh_os (dv_host dv)) (jb_request j) params evs st)) = ft_out st @ ms
         | DownloadTask fd \<Rightarrow>
             \<exists>bufsz. ft_out (snd (DownloadHandler (dv_codec dv) bufsz fd (jb_request j) evs st)) = ft_out st @ ms))"

definition jobs_of :: "'f dev_handler session \<Rightarrow> ft_job set" where
  "jobs_of x = {j. \<exists>p g c. ss_handlers x p = Some (HFile g c (Some j))}"

definition say :: "ProtoMsg \<Rightarrow> 'f system \<Rightarrow> 'f system" where
  "say m s = set_d ((sy_d s)\<lparr>d_wire := snd (WriteProtoMsg m (d_wire (sy_d s)))\<rparr>) s"

text \<open>Who acts: a session, the terminal, or what controls the daemon.\<close>

datatype actor = ASession string | ATerminal | AControl

definition actor_of :: "ProtoMsg \<Rightarrow> actor" where
  "actor_of m = (if of_terminal m then ATerminal else ASession (SessionID (Header m)))"

definition takes_message :: "loops \<Rightarrow> loops \<Rightarrow> bool" where
  "takes_message l l' \<longleftrightarrow> (\<exists>r. lp_ml l = MlRead r) \<and> lp_ml l' = MlTop False False"

text \<open>
  The steps: of the loops, other than the message loop's reading a message; of the message loop
  with the message it routes; of a session's timer and its end, which leaves its transfers running;
  of the reader of a port forward; of the goroutine of a file transfer, which writes a message or
  gives its token back; of a shell's output and its end, of a shell's health check; of a signal, and a turn of
  the main loop. A panic or fatal error ends the process, so there is no step with one.
\<close>

inductive sys_step ::
  "'f device \<Rightarrow> MenderShellConfig \<Rightarrow> cm_env \<Rightarrow> proc_os \<Rightarrow> 'x formats \<Rightarrow> 'f system \<Rightarrow> actor \<Rightarrow> 'f system \<Rightarrow> bool"
  for dv conf E po F where
  Control: "loop_step E po (sy_loops s) l \<Longrightarrow> \<not> takes_message (sy_loops s) l \<Longrightarrow>
    (sy_hung s \<longrightarrow> lp_ml l = lp_ml (sy_loops s)) \<Longrightarrow> sys_step dv conf E po F s AControl (s\<lparr>sy_loops := l\<rparr>)"
| Message: "lp_ml (sy_loops s) = MlRead r \<Longrightarrow> \<not> sy_hung s \<Longrightarrow>
    routeMessage (device_env conf dv) po wr now m (sy_d s, sy_router s) = (RouteDone e, d, t) \<Longrightarrow>
    sys_step dv conf E po F s (actor_of m)
      (s\<lparr>sy_loops := (sy_loops s)\<lparr>lp_ml := MlTop False False, lp_d := d\<rparr>, sy_router := t\<rparr>)"
| Stuck: "lp_ml (sy_loops s) = MlRead r \<Longrightarrow> \<not> sy_hung s \<Longrightarrow>
    routeMessage (device_env conf dv) po wr now m (sy_d s, sy_router s) = (RouteStuck, d, t) \<Longrightarrow>
    sys_step dv conf E po F s (actor_of m) (set_d d (s\<lparr>sy_router := t, sy_hung := True\<rparr>))"
| Timer: "rt_sessions (sy_router s) sid = Some x \<Longrightarrow> \<not> ss_done x \<Longrightarrow> sid \<notin> rt_stuck (sy_router s) \<Longrightarrow>
    startSession_turn (device_env conf dv) Tick sid x (at_router s) = (e, t) \<Longrightarrow> e \<noteq> Some SessFatal \<Longrightarrow>
    sys_step dv conf E po F s (ASession sid) (set_router t s)"
| Ended: "rt_sessions (sy_router s) sid = Some x \<Longrightarrow> ss_done x \<Longrightarrow>
    sys_step dv conf E po F s (ASession sid) (s\<lparr>sy_router := startSession_done sid (sy_router s), sy_left := sy_left s \<union> Pair sid ` jobs_of x\<rparr>)"
| Reader: "has_handler s sid p (HPort f) \<Longrightarrow> forwarder_Read (dv_net dv) q ev (f\<lparr>pf_wire := d_wire (sy_d s)\<rparr>) = Some f' \<Longrightarrow>
    sys_step dv conf E po F s (ASession sid) (put_handler sid p (HPort f') (pf_wire f') s)"
| Transfer: "has_handler s sid p (HFile g c (Some j)) \<Longrightarrow> ft_busy g \<Longrightarrow> job_writes dv j m \<Longrightarrow>
    sys_step dv conf E po F s (ASession sid) (say m s)"
| Transferred: "has_handler s sid p (HFile g c (Some j)) \<Longrightarrow> ft_busy g \<Longrightarrow>
    sys_step dv conf E po F s (ASession sid) (put_handler sid p (HFile (g\<lparr>ft_busy := False\<rparr>) c None) (d_wire (sy_d s)) s)"
| Leftover: "(sid, j) \<in> sy_left s \<Longrightarrow> job_writes dv j m \<Longrightarrow> sys_step dv conf E po F s (ASession sid) (say m s)"
| LeftoverEnd: "sys_step dv conf E po F s (ASession sid) (s\<lparr>sy_left := sy_left s - {(sid, j)}\<rparr>)"
| Output: "sr_heap (d_reg (sy_d s)) r = Some x \<Longrightarrow> ms_shell x = Some True \<Longrightarrow> length b \<le> pipStdoutBufferSize \<Longrightarrow>
    sys_step dv conf E po F s ATerminal (say (shell_msg (ms_id x) MessageTypeShellCommand NormalMessage b) s)"
| OutputEnd: "sr_heap (d_reg (sy_d s)) r = Some x \<Longrightarrow> ms_shell x \<noteq> None \<Longrightarrow>
    sys_step dv conf E po F s ATerminal
      (set_d ((sy_d s)\<lparr>d_wire := sendStopMessage (ms_id x) (Some e) (d_wire (sy_d s))\<rparr>) s)"
| HcPing: "sr_heap (d_reg (sy_d s)) r = Some x \<Longrightarrow> ms_shell x \<noteq> None \<Longrightarrow> \<not> ms_stopped x \<Longrightarrow>
    sys_step dv conf E po F s ATerminal (say (healthcheck_ping (ms_id x)) s)"
| HcTimeout: "sr_heap (d_reg (sy_d s)) r = Some x \<Longrightarrow> ms_shell x \<noteq> None \<Longrightarrow> \<not> ms_stopped x \<Longrightarrow>
    sys_step dv conf E po F s ATerminal
      (set_d ((sy_d s)\<lparr>d_reg := snd (healthcheck_timeout po now r (d_reg (sy_d s)))\<rparr>) s)"
| Signal: "sys_step dv conf E po F s AControl (s\<lparr>sy_flags := on_signal sig (sy_flags s)\<rparr>)"
| Turn: "run_turn F po tn (sy_d s, sy_last s, sy_flags s) = (None, ls, d, sw, f) \<Longrightarrow>
    sys_step dv conf E po F s AControl (set_d d (s\<lparr>sy_last := sw, sy_flags := f\<rparr>))"

inductive sys_reach ::
  "'f device \<Rightarrow> MenderShellConfig \<Rightarrow> cm_env \<Rightarrow> proc_os \<Rightarrow> 'x formats \<Rightarrow> loops \<Rightarrow> int \<Rightarrow> 'f system \<Rightarrow> bool"
  for dv conf E po F l started where
  Start: "sys_reach dv conf E po F l started (system_init l started)"
| Step: "sys_reach dv conf E po F l started s \<Longrightarrow> sys_step dv conf E po F s a s' \<Longrightarrow> sys_reach dv conf E po F l started s'"

section \<open>What holds of every state\<close>

definition sys_ok :: "'f system \<Rightarrow> bool" where
  "sys_ok s \<longleftrightarrow> wf_loops (sy_loops s) \<and> ok_daemon (sy_d s) \<and> wf_router (sy_router s) \<and> dev.all_entries (sy_router s) \<and>
     (\<forall>(sid, j) \<in> sy_left s. own_job sid j)"

text \<open>What a step writes and what it leaves alone, by who takes it.\<close>

definition sys_frame :: "actor \<Rightarrow> 'f system \<Rightarrow> 'f system \<Rightarrow> bool" where
  "sys_frame a s s' \<longleftrightarrow>
     (case a of
        ASession sid \<Rightarrow> conn.extends_by (in_session sid) (d_wire (sy_d s)) (d_wire (sy_d s')) \<and>
          (\<forall>q. q \<noteq> sid \<longrightarrow> rt_sessions (sy_router s') q = rt_sessions (sy_router s) q) \<and>
          d_reg (sy_d s') = d_reg (sy_d s) \<and> d_shellsSpawned (sy_d s') = d_shellsSpawned (sy_d s) \<and>
          same_auth (sy_d s) (sy_d s')
      | ATerminal \<Rightarrow> conn.extends_by of_terminal (d_wire (sy_d s)) (d_wire (sy_d s')) \<and>
          sy_router s' = sy_router s \<and> same_auth (sy_d s) (sy_d s')
      | AControl \<Rightarrow> d_wire (sy_d s') = d_wire (sy_d s) \<and> sy_router s' = sy_router s)"

lemma same_auth_refl [simp]: "same_auth d d"
  by (simp add: same_auth_def)

lemma same_auth_upd [simp]:
  "same_auth d (d'\<lparr>d_wire := w\<rparr>) = same_auth d d'" "same_auth d (d'\<lparr>d_reg := g\<rparr>) = same_auth d d'"
  by (simp_all add: same_auth_def)

lemma ok_daemon_wire [simp]: "ok_daemon (d\<lparr>d_wire := w\<rparr>) = ok_daemon d"
  by (simp add: ok_daemon_def)

lemma wf_loops_d: "same_auth (lp_d l) d \<Longrightarrow> wf_loops l \<Longrightarrow> wf_loops (l\<lparr>lp_d := d\<rparr>)"
  by (simp add: loops_defs same_auth_def)

lemma wf_router_wire [simp]: "wf_router (t\<lparr>rt_wire := w\<rparr>) = wf_router t"
  by (simp add: wf_router_def wf_entry_def)

lemma all_entries_wire [simp]: "dev.all_entries (t\<lparr>rt_wire := w\<rparr>) = dev.all_entries t"
  by (simp add: dev.all_entries_def)

lemma set_d_sel [simp]:
  "sy_router (set_d d s) = sy_router s" "sy_d (set_d d s) = d" "sy_loops (set_d d s) = (sy_loops s)\<lparr>lp_d := d\<rparr>"
  "sy_left (set_d d s) = sy_left s"
  by (simp_all add: set_d_def)

lemma set_router_sel [simp]:
  "sy_router (set_router t s) = t" "sy_d (set_router t s) = (sy_d s)\<lparr>d_wire := rt_wire t\<rparr>"
  "sy_loops (set_router t s) = (sy_loops s)\<lparr>lp_d := (sy_d s)\<lparr>d_wire := rt_wire t\<rparr>\<rparr>"
  "sy_left (set_router t s) = sy_left s"
  by (simp_all add: set_router_def)

lemma at_router_sel [simp]:
  "rt_sessions (at_router s) = rt_sessions (sy_router s)" "rt_stuck (at_router s) = rt_stuck (sy_router s)"
  "rt_wire (at_router s) = d_wire (sy_d s)" "wf_router (at_router s) = wf_router (sy_router s)"
  "dev.all_entries (at_router s) = dev.all_entries (sy_router s)"
  by (simp_all add: at_router_def)

text \<open>The pieces: a new daemon, a router after a turn, a replaced handler, a message.\<close>

lemma sys_ok_d: "sys_ok s \<Longrightarrow> same_auth (sy_d s) d \<Longrightarrow> ok_daemon d \<Longrightarrow> sys_ok (set_d d s)"
  by (simp add: sys_ok_def wf_loops_d)

lemma sys_ok_router: "sys_ok s \<Longrightarrow> wf_router t \<Longrightarrow> dev.all_entries t \<Longrightarrow> sys_ok (set_router t s)"
  by (simp add: sys_ok_def wf_loops_d)

lemma sys_ok_handler:
  assumes ok: "sys_ok s" and x: "rt_sessions (sy_router s) sid = Some x" "ss_handlers x p = Some h0" and h: "dev_ok sid h"
  shows "sys_ok (put_handler sid p h w s)"
proof -
  let ?x = "x\<lparr>ss_handlers := (ss_handlers x)(p \<mapsto> h)\<rparr>"
  have wf: "wf_router (sy_router s)" and al: "dev.all_entries (sy_router s)" using ok by (simp_all add: sys_ok_def)
  have e: "wf_entry (sy_router s) sid x" using wf x(1) by (simp add: wf_router_def)
  have "wf_entry (sy_router s) sid ?x" using e x(2) by (auto simp: wf_entry_def wf_session_def split: if_splits)
  then have "wf_router (rt_put sid ?x ((sy_router s)\<lparr>rt_wire := w\<rparr>))"
    using wf by (intro rt_put_wf) (simp_all add: wf_entry_def)
  moreover have "dev.all_ok ?x" using al x(1) h e by (auto simp: dev.all_entries_def dev.all_ok_def wf_entry_def)
  then have "dev.all_entries (rt_put sid ?x ((sy_router s)\<lparr>rt_wire := w\<rparr>))"
    using al by (auto simp: dev.all_entries_def)
  ultimately show ?thesis using x(1) ok by (simp add: put_handler_def sys_ok_router)
qed

lemma handler_ok:
  assumes "sys_ok s" "has_handler s sid p h"
  shows "dev_ok sid h"
  using assms by (auto simp: sys_ok_def has_handler_def dev.all_entries_def dev.all_ok_def wf_router_def wf_entry_def)

lemma loop_step_d:
  assumes "loop_step E po l l'" "\<not> takes_message l l'" "ok_daemon (lp_d l)"
  shows "ok_daemon (lp_d l') \<and> d_wire (lp_d l') = d_wire (lp_d l)"
  using assms
proof (induction rule: loop_step.induct)
  case (Signal s order p new d c)
  from dbus_signal_ok [OF Signal(2,4)] show ?case by simp
qed (auto simp: takes_message_def split: if_splits)

text \<open>The goroutine of a transfer writes in its session, as its handler does.\<close>

lemma job_writes_own:
  assumes "own_job sid j" "job_writes dv j m"
  shows "in_session sid m"
proof -
  from assms(2) obtain evs ms and st :: "'a ft_state" where w: "set (chan_msgs evs) \<subseteq> set (jb_got j)" "m \<in> set ms"
    "case jb_task j of
       UploadTask params \<Rightarrow>
         ft_out (snd (FileUploadHandler (dv_codec dv) (fh_os (dv_host dv)) (jb_request j) params evs st)) = ft_out st @ ms
     | DownloadTask fd \<Rightarrow> \<exists>bufsz. ft_out (snd (DownloadHandler (dv_codec dv) bufsz fd (jb_request j) evs st)) = ft_out st @ ms"
    unfolding job_writes_def by blast
  have sid: "SessionID (Header (jb_request j)) = sid" using assms(1) by (simp add: own_job_def)
  have evs: "in_sess_evs (SessionID (Header (jb_request j))) evs"
    using assms(1) w(1) by (auto simp: own_job_def in_sess_evs_def)
  show ?thesis
  proof (cases "jb_task j")
    case (UploadTask params)
    have "ftw.extends_by (in_session (SessionID (Header (jb_request j)))) st
        (snd (FileUploadHandler (dv_codec dv) (fh_os (dv_host dv)) (jb_request j) params evs st))"
      by (rule FileUploadHandler_own [OF prod.collapse [symmetric] evs])
    with w(2,3) UploadTask sid show ?thesis by (auto simp: ftw.extends_by_def)
  next
    case (DownloadTask fd)
    with w obtain bufsz where "ft_out (snd (DownloadHandler (dv_codec dv) bufsz fd (jb_request j) evs st)) = ft_out st @ ms"
      by auto
    moreover have "ftw.extends_by (in_session (SessionID (Header (jb_request j)))) st
        (snd (DownloadHandler (dv_codec dv) bufsz fd (jb_request j) evs st))"
      by (rule DownloadHandler_own [OF prod.collapse [symmetric]])
    ultimately show ?thesis using w(2) sid by (auto simp: ftw.extends_by_def)
  qed
qed

lemma jobs_own: "sys_ok s \<Longrightarrow> has_handler s sid p (HFile g c (Some j)) \<Longrightarrow> own_job sid j"
  using handler_ok [of s sid p "HFile g c (Some j)"] by (simp add: dev_ok_def)

text \<open>A message that is routed.\<close>

lemma routed_ok:
  assumes run: "routeMessage (device_env conf dv) po wr now m (sy_d s, sy_router s) = (r, d, t)" and ok: "sys_ok s"
  shows "same_auth (sy_d s) d" "ok_daemon d" "wf_router t" "dev.all_entries t"
proof -
  show "same_auth (sy_d s) d" by (rule routeMessage_auth [OF run])
  show "ok_daemon d" using routeMessage_ok [OF run] ok by (simp add: sys_ok_def)
  have "wf_router t \<and> dev.all_entries t"
  proof (cases "of_terminal m")
    case True
    with routeMessage_terminal [OF run] ok show ?thesis by (simp add: sys_ok_def)
  next
    case False
    from run False obtain q where "RouteMessage (device_env conf dv) m (at_router s) = (q, t)"
      by (rule routeMessage_session) (simp add: at_router_def)
    with RouteMessage_wf dev.RouteMessage_all ok show ?thesis by (fastforce simp: sys_ok_def)
  qed
  then show "wf_router t" "dev.all_entries t" by simp_all
qed

lemma routed_frame:
  assumes run: "routeMessage (device_env conf dv) po wr now m (sy_d s, sy_router s) = (r, d, t)" and ok: "sys_ok s"
    and s': "sy_d s' = d" "sy_router s' = t"
  shows "sys_frame (actor_of m) s s'"
proof (cases "of_terminal m")
  case True
  with routeMessage_terminal [OF run] s' show ?thesis by (simp add: sys_frame_def actor_of_def terminal_frame_def)
next
  case False
  let ?sid = "SessionID (Header m)"
  from run False obtain q where q: "RouteMessage (device_env conf dv) m (at_router s) = (q, t)" "d = (sy_d s)\<lparr>d_wire := rt_wire t\<rparr>"
    by (rule routeMessage_session) (simp add: at_router_def)
  have "wf_router (at_router s)" using ok by (simp add: sys_ok_def)
  from dev.RouteMessage_own [OF q(1) this] have "conn.extends_by (in_session ?sid) (d_wire (sy_d s)) (rt_wire t)" by simp
  moreover have "rt_sessions t k = rt_sessions (sy_router s) k" if "k \<noteq> ?sid" for k
    using q(1) that by (cases rule: RouteMessage_cases) (auto elim!: startSession_turn_frame)
  ultimately show ?thesis using False s' q(2) by (simp add: sys_frame_def actor_of_def)
qed

lemma forwarder_Read_own:
  assumes "forwarder_Read nt r ev s = Some s'" "own_pf sid s"
  shows "conn.extends_by (in_session sid) (pf_wire s) (pf_wire s')"
proof (cases "pf_heap s r")
  case (Some f)
  have f: "fw_SessionID f = sid" using assms(2) Some by (simp add: own_pf_def)
  have stop: "conn.extends_by (in_session sid) (pf_wire s) (pf_wire (snd (forwarder_Close nt True r s)))"
    using conn.extends_by_wr [of "in_session sid" "connection_msg (fw_proto f) MessageTypePortForwardStop sid (fw_ConnectionID f) []" "pf_wire s"]
      Some f by (simp add: forwarder_Close_def connection_msg_def Let_def)
  have data: "conn.extends_by (in_session sid) (pf_wire s)
      (pf_wire (snd (pf_write (connection_msg (fw_proto f) MessageTypePortForward sid (fw_ConnectionID f) b) s1)))"
    if "pf_wire s1 = pf_wire s" for b s1
    using conn.extends_by_wr [of "in_session sid" "connection_msg (fw_proto f) MessageTypePortForward sid (fw_ConnectionID f) b" "pf_wire s"]
      that by (simp add: connection_msg_def)
  from assms(1) Some f stop data show ?thesis
    by (cases ev) (auto simp: forwarder_Read_def Let_def split: if_splits)
qed (use assms in \<open>simp add: forwarder_Read_def\<close>)

lemma put_handler_frame:
  assumes "has_handler s sid p h0" "conn.extends_by (in_session sid) (d_wire (sy_d s)) w"
  shows "sys_frame (ASession sid) s (put_handler sid p h w s)"
  using assms by (auto simp: sys_frame_def put_handler_def has_handler_def)

lemma say_ok: "sys_ok s \<Longrightarrow> sys_ok (say m s)"
  unfolding say_def by (rule sys_ok_d) (simp_all add: sys_ok_def)

lemma say_session: "in_session sid m \<Longrightarrow> sys_frame (ASession sid) s (say m s)"
  by (simp add: sys_frame_def say_def conn.extends_by_wr)

lemma say_terminal: "of_terminal m \<Longrightarrow> sys_frame ATerminal s (say m s)"
  by (simp add: sys_frame_def say_def conn.extends_by_wr)

lemma sys_step_safe: "sys_step dv conf E po F s a s' \<Longrightarrow> sys_ok s \<Longrightarrow> sys_ok s' \<and> sys_frame a s s'"
proof (induction rule: sys_step.induct)
  case (Control s l)
  then have "wf_loops l" using loop_step_wf by (auto simp: sys_ok_def)
  moreover have "ok_daemon (sy_d s)" using Control(4) by (simp add: sys_ok_def)
  note loop_step_d [OF Control(1,2) this]
  ultimately show ?case using Control(4) by (simp add: sys_ok_def sys_frame_def)
next
  case (Message s r wr now m e d t)
  note r = routed_ok [OF Message(3,4)]
  have "wf_loops ((sy_loops s)\<lparr>lp_ml := MlTop False False, lp_d := d\<rparr>)"
    using loop_step_wf [OF loop_step.ReadMessage [OF Message(1) r(1)]] Message(4) by (simp add: sys_ok_def)
  with r routed_frame [OF Message(3,4)] Message(4) show ?case by (simp add: sys_ok_def)
next
  case (Stuck s r wr now m d t)
  note r = routed_ok [OF Stuck(3,4)]
  with Stuck(4) routed_frame [OF Stuck(3,4)] show ?case by (simp add: sys_ok_def wf_loops_d)
next
  case (Timer s sid x e t)
  have wf: "wf_router (at_router s)" "dev.all_entries (at_router s)" using Timer(6) by (simp_all add: sys_ok_def)
  have en: "wf_entry (at_router s) sid x" using wf(1) Timer(1) by (simp add: wf_router_def)
  have al: "dev.all_ok x" using wf(2) Timer(1) by (simp add: dev.all_entries_def)
  have "wf_router t" using startSession_turn_wf [OF Timer(4) wf(1) en Timer(2)] Timer(3) by simp
  moreover have "dev.all_entries t" using dev.turn_all [OF Timer(4) en Timer(2) wf(2) al] by simp
  moreover have "conn.extends_by (in_session sid) (d_wire (sy_d s)) (rt_wire t)"
    using dev.router_turn_own [OF Timer(4) en Timer(2)] by simp
  moreover have "rt_sessions t q = rt_sessions (sy_router s) q" if "q \<noteq> sid" for q
    using Timer(4) that by (auto elim!: startSession_turn_frame)
  ultimately show ?case using Timer(6) by (simp add: sys_ok_router sys_frame_def)
next
  case (Ended s sid x)
  then have "wf_router (startSession_done sid (sy_router s))" by (intro startSession_done_wf) (simp_all add: sys_ok_def)
  moreover have "own_job sid j" if "j \<in> jobs_of x" for j
    using that Ended(1) jobs_own [OF Ended(3), of sid] by (auto simp: jobs_of_def has_handler_def)
  ultimately show ?case using Ended(3) by (auto simp: sys_ok_def sys_frame_def startSession_done_def dev.all_entries_def)
next
  case (Reader s sid p f q ev f')
  from handler_ok [OF Reader(3,1)] have h: "wf_pf f" "own_pf sid f" by (simp_all add: dev_ok_def)
  have "dev_ok sid (HPort f')"
    using forwarder_Read_wf [OF _ Reader(2)] own_pf_Read [OF Reader(2)] h by (simp add: dev_ok_def)
  with Reader(1,3) have "sys_ok (put_handler sid p (HPort f') (pf_wire f') s)"
    by (auto simp: has_handler_def intro: sys_ok_handler)
  moreover have "conn.extends_by (in_session sid) (d_wire (sy_d s)) (pf_wire f')"
    using forwarder_Read_own [OF Reader(2), of sid] h by simp
  from put_handler_frame [OF Reader(1) this] have "sys_frame (ASession sid) s (put_handler sid p (HPort f') (pf_wire f') s)" .
  ultimately show ?case by blast
next
  case (Transfer s sid p g c j m)
  from job_writes_own [OF jobs_own [OF Transfer(4,1)] Transfer(3)] Transfer(4) show ?case by (simp add: say_ok say_session)
next
  case (Leftover sid j s m)
  then have "own_job sid j" by (auto simp: sys_ok_def)
  from job_writes_own [OF this Leftover(2)] Leftover(3) show ?case by (simp add: say_ok say_session)
next
  case (LeftoverEnd s sid j)
  then show ?case by (auto simp: sys_ok_def sys_frame_def)
next
  case (Transferred s sid p g c j)
  have "dev_ok sid (HFile (g\<lparr>ft_busy := False\<rparr>) c None)" by (simp add: dev_ok_def)
  with Transferred(1,3) put_handler_frame [OF Transferred(1) conn.extends_by_refl] show ?case
    by (auto simp: has_handler_def intro: sys_ok_handler)
next
  case (OutputEnd s r x e)
  have "sy_d (say (shell_msg (ms_id x) MessageTypeStopShell ErrorMessage (err_msg e)) s) =
      (sy_d s)\<lparr>d_wire := sendStopMessage (ms_id x) (Some e) (d_wire (sy_d s))\<rparr>"
    by (simp add: say_def sendStopMessage_def)
  then have "set_d ((sy_d s)\<lparr>d_wire := sendStopMessage (ms_id x) (Some e) (d_wire (sy_d s))\<rparr>) s =
      say (shell_msg (ms_id x) MessageTypeStopShell ErrorMessage (err_msg e)) s"
    by (simp add: say_def sendStopMessage_def)
  moreover have "of_terminal (shell_msg (ms_id x) MessageTypeStopShell ErrorMessage (err_msg e))" by (simp add: shell_msg_def)
  ultimately show ?case using say_ok [OF OutputEnd(3)] say_terminal by metis
next
  case (HcTimeout s r x now)
  have "ok_reg (snd (healthcheck_timeout po now r (d_reg (sy_d s))))"
    using reg_step_ok [OF reg_step.timeout] HcTimeout(4) by (simp add: sys_ok_def ok_daemon_def)
  then show ?case using HcTimeout(4) by (auto simp: sys_frame_def sys_ok_def ok_daemon_def intro!: wf_loops_d)
next
  case (Signal s sig)
  then show ?case by (simp add: sys_ok_def sys_frame_def)
next
  case (Turn tn s ls d sw f)
  have ok: "ok_daemon (sy_d s)" using Turn(2) by (simp add: sys_ok_def)
  from run_turn_ok [OF Turn(1) ok] Turn(2) show ?case by (simp add: sys_ok_def sys_frame_def wf_loops_d)
qed (simp_all add: say_ok say_session say_terminal shell_msg_def healthcheck_ping_def)

lemma sys_reach_ok:
  assumes "sys_reach dv conf E po F l started s" "wf_loops l" "ok_daemon (lp_d l)"
  shows "sys_ok s"
  using assms(1)
proof (induction rule: sys_reach.induct)
  case Start
  from assms(2,3) show ?case
    by (simp add: sys_ok_def system_init_def NewRouter_def wf_router_def dev.all_entries_def)
qed (use sys_step_safe in blast)

section \<open>Properties of the system\<close>

lemma started_ok:
  assumes "handleCLIOptions os shells command ro = CliDaemon c d" "Run_start lookup api d = Inr l"
    and "sys_reach dv c E po F l started s"
  shows "sys_ok s"
proof -
  from handleCLIOptions_daemon [OF assms(1)] have d: "d = initDaemon c" by blast
  from assms(2) obtain d1 client where r: "Run_user lookup d = (None, d1)"
    "l = loops_init (Run_token (GetJWTToken api client) d1)" by (rule Run_start_Inr)
  note fr = Run_user_frame [OF r(1)]
  have un: "\<not> d_authorized d1" using fr d initDaemon_unauthorized by simp
  have "wf_loops l" unfolding r(2) by (rule wf_loops_start) (rule Run_token_known, use un in simp)
  moreover have "ok_daemon (lp_d l)"
    using initDaemon_ok [of c] fr d unfolding r(2) by (simp add: loops_init_def ok_daemon_def Run_token_frame)
  ultimately show ?thesis using sys_reach_ok [OF assms(3)] by blast
qed

text \<open>
  C3. The running device is sound. From the command line on, through every interleaving of its
  loops, sessions, handlers, shells, health checks, sweeps and signals: at most sixteen shells
  are counted, the tables of the terminal agree and no user has more sessions than the limit; a
  message loop that waits for a connection does not wait in vain; every session is filed under its ID,
  closes each handler once, and its port forwards are well-formed and its own.
\<close>

theorem system_safe:
  assumes "handleCLIOptions os shells command ro = CliDaemon c d" "Run_start lookup api d = Inr l"
    and "sys_reach dv c E po F l started s"
  shows "unat (d_shellsSpawned (sy_d s)) \<le> 16 \<and> wf_reg (d_reg (sy_d s)) \<and>
     int (card (user_sessions (d_reg (sy_d s)) u)) \<le> sr_MaxUserSessions (d_reg (sy_d s)) \<and>
     (ml_waits (sy_loops s) \<and> lp_est (sy_loops s) = None \<longrightarrow>
        lp_need (sy_loops s) \<or> lp_ev (sy_loops s) \<noteq> EvIdle \<or>
        (\<not> d_authorized (sy_d s) \<and> (d_serverJwt (sy_d s) = [] \<or> d_serverUrl (sy_d s) = []))) \<and>
     (\<forall>sid x. rt_sessions (sy_router s) sid = Some x \<longrightarrow> ss_ID x = sid \<and>
        (\<not> ss_done x \<longrightarrow> distinct (ss_defers x) \<and> set (ss_defers x) = dom (ss_handlers x)) \<and>
        (\<forall>p f. ss_handlers x p = Some (HPort f) \<longrightarrow> wf_pf f \<and> own_pf sid f))"
proof -
  note ok = started_ok [OF assms]
  then have d: "ok_daemon (sy_d s)" and l: "wf_loops (sy_loops s)" and t: "wf_router (sy_router s)" "dev.all_entries (sy_router s)"
    by (simp_all add: sys_ok_def)
  have reg: "ok_reg (d_reg (sy_d s))" using d by (simp add: ok_daemon_def)
  have "unat (d_shellsSpawned (sy_d s)) \<le> 16"
    using d by (simp add: ok_daemon_def word_le_nat_alt MaxShellsSpawned_def)
  moreover have "wf_reg (d_reg (sy_d s))" using reg by (simp add: ok_reg_def)
  moreover note user_sessions_limit [OF reg, of u]
  moreover have "ml_waits (sy_loops s) \<and> lp_est (sy_loops s) = None \<longrightarrow>
        lp_need (sy_loops s) \<or> lp_ev (sy_loops s) \<noteq> EvIdle \<or>
        (\<not> d_authorized (sy_d s) \<and> (d_serverJwt (sy_d s) = [] \<or> d_serverUrl (sy_d s) = []))"
    using l by (auto simp: wf_loops_def pending_def asked_def)
  moreover have "ss_ID x = sid \<and> (\<not> ss_done x \<longrightarrow> distinct (ss_defers x) \<and> set (ss_defers x) = dom (ss_handlers x)) \<and>
        (\<forall>p f. ss_handlers x p = Some (HPort f) \<longrightarrow> wf_pf f \<and> own_pf sid f)"
    if x: "rt_sessions (sy_router s) sid = Some x" for sid x
  proof -
    have e: "wf_entry (sy_router s) sid x" using t(1) x by (simp add: wf_router_def)
    have "dev_ok sid h" if "ss_handlers x p = Some h" for p h
      using handler_ok [OF ok] x that by (simp add: has_handler_def)
    with e show ?thesis by (fastforce simp: wf_entry_def wf_session_def dev_ok_def)
  qed
  ultimately show ?thesis by blast
qed

text \<open>
  C4. The parts of the running device do not disturb each other. Whatever a session does, be it
  a message, its timer, its end, or the goroutines of its handlers, of which those of file transfers
  may outlive it, it sends only messages with its ID and leaves the other sessions, the terminal and
  the authorization alone; what the terminal does sends only messages of the terminal and leaves the
  sessions alone, and the loops, signals and sweeps send nothing.
\<close>

theorem system_isolation:
  assumes "handleCLIOptions os shells command ro = CliDaemon c d" "Run_start lookup api d = Inr l"
    and "sys_reach dv c E po F l started s" and "sys_step dv c E po F s a s'"
  shows "\<exists>ms. wire_out (d_wire (sy_d s')) = wire_out (d_wire (sy_d s)) @ ms \<and>
     (case a of
        ASession sid \<Rightarrow> (\<forall>m \<in> set ms. SessionID (Header m) = sid) \<and>
          (\<forall>q. q \<noteq> sid \<longrightarrow> rt_sessions (sy_router s') q = rt_sessions (sy_router s) q) \<and>
          d_reg (sy_d s') = d_reg (sy_d s) \<and> d_shellsSpawned (sy_d s') = d_shellsSpawned (sy_d s) \<and>
          d_authorized (sy_d s') = d_authorized (sy_d s)
      | ATerminal \<Rightarrow> (\<forall>m \<in> set ms. Proto (Header m) = ProtoTypeShell) \<and> sy_router s' = sy_router s \<and>
          d_authorized (sy_d s') = d_authorized (sy_d s)
      | AControl \<Rightarrow> ms = [] \<and> sy_router s' = sy_router s)"
proof -
  have "sys_frame a s s'" using sys_step_safe [OF assms(4) started_ok [OF assms(1-3)]] by simp
  then show ?thesis
    by (auto simp: sys_frame_def conn.extends_by_def same_auth_def split: actor.splits)
qed

section \<open>The properties at concrete inputs\<close>

text \<open>A device whose authentication manager has a token, up to the moment at which a client of the
  session \<open>s1\<close> has asked for a file.\<close>

definition token_glib :: glib where
  "token_glib = sample_glib\<lparr>g_dbus_proxy_call_sync := (\<lambda>p m fl t. (5, None)), first_string_from_g_variant := (\<lambda>r. ''jwt''),
     second_string_from_g_variant := (\<lambda>r. ''srv'')\<rparr>"

lemma token_started:
  "\<exists>l. Run_start (Inr (Some sample_user)) (libgio_api token_glib) d = Inr l \<and> d_authorized (lp_d l) \<and> d_wire (lp_d l) = d_wire d"
proof -
  obtain l0 where "Run_start (Inr (Some sample_user)) sample_bus d = Inr l0" using sample_started by blast
  then obtain d1 where u: "Run_user (Inr (Some sample_user)) d = (None, d1)" by (rule Run_start_Inr)
  have w: "d_wire d1 = d_wire d" using u by (auto simp: Run_user_def Let_def split: sum.splits)
  from u w show ?thesis
    by (auto simp: Run_start_def auth_Connect_def libgio_api_def token_glib_def sample_glib_def BusGet_def BusProxyNew_def
        GetJWTToken_def BusProxyCall_def ErrorFromNative_def NewDBusCallResponse_def loops_init_def Run_token_def
        split: prod.splits option.splits)
qed

lemma unaided_reach:
  fixes dv :: "'f device"
  assumes "(unaided_step E po tok url)\<^sup>*\<^sup>* l l'" "ok_daemon (lp_d l)"
  shows "sys_reach dv c E po F l t0 ((system_init l t0)\<lparr>sy_loops := l'\<rparr>) \<and> d_wire (lp_d l') = d_wire (lp_d l) \<and> ok_daemon (lp_d l')"
  using assms(1)
proof (induction rule: rtranclp_induct)
  case base
  have "(system_init l t0 :: 'f system)\<lparr>sy_loops := l\<rparr> = system_init l t0" by (simp add: system_init_def)
  with sys_reach.Start [of dv c E po F l t0] assms(2) show ?case by simp
next
  case (step y z)
  let ?s = "(system_init l t0 :: 'f system)\<lparr>sy_loops := y\<rparr>"
  from step(2) have st: "loop_step E po y z" "unaided tok url y z" by (simp_all add: unaided_step_def)
  then have t: "\<not> takes_message y z" by (auto simp: takes_message_def unaided_def)
  have "sys_step dv c E po F ?s AControl (?s\<lparr>sy_loops := z\<rparr>)"
    by (rule sys_step.Control) (use st t in \<open>simp_all add: system_init_def\<close>)
  from sys_reach.Step [OF conjunct1 [OF step(3)] this] loop_step_d [OF st(1) t] step(3) show ?case by simp
qed

definition sample_job :: ft_job where
  "sample_job = \<lparr>jb_request = sample_get ProtoTypeFileTransferV2, jb_task = DownloadTask sample_src, jb_got = []\<rparr>"

lemma serve_sample_get_v2:
  "ServeProtoMsg sample_codec sample_host (sample_get ProtoTypeFileTransferV2) free_ft =
     (StartDownload ''/f'' sample_src, free_ft\<lparr>ft_busy := True\<rparr>)"
  by (simp add: ServeProtoMsg_def InitFileDownload_def download_request_def sample_get_def sample_codec_def
        validate_path_def sample_host_def free_ft_def sample_ft_def DownloadFile_def BytesSent_def
        sample_permit_def NewPermit_def)

lemma download_asked:
  assumes "\<not> FileTransferDisable c"
  shows "\<exists>t x. RouteMessage (device_env c sample_device) (sample_get ProtoTypeFileTransferV2) (NewRouter good_wire) = (RouteOk, t) \<and>
     rt_sessions t ''s1'' = Some x \<and> ss_ID x = ''s1'' \<and>
     ss_handlers x ProtoTypeFileTransferV2 = Some (HFile (free_ft\<lparr>ft_busy := True\<rparr>) False (Some sample_job))"
proof -
  have w: "free_ft\<lparr>ft_wire := good_wire\<rparr> = free_ft" "ft_wire free_ft = good_wire" by (simp_all add: free_ft_def sample_ft_def)
  have "dev_serve sample_device (sample_get ProtoTypeFileTransferV2) (HFile free_ft False None) good_wire =
      (SrvReturn, HFile (free_ft\<lparr>ft_busy := True\<rparr>) False (Some sample_job), good_wire)"
    using serve_sample_get_v2 by (simp add: dev_serve_def sample_device_def job_after_def sample_job_def proto_defs w)
  then show ?thesis using assms
    by (simp add: RouteMessage_def NewRouter_def load_or_new_def SessionNew_def startSession_turn_def session_turn_def
        session_dispatch_def session_apply_def daemon_routes_eq sample_device_def proto_defs Let_def)
qed

lemma sample_job_writes: "\<exists>m. job_writes sample_device sample_job m"
proof -
  let ?req = "sample_get ProtoTypeFileTransferV2"
  obtain err s' where run: "DownloadHandler sample_codec 4096 sample_src ?req (map Recv []) free_ft = (err, s')" by fastforce
  have "fst (DownloadHandler sample_codec 4096 sample_src ?req (map Recv []) free_ft) = None"
    by (rule download_completes) (simp_all add: free_ft_def)
  with run have "err = None" by simp
  with download_sends [OF run] obtain ms where "ft_out s' = ft_out free_ft @ ms" "ms \<noteq> []" by auto
  then obtain m where "ft_out s' = ft_out free_ft @ ms" "m \<in> set ms" by (cases ms) auto
  with run show ?thesis
    by (intro exI [of _ m])
       (auto simp: job_writes_def sample_job_def sample_device_def intro!: exI [of _ "[]"] exI [of _ ms] exI [of _ free_ft] exI [of _ 4096])
qed

lemma root_cli_transfers:
  "\<exists>c d. handleCLIOptions shell_os (Inr [''/bin/sh'']) ''daemon'' root_options = CliDaemon c d \<and> \<not> FileTransferDisable c"
  by (simp add: handleCLIOptions_def LoadConfig_def loadConfigFile_def root_options_def root_file_def missing_file_def
      Validate_def applyDefaults_def NewMenderShellConfig_def DefaultShellCommand_def filepath_IsAbs_def validateUser_def
      isExecutable_def isInShells_def shell_os_def checkforDeprecatedFields_def Let_def)

text \<open>The device at work: connected, authorized, and sending a file to the session \<open>s1\<close>.\<close>

lemma busy_device:
  obtains c d l and s :: "nat system" where
    "handleCLIOptions shell_os (Inr [''/bin/sh'']) ''daemon'' root_options = CliDaemon c d"
    "Run_start (Inr (Some sample_user)) (libgio_api token_glib) d = Inr l"
    "sys_reach sample_device c sample_cm_env sample_po sample_formats l 0 s"
    "has_handler s ''s1'' ProtoTypeFileTransferV2 (HFile (free_ft\<lparr>ft_busy := True\<rparr>) False (Some sample_job))"
proof -
  obtain c d where cli: "handleCLIOptions shell_os (Inr [''/bin/sh'']) ''daemon'' root_options = CliDaemon c d"
    "\<not> FileTransferDisable c" using root_cli_transfers by blast
  obtain l where l: "Run_start (Inr (Some sample_user)) (libgio_api token_glib) d = Inr l" "d_authorized (lp_d l)"
    "d_wire (lp_d l) = d_wire d" using token_started by blast
  from handleCLIOptions_daemon [OF cli(1)] have "d = initDaemon c" by blast
  then have d: "d_wire d = good_wire" by (simp add: initDaemon_def NewDaemon_def)
  have "sys_reach sample_device c sample_cm_env sample_po sample_formats l 0 (system_init l 0)" by (rule sys_reach.Start)
  from started_ok [OF cli(1) l(1) this] have ok: "wf_loops l" "ok_daemon (lp_d l)" by (simp_all add: sys_ok_def system_init_def)
  have "accepts_at sample_cm_env ''jwt'' ''srv''" by (simp add: accepts_at_def sample_cm_env_def)
  from reads_reachable [where po = sample_po, OF ok(1) this l(2)] obtain k r where k: "(unaided_step sample_cm_env sample_po ''jwt'' ''srv'')\<^sup>*\<^sup>* l k"
    "lp_ml k = MlRead r" by (auto simp: reads_open_def)
  let ?s = "(system_init l 0 :: nat system)\<lparr>sy_loops := k\<rparr>"
  note reach = unaided_reach [OF k(1) ok(2), of sample_device c sample_formats 0]
  have w: "d_wire (lp_d k) = good_wire" using reach l(3) d by simp
  obtain t x where t: "RouteMessage (device_env c sample_device) (sample_get ProtoTypeFileTransferV2) (NewRouter good_wire) = (RouteOk, t)"
    "rt_sessions t ''s1'' = Some x" "ss_handlers x ProtoTypeFileTransferV2 = Some (HFile (free_ft\<lparr>ft_busy := True\<rparr>) False (Some sample_job))"
    using download_asked [OF cli(2)] by blast
  have m: "\<not> of_terminal (sample_get ProtoTypeFileTransferV2)" using protos_distinct by (auto simp: proto_defs)
  have "(NewRouter good_wire :: nat dev_handler router)\<lparr>rt_wire := good_wire\<rparr> = NewRouter good_wire" by (simp add: NewRouter_def)
  with t(1) m w have "routeMessage (device_env c sample_device) sample_po (\<lambda>_ _. (0, None)) 0 (sample_get ProtoTypeFileTransferV2)
      (lp_d k, NewRouter good_wire) = (RouteDone None, (lp_d k)\<lparr>d_wire := rt_wire t\<rparr>, t)"
    by (simp add: routeMessage_def)
  moreover have "sy_router ?s = NewRouter good_wire" "\<not> sy_hung ?s" using l(3) d by (simp_all add: system_init_def)
  ultimately have "sys_step sample_device c sample_cm_env sample_po sample_formats ?s (actor_of (sample_get ProtoTypeFileTransferV2))
      (?s\<lparr>sy_loops := (sy_loops ?s)\<lparr>lp_ml := MlTop False False, lp_d := (lp_d k)\<lparr>d_wire := rt_wire t\<rparr>\<rparr>, sy_router := t\<rparr>)"
    using k(2) by (intro sys_step.Message) simp_all
  from sys_reach.Step [OF conjunct1 [OF reach] this] t(2,3) show thesis
    by (intro that [OF cli(1) l(1)]) (auto simp: has_handler_def)
qed

theorem system_safe_witness:
  "\<exists>c d l (s :: nat system) x. handleCLIOptions shell_os (Inr [''/bin/sh'']) ''daemon'' root_options = CliDaemon c d \<and>
     Run_start (Inr (Some sample_user)) (libgio_api token_glib) d = Inr l \<and>
     sys_reach sample_device c sample_cm_env sample_po sample_formats l 0 s \<and>
     rt_sessions (sy_router s) ''s1'' = Some x \<and> ss_ID x = ''s1'' \<and> unat (d_shellsSpawned (sy_d s)) \<le> 16"
proof -
  obtain c d l and s :: "nat system" where b:
    "handleCLIOptions shell_os (Inr [''/bin/sh'']) ''daemon'' root_options = CliDaemon c d"
    "Run_start (Inr (Some sample_user)) (libgio_api token_glib) d = Inr l"
    "sys_reach sample_device c sample_cm_env sample_po sample_formats l 0 s"
    "has_handler s ''s1'' ProtoTypeFileTransferV2 (HFile (free_ft\<lparr>ft_busy := True\<rparr>) False (Some sample_job))"
    by (rule busy_device)
  then obtain x where "rt_sessions (sy_router s) ''s1'' = Some x" by (auto simp: has_handler_def)
  with system_safe [OF b(1-3), of "''u1''"] b show ?thesis by blast
qed

theorem system_isolation_witness:
  "\<exists>c d l (s :: nat system) s' m. handleCLIOptions shell_os (Inr [''/bin/sh'']) ''daemon'' root_options = CliDaemon c d \<and>
     Run_start (Inr (Some sample_user)) (libgio_api token_glib) d = Inr l \<and>
     sys_reach sample_device c sample_cm_env sample_po sample_formats l 0 s \<and>
     sys_step sample_device c sample_cm_env sample_po sample_formats s (ASession ''s1'') s' \<and>
     job_writes sample_device sample_job m \<and> s' = say m s \<and>
     (\<exists>ms. wire_out (d_wire (sy_d s')) = wire_out (d_wire (sy_d s)) @ ms \<and> (\<forall>m \<in> set ms. SessionID (Header m) = ''s1''))"
proof -
  obtain c d l and s :: "nat system" where b:
    "handleCLIOptions shell_os (Inr [''/bin/sh'']) ''daemon'' root_options = CliDaemon c d"
    "Run_start (Inr (Some sample_user)) (libgio_api token_glib) d = Inr l"
    "sys_reach sample_device c sample_cm_env sample_po sample_formats l 0 s"
    "has_handler s ''s1'' ProtoTypeFileTransferV2 (HFile (free_ft\<lparr>ft_busy := True\<rparr>) False (Some sample_job))"
    by (rule busy_device)
  obtain m where m: "job_writes sample_device sample_job m" using sample_job_writes by blast
  have st: "sys_step sample_device c sample_cm_env sample_po sample_formats s (ASession ''s1'') (say m s)"
    by (rule sys_step.Transfer [OF b(4) _ m]) simp
  from system_isolation [OF b(1-3) st] obtain ms where "wire_out (d_wire (sy_d (say m s))) = wire_out (d_wire (sy_d s)) @ ms"
    "\<forall>m \<in> set ms. SessionID (Header m) = ''s1''" by auto
  with b m st show ?thesis by blast
qed

end
