(* ===== verification/Program.thy ===== *)
theory Program
  imports Run
begin

text \<open>
  The program from its arguments to its exit status (\<open>main.go\<close>, \<open>cli/cli.go\<close>): the commands and
  flags, the configuration files they name, and what becomes of the daemon. The command-line
  library and the JSON decoder are parameters.
\<close>

section \<open>Configuration files (config/config.go, config/paths.go)\<close>

definition GetConfDirPath :: string where "GetConfDirPath = ''/etc/mender''"
definition GetStateDirPath :: string where "GetStateDirPath = ''/var/lib/mender''"

definition DefaultConfFile :: string where
  "DefaultConfFile = path_Join GetConfDirPath ''mender-connect.conf''"

definition DefaultFallbackConfFile :: string where
  "DefaultFallbackConfFile = path_Join GetStateDirPath ''mender-connect.conf''"

text \<open>\<open>json.Unmarshal\<close> leaves what it has decoded in its target and gives an error or none.\<close>

datatype json_error = SyntaxError string | OtherJsonError string

definition readConfigFile ::
  "(bytes \<Rightarrow> 'c \<Rightarrow> 'c \<times> json_error option) \<Rightarrow> (gerror + bytes) \<Rightarrow> 'c \<Rightarrow> 'c \<times> gerror option" where
  "readConfigFile Unmarshal file config =
     (case file of
        Inl e \<Rightarrow> (config, Some e)
      | Inr conf \<Rightarrow> (case Unmarshal conf config of
          (config, Some (SyntaxError e)) \<Rightarrow> (config, Some (ErrText (''Error parsing mender configuration file: '' @ e)))
        | (config, Some (OtherJsonError e)) \<Rightarrow> (config, Some (ErrText (''Error parsing config file: '' @ e)))
        | (config, None) \<Rightarrow> (config, None)))"

text \<open>The decoder for the configuration and for the deprecated fields, and the files of the host.\<close>

record decoder =
  js_config :: "bytes \<Rightarrow> MenderShellConfig \<Rightarrow> MenderShellConfig \<times> json_error option"
  js_deprecated :: "bytes \<Rightarrow> json_error option"
  js_Stat :: "string \<Rightarrow> gerror option"
  js_ReadFile :: "string \<Rightarrow> gerror + bytes"

text \<open>A configuration file, read once for the configuration and once for the deprecated fields.\<close>

definition config_file_at :: "decoder \<Rightarrow> string \<Rightarrow> config_file" where
  "config_file_at js name =
     \<lparr>cf_stat = js_Stat js name,
      cf_read = readConfigFile (js_config js) (js_ReadFile js name),
      cf_deprecated = snd (readConfigFile (\<lambda>b x. (x, js_deprecated js b)) (js_ReadFile js name) ())\<rparr>"

section \<open>The command line (cli/cli.go)\<close>

datatype flag_value = StringFlag string | BoolFlag bool

record cli_flag =
  fl_Name :: string
  fl_Aliases :: "string list"
  fl_Value :: flag_value

definition app_flags :: "cli_flag list" where
  "app_flags =
     [\<lparr>fl_Name = ''config'', fl_Aliases = [''c''], fl_Value = StringFlag DefaultConfFile\<rparr>,
      \<lparr>fl_Name = ''fallback-config'', fl_Aliases = [''b''], fl_Value = StringFlag DefaultFallbackConfFile\<rparr>,
      \<lparr>fl_Name = ''debug'', fl_Aliases = [''d''], fl_Value = BoolFlag False\<rparr>,
      \<lparr>fl_Name = ''trace'', fl_Aliases = [''dd''], fl_Value = BoolFlag False\<rparr>]"

datatype cli_action = HandleCLIOptions | ShowVersionCLI

definition app_commands :: "(string \<times> cli_action) list" where
  "app_commands = [(''daemon'', HandleCLIOptions), (''version'', ShowVersionCLI)]"

text \<open>
  What the library finds in the arguments, given the commands and flags: an error, or the
  command that was named with its action, if one was, and the values given for flags. The
  destination of a flag gets the value that was given, or the flag's own.
\<close>

type_synonym invocation = "(string \<times> cli_action) option \<times> (string \<rightharpoonup> flag_value)"
type_synonym cli_library = "(string \<times> cli_action) list \<Rightarrow> cli_flag list \<Rightarrow> string list \<Rightarrow> gerror + invocation"

definition destination :: "(string \<rightharpoonup> flag_value) \<Rightarrow> string \<Rightarrow> flag_value option" where
  "destination given name =
     (case given name of Some v \<Rightarrow> Some v | None \<Rightarrow> map_option fl_Value (find (\<lambda>f. fl_Name f = name) app_flags))"

definition string_dest :: "(string \<rightharpoonup> flag_value) \<Rightarrow> string \<Rightarrow> string" where
  "string_dest given name = (case destination given name of Some (StringFlag s) \<Rightarrow> s | _ \<Rightarrow> [])"

definition bool_dest :: "(string \<rightharpoonup> flag_value) \<Rightarrow> string \<Rightarrow> bool" where
  "bool_dest given name = (case destination given name of Some (BoolFlag b) \<Rightarrow> b | _ \<Rightarrow> False)"

definition runOptions :: "decoder \<Rightarrow> (string \<rightharpoonup> flag_value) \<Rightarrow> run_options" where
  "runOptions js given =
     \<lparr>ro_config = config_file_at js (string_dest given ''config''),
      ro_fallbackConfig = config_file_at js (string_dest given ''fallback-config''),
      ro_debug = bool_dest given ''debug'', ro_trace = bool_dest given ''trace''\<rparr>"

text \<open>How the library's \<open>Run\<close> goes on: an error of the arguments, its own help, the version that
  is printed, or the daemon's action.\<close>

datatype app_end = AppError gerror | AppHelp | AppVersion string | AppAction cli_end

record host =
  hs_cli :: cli_library
  hs_files :: decoder
  hs_os :: os_env
  hs_shells :: "gerror + string list"
  hs_Version :: string
  hs_runtime :: string

definition SetupCLI :: "host \<Rightarrow> string list \<Rightarrow> app_end" where
  "SetupCLI h args =
     (case hs_cli h app_commands app_flags args of
        Inl e \<Rightarrow> AppError e
      | Inr (None, given) \<Rightarrow> AppHelp
      | Inr (Some (name, HandleCLIOptions), given) \<Rightarrow>
          AppAction (handleCLIOptions (hs_os h) (hs_shells h) name (runOptions (hs_files h) given))
      | Inr (Some (name, ShowVersionCLI), given) \<Rightarrow> AppVersion (ShowVersion (hs_Version h) (hs_runtime h)))"

section \<open>The exit status (main.go)\<close>

text \<open>\<open>log.Fatal\<close> and the help of the program's own action exit with 1, a panic with 2; \<open>None\<close> is a
  program that still runs.\<close>

definition run_status :: "run_end option \<Rightarrow> int option" where
  "run_status e =
     (case e of
        None \<Rightarrow> None
      | Some (RunReturned None) \<Rightarrow> Some 0
      | Some (RunReturned (Some _)) \<Rightarrow> Some 1
      | Some RunPanic \<Rightarrow> Some 2)"

definition doMain ::
  "host \<Rightarrow> 'f formats \<Rightarrow> proc_os \<Rightarrow> (gerror + os_user option) \<Rightarrow> glib \<Rightarrow> int \<Rightarrow> 'f turn list \<Rightarrow> string list \<Rightarrow> int option" where
  "doMain h F po lookup G started tns args =
     (case SetupCLI h args of
        AppError e \<Rightarrow> Some 1
      | AppHelp \<Rightarrow> Some 0
      | AppVersion v \<Rightarrow> Some 0
      | AppAction (CliError e) \<Rightarrow> Some 1
      | AppAction (CliFatal e) \<Rightarrow> Some 1
      | AppAction CliHelp \<Rightarrow> Some 1
      | AppAction (CliDaemon c d) \<Rightarrow>
          run_status (fst (Run F po lookup (libgio_api G) started tns d \<lparr>rf_stop = False, rf_printStatus = False\<rparr>)))"

section \<open>Properties of the program\<close>

text \<open>Without options the two default files are loaded.\<close>

lemma default_options:
  "runOptions js Map.empty =
     \<lparr>ro_config = config_file_at js ''/etc/mender/mender-connect.conf'',
      ro_fallbackConfig = config_file_at js ''/var/lib/mender/mender-connect.conf'', ro_debug = False, ro_trace = False\<rparr>"
proof -
  have "DefaultConfFile = ''/etc/mender/mender-connect.conf''"
    "DefaultFallbackConfFile = ''/var/lib/mender/mender-connect.conf''" by code_simp+
  then show ?thesis
    by (simp add: runOptions_def string_dest_def bool_dest_def destination_def app_flags_def)
qed

text \<open>What the daemon does once it has started, as \<open>doMain\<close> begins it.\<close>

abbreviation (input) daemon_ends ::
  "'f formats \<Rightarrow> proc_os \<Rightarrow> int \<Rightarrow> 'f turn list \<Rightarrow> loops \<Rightarrow> run_end option" where
  "daemon_ends F po started tns l \<equiv>
     fst (main_loop F po tns (lp_d l, started, \<lparr>rf_stop = False, rf_printStatus = False\<rparr>))"

lemma started_status:
  assumes "SetupCLI h args = AppAction (CliDaemon c d)" "Run_start lookup (libgio_api G) d = Inr l"
  shows "doMain h F po lookup G started tns args = run_status (daemon_ends F po started tns l)"
  using assms by (simp add: doMain_def Run_def)

lemma failed_start_status:
  assumes "SetupCLI h args = AppAction (CliDaemon c d)" "Run_start lookup (libgio_api G) d = Inl x"
  shows "doMain h F po lookup G started tns args = Some 1"
  using assms by (cases x) (simp add: doMain_def Run_def run_status_def)

lemma daemon_ends_cases:
  "daemon_ends F po started tns l =
     (if daemon_ends F po started tns l = Some RunPanic then Some RunPanic
      else if \<exists>tn \<in> set tns. SIGTERM \<in> set (tn_signals tn) then Some (RunReturned None) else None)"
proof -
  let ?s = "(lp_d l, started, \<lparr>rf_stop = False, rf_printStatus = False\<rparr>)"
  obtain e rs d' sw' f' where run: "main_loop F po tns ?s = (e, rs, d', sw', f')" by (metis prod_cases5)
  have "dropWhile (\<lambda>tn. \<not> told_to_stop tn) tns = [] \<longleftrightarrow> (\<forall>tn \<in> set tns. SIGTERM \<notin> set (tn_signals tn))"
    by (simp add: dropWhile_eq_Nil_conv told_to_stop_def)
  with main_loop_runs [OF run] show ?thesis unfolding run
    by (cases "dropWhile (\<lambda>tn. \<not> told_to_stop tn) tns") (auto simp: Let_def split: prod.splits)
qed

lemma SetupCLI_complete:
  assumes "SetupCLI h args = AppAction (CliDaemon c d)"
  shows "complete_config c"
proof -
  from assms obtain command ro where "handleCLIOptions (hs_os h) (hs_shells h) command ro = CliDaemon c d"
    by (auto simp: SetupCLI_def split: sum.splits option.splits cli_action.splits prod.splits)
  from handleCLIOptions_daemon [OF this] show ?thesis using applyDefaults_complete by (metis Validate_ok_iff)
qed


end
