(* ===== verification/Shutdown.thy ===== *)
theory Shutdown
  imports DaemonLoops Cli
begin

text \<open>
  The end of the daemon's three goroutines. Each looks at the stop flag at the head of its loop
  only (\<open>if d.shouldStop() { break }\<close> in \<open>messageLoop\<close>, \<open>dbusEventLoop\<close> and \<open>eventLoop\<close>); in between
  it goes on as in \<open>DaemonLoops\<close>. Without the flag nothing is different. Once it is set the
  goroutines have a bounded number of steps left, but not all of them need to return: one that
  talks to another that is gone waits for ever, a message loop that reads from a healthy connection
  or routes what it has read stays there as long as that takes, and they go with the process.
\<close>

section \<open>Goroutines with the stop flag\<close>

text \<open>Where a goroutine is in its loop: before the check, in an iteration, or returned. \<open>gl_ml\<close>,
  \<open>gl_db\<close> and \<open>gl_ev\<close> are the message loop, the D-Bus loop and the event loop.\<close>

datatype goroutine = AtCheck | InTurn | Returned

record goroutines =
  gl_loops :: loops
  gl_flags :: run_flags
  gl_ml :: goroutine
  gl_db :: goroutine
  gl_ev :: goroutine

definition goroutines_init :: "daemon \<Rightarrow> run_flags \<Rightarrow> goroutines" where
  "goroutines_init d f = \<lparr>gl_loops = loops_init d, gl_flags = f, gl_ml = AtCheck, gl_db = AtCheck, gl_ev = AtCheck\<rparr>"

definition check_stop :: "run_flags \<Rightarrow> goroutine" where
  "check_stop f = (if shouldStop f then Returned else InTurn)"

text \<open>
  The end of an iteration: the message loop has read, well or not, or got the answer that the
  reconnection failed (\<open>continue\<close>); the D-Bus loop has come to its end without an event to post or
  has posted it; the event loop has sent its reply.
\<close>

definition ml_turn_over :: "ml_pc \<Rightarrow> ml_pc \<Rightarrow> bool" where
  "ml_turn_over p q \<longleftrightarrow> (\<exists>r. p = MlRead r) \<or> q = MlTop True True"

definition next_head :: "bool \<Rightarrow> bool \<Rightarrow> goroutine \<Rightarrow> goroutine" where
  "next_head moved over g = (if moved \<and> over then AtCheck else g)"

definition after_step :: "goroutines \<Rightarrow> loops \<Rightarrow> goroutines" where
  "after_step s l =
     (let k = gl_loops s
      in s\<lparr>gl_loops := l,
           gl_ml := next_head (lp_ml l \<noteq> lp_ml k) (ml_turn_over (lp_ml k) (lp_ml l)) (gl_ml s),
           gl_db := next_head (lp_db l \<noteq> lp_db k) (lp_db l = DbTop) (gl_db s),
           gl_ev := next_head (lp_ev l \<noteq> lp_ev k) (lp_ev l = EvIdle) (gl_ev s)\<rparr>)"

text \<open>A step of the loops is taken by the goroutines whose place it changes, which have to be
  in an iteration.\<close>

definition may_take :: "goroutines \<Rightarrow> loops \<Rightarrow> bool" where
  "may_take s l \<longleftrightarrow>
     (lp_ml l \<noteq> lp_ml (gl_loops s) \<longrightarrow> gl_ml s = InTurn) \<and>
     (lp_db l \<noteq> lp_db (gl_loops s) \<longrightarrow> gl_db s = InTurn) \<and>
     (lp_ev l \<noteq> lp_ev (gl_loops s) \<longrightarrow> gl_ev s = InTurn)"

inductive goroutine_step :: "cm_env \<Rightarrow> proc_os \<Rightarrow> goroutines \<Rightarrow> goroutines \<Rightarrow> bool" for E po where
  CheckMl: "gl_ml s = AtCheck \<Longrightarrow> goroutine_step E po s (s\<lparr>gl_ml := check_stop (gl_flags s)\<rparr>)"
| CheckDb: "gl_db s = AtCheck \<Longrightarrow> goroutine_step E po s (s\<lparr>gl_db := check_stop (gl_flags s)\<rparr>)"
| CheckEv: "gl_ev s = AtCheck \<Longrightarrow> goroutine_step E po s (s\<lparr>gl_ev := check_stop (gl_flags s)\<rparr>)"
| Take: "loop_step E po (gl_loops s) l \<Longrightarrow> may_take s l \<Longrightarrow> goroutine_step E po s (after_step s l)"

text \<open>The signals come in between.\<close>

inductive goroutines_reach :: "cm_env \<Rightarrow> proc_os \<Rightarrow> daemon \<Rightarrow> goroutines \<Rightarrow> bool" for E po d where
  Start: "\<not> shouldStop f \<Longrightarrow> goroutines_reach E po d (goroutines_init d f)"
| Step: "goroutines_reach E po d s \<Longrightarrow> goroutine_step E po s s' \<Longrightarrow> goroutines_reach E po d s'"
| OnSignal: "goroutines_reach E po d s \<Longrightarrow> goroutines_reach E po d (s\<lparr>gl_flags := on_signal sig (gl_flags s)\<rparr>)"

section \<open>Every step moves someone\<close>

lemma loop_step_moves:
  "loop_step E po k l \<Longrightarrow> lp_ml l \<noteq> lp_ml k \<or> lp_db l \<noteq> lp_db k \<or> lp_ev l \<noteq> lp_ev k"
  by (induction rule: loop_step.induct) (auto split: if_splits sum.splits)

text \<open>How far each goroutine is from the head of its loop.\<close>

fun ml_left :: "ml_pc \<Rightarrow> nat" where
  "ml_left (MlTop True w) = 5"
| "ml_left (MlTop False True) = 4"
| "ml_left (MlTop False False) = 3"
| "ml_left (MlRead r) = 2"

fun db_left :: "db_pc \<Rightarrow> nat" where
  "db_left DbTop = 6"
| "db_left DbWait = 5"
| "db_left (DbDrain p) = 4"
| "db_left DbCheck = 3"
| "db_left (DbPost t) = 2"

fun ev_left :: "ev_pc \<Rightarrow> nat" where
  "ev_left EvIdle = 5"
| "ev_left (EvConnect t) = 4"
| "ev_left (EvWait u t) = 3"
| "ev_left (EvReply e) = 2"

definition left :: "goroutine \<Rightarrow> nat \<Rightarrow> nat" where
  "left g n = (case g of Returned \<Rightarrow> 0 | AtCheck \<Rightarrow> 1 | InTurn \<Rightarrow> n)"

definition steps_left :: "goroutines \<Rightarrow> nat" where
  "steps_left s = left (gl_ml s) (ml_left (lp_ml (gl_loops s))) + left (gl_db s) (db_left (lp_db (gl_loops s)))
     + left (gl_ev s) (ev_left (lp_ev (gl_loops s)))"

lemma ml_left_bounds: "2 \<le> ml_left p" "ml_left p \<le> 5"
  by (cases p rule: ml_left.cases; simp)+

lemma db_left_bounds: "2 \<le> db_left p" "db_left p \<le> 6"
  by (cases p; simp)+

lemma ev_left_bounds: "2 \<le> ev_left p" "ev_left p \<le> 5"
  by (cases p; simp)+

lemma steps_left_bound: "steps_left s \<le> 16"
proof -
  have "left g n \<le> m" if "n \<le> m" "1 \<le> m" for g n m using that by (cases g) (simp_all add: left_def)
  from this [of "ml_left (lp_ml (gl_loops s))" 5 "gl_ml s"] this [of "db_left (lp_db (gl_loops s))" 6 "gl_db s"]
    this [of "ev_left (lp_ev (gl_loops s))" 5 "gl_ev s"] show ?thesis
    by (simp add: steps_left_def ml_left_bounds db_left_bounds ev_left_bounds)
qed

text \<open>A goroutine that moves comes closer, or to the check.\<close>

lemma ml_left_asked: "ml_left (MlTop False w) < ml_left (MlTop True w')"
  by (cases w) simp_all

lemma loop_step_ml: "loop_step E po k l \<Longrightarrow> lp_ml l \<noteq> lp_ml k \<Longrightarrow>
    ml_turn_over (lp_ml k) (lp_ml l) \<or> ml_left (lp_ml l) < ml_left (lp_ml k)"
  by (induction rule: loop_step.induct) (auto simp: ml_turn_over_def ml_left_asked simp del: ml_left.simps(1) split: if_splits)

lemma loop_step_db: "loop_step E po k l \<Longrightarrow> lp_db l \<noteq> lp_db k \<Longrightarrow>
    lp_db l = DbTop \<or> db_left (lp_db l) < db_left (lp_db k)"
  by (induction rule: loop_step.induct) (auto split: if_splits)

lemma loop_step_ev: "loop_step E po k l \<Longrightarrow> lp_ev l \<noteq> lp_ev k \<Longrightarrow>
    lp_ev l = EvIdle \<or> ev_left (lp_ev l) < ev_left (lp_ev k)"
  by (induction rule: loop_step.induct) (auto split: if_splits sum.splits)

lemma left_next:
  assumes "moved \<Longrightarrow> g = InTurn" "moved \<Longrightarrow> over \<or> n < m" "\<not> moved \<Longrightarrow> n = m" "2 \<le> m"
  shows "left (next_head moved over g) n \<le> left g m \<and> (moved \<longrightarrow> left (next_head moved over g) n < left g m)"
  using assms by (cases moved; cases over) (auto simp: next_head_def left_def split: goroutine.split)

lemma take_decreases:
  assumes "loop_step E po (gl_loops s) l" "may_take s l"
  shows "steps_left (after_step s l) < steps_left s"
proof -
  let ?k = "gl_loops s"
  note ml = left_next [of "lp_ml l \<noteq> lp_ml ?k" "gl_ml s" "ml_turn_over (lp_ml ?k) (lp_ml l)" "ml_left (lp_ml l)" "ml_left (lp_ml ?k)"]
  note db = left_next [of "lp_db l \<noteq> lp_db ?k" "gl_db s" "lp_db l = DbTop" "db_left (lp_db l)" "db_left (lp_db ?k)"]
  note ev = left_next [of "lp_ev l \<noteq> lp_ev ?k" "gl_ev s" "lp_ev l = EvIdle" "ev_left (lp_ev l)" "ev_left (lp_ev ?k)"]
  from assms(2) have t: "lp_ml l \<noteq> lp_ml ?k \<Longrightarrow> gl_ml s = InTurn" "lp_db l \<noteq> lp_db ?k \<Longrightarrow> gl_db s = InTurn"
    "lp_ev l \<noteq> lp_ev ?k \<Longrightarrow> gl_ev s = InTurn" by (simp_all add: may_take_def)
  note ml' = ml [OF t(1) loop_step_ml [OF assms(1)]] and db' = db [OF t(2) loop_step_db [OF assms(1)]]
    and ev' = ev [OF t(3) loop_step_ev [OF assms(1)]]
  from loop_step_moves [OF assms(1)] ml' db' ev' show ?thesis
    unfolding steps_left_def after_step_def Let_def
    by (fastforce simp: ml_left_bounds db_left_bounds ev_left_bounds)
qed

lemma step_decreases:
  "goroutine_step E po s s' \<Longrightarrow> shouldStop (gl_flags s) \<Longrightarrow> steps_left s' < steps_left s \<and> shouldStop (gl_flags s')"
  by (induction rule: goroutine_step.induct)
     (simp_all add: take_decreases, simp_all add: check_stop_def steps_left_def left_def after_step_def Let_def)

lemma steps_decrease:
  "(goroutine_step E po ^^ n) s s' \<Longrightarrow> shouldStop (gl_flags s) \<Longrightarrow>
     n + steps_left s' \<le> steps_left s \<and> shouldStop (gl_flags s')"
proof (induction n arbitrary: s')
  case (Suc n)
  then obtain t where t: "(goroutine_step E po ^^ n) s t" "goroutine_step E po t s'" by auto
  with Suc.IH [OF t(1) Suc.prems(2)] step_decreases [OF t(2)] show ?case by simp
qed simp

section \<open>A goroutine that is not in an iteration is at the head of its loop\<close>

definition at_heads :: "goroutines \<Rightarrow> bool" where
  "at_heads s \<longleftrightarrow>
     (gl_ml s \<noteq> InTurn \<longrightarrow> (\<exists>a b. lp_ml (gl_loops s) = MlTop a b)) \<and>
     (gl_db s \<noteq> InTurn \<longrightarrow> lp_db (gl_loops s) = DbTop) \<and>
     (gl_ev s \<noteq> InTurn \<longrightarrow> lp_ev (gl_loops s) = EvIdle)"

lemma read_ends: "loop_step E po k l \<Longrightarrow> lp_ml k = MlRead r \<Longrightarrow> lp_ml l \<noteq> lp_ml k \<Longrightarrow> \<exists>a b. lp_ml l = MlTop a b"
  by (induction rule: loop_step.induct) (auto split: if_splits)

lemma heads_step: "goroutine_step E po s s' \<Longrightarrow> at_heads s \<Longrightarrow> at_heads s'"
proof (induction rule: goroutine_step.induct)
  case (Take s l)
  let ?k = "gl_loops s"
  have "\<exists>a b. lp_ml l = MlTop a b" if "next_head (lp_ml l \<noteq> lp_ml ?k) (ml_turn_over (lp_ml ?k) (lp_ml l)) (gl_ml s) \<noteq> InTurn"
    using that Take(2,3) read_ends [OF Take(1)]
    by (cases "lp_ml l = lp_ml ?k") (fastforce simp: next_head_def may_take_def at_heads_def ml_turn_over_def split: if_splits)+
  moreover have "lp_db l = DbTop" if "next_head (lp_db l \<noteq> lp_db ?k) (lp_db l = DbTop) (gl_db s) \<noteq> InTurn"
    using that Take(2,3)
    by (cases "lp_db l = lp_db ?k") (simp_all add: next_head_def may_take_def at_heads_def split: if_splits)
  moreover have "lp_ev l = EvIdle" if "next_head (lp_ev l \<noteq> lp_ev ?k) (lp_ev l = EvIdle) (gl_ev s) \<noteq> InTurn"
    using that Take(2,3)
    by (cases "lp_ev l = lp_ev ?k") (simp_all add: next_head_def may_take_def at_heads_def split: if_splits)
  ultimately show ?case by (simp add: at_heads_def after_step_def Let_def)
qed (auto simp: at_heads_def check_stop_def)

lemma heads_reach: "goroutines_reach E po d s \<Longrightarrow> at_heads s"
  by (induction rule: goroutines_reach.induct)
     (auto simp: heads_step, auto simp: at_heads_def goroutines_init_def loops_init_def)

section \<open>Who can go on\<close>

text \<open>
  A step that needs nothing of the server: any but the end of a read. The message loop is at
  \<open>MlRead\<close> while it reads and while it routes what it has read; the pongs of the server renew the
  deadline of the read, and a handler may block, so neither has to end.
\<close>

definition own_step :: "cm_env \<Rightarrow> proc_os \<Rightarrow> goroutines \<Rightarrow> goroutines \<Rightarrow> bool" where
  "own_step E po s s' \<longleftrightarrow> goroutine_step E po s s' \<and>
     (\<forall>r. lp_ml (gl_loops s) = MlRead r \<longrightarrow> lp_ml (gl_loops s') = MlRead r)"

text \<open>In an iteration a goroutine is held up only by the channels and by a read: waiting for a signal
  ends by itself, by a time-out at least.\<close>

lemma own_checks:
  "gl_ml s = AtCheck \<Longrightarrow> own_step E po s (s\<lparr>gl_ml := check_stop (gl_flags s)\<rparr>)"
  "gl_db s = AtCheck \<Longrightarrow> own_step E po s (s\<lparr>gl_db := check_stop (gl_flags s)\<rparr>)"
  "gl_ev s = AtCheck \<Longrightarrow> own_step E po s (s\<lparr>gl_ev := check_stop (gl_flags s)\<rparr>)"
  by (simp_all add: own_step_def goroutine_step.intros(1-3))

lemma takes:
  assumes "loop_step E po (gl_loops s) l" "may_take s l"
    and "lp_ml l = lp_ml (gl_loops s) \<or> (\<forall>r. lp_ml (gl_loops s) \<noteq> MlRead r)"
  shows "\<exists>s'. own_step E po s s'"
  using goroutine_step.Take [OF assms(1,2)] assms(3)
  by (intro exI [of _ "after_step s l"]) (auto simp: own_step_def after_step_def Let_def)

lemma db_goes_on:
  assumes "gl_db s = InTurn" "\<And>t. lp_db (gl_loops s) \<noteq> DbPost t"
  shows "\<exists>s'. own_step E po s s'"
proof (cases "lp_db (gl_loops s)")
  case DbTop
  from takes [OF loop_step.NoRequest [OF this]] assms(1) show ?thesis by (simp add: may_take_def)
next
  case DbWait
  have "dbus_signal po [] (shell_close E (lp_ev (gl_loops s))) [] (lp_d (gl_loops s), lp_cm (gl_loops s)) =
      (False, lp_d (gl_loops s), lp_cm (gl_loops s))" by (simp add: dbus_signal_def token_of_def)
  from takes [OF loop_step.Signal [OF DbWait this]] assms(1) show ?thesis by (simp add: may_take_def)
next
  case (DbDrain p)
  from takes [OF loop_step.NotDrained [OF this]] assms(1) show ?thesis by (simp add: may_take_def)
next
  case DbCheck
  from takes [OF loop_step.Check [OF this]] assms(1) show ?thesis by (simp add: may_take_def)
qed (use assms(2) in simp)

lemma ev_goes_on:
  assumes "gl_ev s = InTurn" "lp_ev (gl_loops s) \<noteq> EvIdle"
  shows "\<exists>s'. own_step E po s s'"
proof (cases "lp_ev (gl_loops s)")
  case (EvConnect t)
  obtain u c where "connect_begin E ProtoTypeShell (d_serverUrl (lp_d (gl_loops s))) DefaultDeviceConnectPath
      (drop_handler ProtoTypeShell (lp_cm (gl_loops s))) = (u, c)" by fastforce
  from takes [OF loop_step.Begin [OF EvConnect this]] assms(1) show ?thesis by (simp add: may_take_def)
next
  case (EvWait u t)
  obtain e c where "connect_end E ProtoTypeShell u t 0 WaitCtxDone 0 (lp_cm (gl_loops s)) = (e, c)" by fastforce
  from takes [OF loop_step.Finish [OF EvWait this]] assms(1) show ?thesis by (simp add: may_take_def)
next
  case (EvReply e)
  from takes [OF loop_step.Reply [OF this]] assms(1) show ?thesis by (simp add: may_take_def)
qed (use assms(2) in simp)

lemma post_goes_on:
  assumes "gl_db s = InTurn" "lp_db (gl_loops s) = DbPost t" "gl_ev s = InTurn" "lp_ev (gl_loops s) = EvIdle"
  shows "\<exists>s'. own_step E po s s'"
  using takes [OF loop_step.Post [OF assms(2,4)]] assms(1,3) by (simp add: may_take_def)

lemma ml_goes_on:
  assumes ml: "gl_ml s = InTurn" and pc: "\<And>w. lp_ml (gl_loops s) \<noteq> MlTop True w"
    and est: "lp_ml (gl_loops s) = MlTop False True \<Longrightarrow> lp_est (gl_loops s) \<noteq> None"
    and free: "table_free (lp_ev (gl_loops s))" and rd: "\<And>r. lp_ml (gl_loops s) \<noteq> MlRead r"
  shows "\<exists>s'. own_step E po s s'"
proof (cases "lp_ml (gl_loops s)" rule: ml_left.cases)
  case (1 w)
  with pc [of w] show ?thesis by simp
next
  case 2
  with est obtain e where "lp_est (gl_loops s) = Some e" by auto
  from takes [OF loop_step.Response [OF 2 this]] ml 2 show ?thesis by (simp add: may_take_def)
next
  case 3
  show ?thesis
  proof (cases "cm_handlers (lp_cm (gl_loops s)) ProtoTypeShell")
    case None
    from takes [OF loop_step.ReadNone [OF 3 free None]] ml 3 show ?thesis by (simp add: may_take_def)
  next
    case (Some r)
    from takes [OF loop_step.ReadStart [OF 3 free Some]] ml 3 show ?thesis by (simp add: may_take_def)
  qed
next
  case (4 r)
  with rd [of r] show ?thesis by simp
qed

text \<open>How a goroutine can be left behind: the D-Bus loop posting to an event loop that has returned,
  the event loop waiting for a D-Bus loop that has, the message loop waiting for either, or in a
  read, which includes routing what has been read.\<close>

definition left_behind :: "goroutines \<Rightarrow> bool" where
  "left_behind s \<longleftrightarrow>
     (gl_db s = Returned \<or> gl_db s = InTurn \<and> (\<exists>t. lp_db (gl_loops s) = DbPost t) \<and> gl_ev s = Returned) \<and>
     (gl_ev s = Returned \<or> gl_ev s = InTurn \<and> lp_ev (gl_loops s) = EvIdle \<and> gl_db s = Returned) \<and>
     (gl_ml s = Returned \<or> gl_ml s = InTurn \<and>
        ((\<exists>w. lp_ml (gl_loops s) = MlTop True w) \<or> lp_ml (gl_loops s) = MlTop False True \<and> lp_est (gl_loops s) = None \<or>
         (\<exists>r. lp_ml (gl_loops s) = MlRead r)))"

lemma at_rest:
  assumes "at_heads s" "\<nexists>s'. own_step E po s s'"
  shows "left_behind s"
proof -
  have check: "gl_ml s \<noteq> AtCheck" "gl_db s \<noteq> AtCheck" "gl_ev s \<noteq> AtCheck"
    using assms(2) own_checks [of s E po] by blast+
  have db: "gl_db s = Returned \<or> gl_db s = InTurn \<and> (\<exists>t. lp_db (gl_loops s) = DbPost t)"
    using db_goes_on [of s] assms(2) check(2) by (cases "gl_db s") blast+
  have ev: "gl_ev s = Returned \<or> gl_ev s = InTurn \<and> lp_ev (gl_loops s) = EvIdle"
    using ev_goes_on [of s] assms(2) check(3) by (cases "gl_ev s") blast+
  then have "lp_ev (gl_loops s) = EvIdle" using assms(1) by (auto simp: at_heads_def)
  then have "table_free (lp_ev (gl_loops s))" by (simp add: table_free_def)
  then have ml: "gl_ml s = Returned \<or> gl_ml s = InTurn \<and>
      ((\<exists>w. lp_ml (gl_loops s) = MlTop True w) \<or> lp_ml (gl_loops s) = MlTop False True \<and> lp_est (gl_loops s) = None \<or>
       (\<exists>r. lp_ml (gl_loops s) = MlRead r))"
    using ml_goes_on [of s] assms(2) check(1) by (cases "gl_ml s") blast+
  have "\<not> ((gl_db s = InTurn \<and> (\<exists>t. lp_db (gl_loops s) = DbPost t)) \<and> gl_ev s = InTurn \<and> lp_ev (gl_loops s) = EvIdle)"
    using post_goes_on [of s] assms(2) by blast
  with db ev ml show ?thesis by (auto simp: left_behind_def)
qed

section \<open>Without the flag nothing is different\<close>

lemma reach_loops: "goroutines_reach E po d s \<Longrightarrow> loop_reach E po d (gl_loops s)"
proof (induction rule: goroutines_reach.induct)
  case (Start f)
  show ?case by (simp add: goroutines_init_def loop_reach.Start)
next
  case (Step s s')
  from Step(2,3) show ?case
    by (induction rule: goroutine_step.induct) (auto simp: after_step_def Let_def intro: loop_reach.Step)
qed simp

definition all_in_turn :: "loops \<Rightarrow> run_flags \<Rightarrow> goroutines" where
  "all_in_turn l f = \<lparr>gl_loops = l, gl_flags = f, gl_ml = InTurn, gl_db = InTurn, gl_ev = InTurn\<rparr>"

lemma resume:
  assumes "goroutines_reach E po d s" "\<not> shouldStop (gl_flags s)" "Returned \<notin> {gl_ml s, gl_db s, gl_ev s}"
  shows "goroutines_reach E po d (all_in_turn (gl_loops s) (gl_flags s))"
proof -
  have c: "check_stop (gl_flags s) = InTurn" using assms(2) by (simp add: check_stop_def)
  have 1: "goroutines_reach E po d (s\<lparr>gl_ml := InTurn\<rparr>)"
  proof (cases "gl_ml s = AtCheck")
    case True
    from goroutines_reach.Step [OF assms(1) goroutine_step.CheckMl [OF True]] c show ?thesis by simp
  next
    case False
    then have "s\<lparr>gl_ml := InTurn\<rparr> = s" using assms(3) by (cases "gl_ml s") auto
    with assms(1) show ?thesis by simp
  qed
  have 2: "goroutines_reach E po d (s\<lparr>gl_ml := InTurn, gl_db := InTurn\<rparr>)"
  proof (cases "gl_db s = AtCheck")
    case True
    with goroutines_reach.Step [OF 1 goroutine_step.CheckDb] c show ?thesis by simp
  next
    case False
    then have "s\<lparr>gl_ml := InTurn, gl_db := InTurn\<rparr> = s\<lparr>gl_ml := InTurn\<rparr>" using assms(3) by (cases "gl_db s") auto
    with 1 show ?thesis by simp
  qed
  have e: "s\<lparr>gl_ml := InTurn, gl_db := InTurn, gl_ev := InTurn\<rparr> = all_in_turn (gl_loops s) (gl_flags s)"
    by (simp add: all_in_turn_def)
  show ?thesis
  proof (cases "gl_ev s = AtCheck")
    case True
    with goroutines_reach.Step [OF 2 goroutine_step.CheckEv] c e show ?thesis by simp
  next
    case False
    then have "s\<lparr>gl_ml := InTurn, gl_db := InTurn\<rparr> = all_in_turn (gl_loops s) (gl_flags s)"
      using assms(3) by (cases "gl_ev s") (auto simp: all_in_turn_def)
    with 2 show ?thesis by simp
  qed
qed

lemma loops_run:
  assumes "\<not> shouldStop f"
  shows "loop_reach E po d l \<Longrightarrow> goroutines_reach E po d (all_in_turn l f)"
proof (induction rule: loop_reach.induct)
  case Start
  from resume [OF goroutines_reach.Start [OF assms]] assms show ?case by (simp add: goroutines_init_def)
next
  case (Step l l')
  let ?s = "after_step (all_in_turn l f) l'"
  have "goroutine_step E po (all_in_turn l f) ?s"
    using Step(2) by (intro goroutine_step.Take) (simp_all add: all_in_turn_def may_take_def)
  from goroutines_reach.Step [OF Step(3) this] have r: "goroutines_reach E po d ?s" .
  have s: "gl_loops ?s = l'" "gl_flags ?s = f" "Returned \<notin> {gl_ml ?s, gl_db ?s, gl_ev ?s}"
    by (simp_all add: after_step_def all_in_turn_def Let_def next_head_def)
  from resume [OF r] s assms show ?case by simp
qed

section \<open>Properties\<close>

lemma comes_to_rest:
  "shouldStop (gl_flags s) \<Longrightarrow> \<exists>s'. (own_step E po)\<^sup>*\<^sup>* s s' \<and> (\<nexists>t. own_step E po s' t)"
proof (induction s rule: measure_induct_rule [where f = steps_left])
  case (less s)
  show ?case
  proof (cases "\<exists>t. own_step E po s t")
    case True
    then obtain t where t: "own_step E po s t" by blast
    then have "goroutine_step E po s t" by (simp add: own_step_def)
    from t step_decreases [OF this less.prems] less.IH [of t] show ?thesis
      by (meson converse_rtranclp_into_rtranclp)
  qed blast
qed

lemma heads_steps: "(goroutine_step E po)\<^sup>*\<^sup>* s s' \<Longrightarrow> at_heads s \<Longrightarrow> at_heads s'"
  by (induction rule: rtranclp_induct) (auto intro: heads_step)



text \<open>A message loop that has checked the flag just before it was set, when the other two look at it
  after, is left behind with its request.\<close>

definition left_with_request :: "daemon \<Rightarrow> goroutines" where
  "left_with_request d = \<lparr>gl_loops = loops_init d, gl_flags = \<lparr>rf_stop = True, rf_printStatus = False\<rparr>,
     gl_ml = InTurn, gl_db = Returned, gl_ev = Returned\<rparr>"

lemma message_loop_left_behind:
  shows "goroutines_reach E po d (left_with_request d)" and "\<nexists>t. goroutine_step E po (left_with_request d) t"
proof -
  let ?f = "\<lparr>rf_stop = False, rf_printStatus = False\<rparr>"
  have "goroutines_reach E po d (goroutines_init d ?f)" by (rule goroutines_reach.Start) (simp add: shouldStop_def)
  from goroutines_reach.Step [OF this goroutine_step.CheckMl] have "goroutines_reach E po d ((goroutines_init d ?f)\<lparr>gl_ml := InTurn\<rparr>)"
    by (simp add: goroutines_init_def check_stop_def shouldStop_def)
  from goroutines_reach.OnSignal [OF this, of SIGTERM]
  have "goroutines_reach E po d ((left_with_request d)\<lparr>gl_db := AtCheck, gl_ev := AtCheck\<rparr>)"
    by (simp add: goroutines_init_def left_with_request_def on_signal_def StopDaemon_def)
  from goroutines_reach.Step [OF this goroutine_step.CheckDb]
  have "goroutines_reach E po d ((left_with_request d)\<lparr>gl_ev := AtCheck\<rparr>)"
    by (simp add: left_with_request_def check_stop_def shouldStop_def)
  from goroutines_reach.Step [OF this goroutine_step.CheckEv]
  show "goroutines_reach E po d (left_with_request d)" by (simp add: left_with_request_def check_stop_def shouldStop_def)
  have "\<not> may_take (left_with_request d) l" if "loop_step E po (loops_init d) l" for l
    using that by cases (auto simp: may_take_def left_with_request_def loops_init_def)
  then show "\<nexists>t. goroutine_step E po (left_with_request d) t"
    by (auto simp: left_with_request_def elim!: goroutine_step.cases)
qed


end
