(* ===== verification/TerminalSize.thy ===== *)
theory TerminalSize
  imports DaemonShell
begin

text \<open>
  The size of a remote terminal, from the message that starts its shell through all that the client
  sends to it afterwards: \<open>routeMessageSpawnShell\<close> and \<open>routeMessageShellResize\<close> of
  \<open>app/daemon_shell.go\<close>, over \<open>ResizeShell\<close> of \<open>shell/shell.go\<close>.
\<close>

section \<open>What the size should be\<close>

text \<open>The requests that may name a size, and the size after one: the two numbers it names, if neither
  is zero as an \<open>uint16\<close>, or what it was.\<close>

definition dims_after :: "u16 \<times> u16 \<Rightarrow> ProtoMsg \<Rightarrow> u16 \<times> u16" where
  "dims_after old m =
     (let (h, w) = mapPropertiesToTerminalHeightAndWidth (Properties (Header m))
      in if MsgType (Header m) \<in> {MessageTypeSpawnShell, MessageTypeResizeShell} \<and> h > 0 \<and> w > 0 then (h, w) else old)"

text \<open>A client at its terminal: what it types, resizes and answers, each message at its time and with
  what the terminal does with its input.\<close>

type_synonym typed = "(ref \<Rightarrow> bytes \<Rightarrow> nat \<times> gerror option) \<times> int \<times> ProtoMsg"

fun serve_terminal :: "proc_os \<Rightarrow> typed list \<Rightarrow> daemon \<Rightarrow> routed list \<times> daemon" where
  "serve_terminal po [] d = ([], d)"
| "serve_terminal po ((wr, now, m) # ms) d =
     (case route_shell po wr now m d of
        None \<Rightarrow> serve_terminal po ms d
      | Some (x, d') \<Rightarrow> (case serve_terminal po ms d' of (xs, d') \<Rightarrow> (x # xs, d')))"

definition at_terminal :: "string \<Rightarrow> typed \<Rightarrow> bool" where
  "at_terminal sid = (\<lambda>(wr, now, m). SessionID (Header m) = sid \<and>
     MsgType (Header m) \<in> {MessageTypeShellCommand, MessageTypeResizeShell, MessageTypePongShell})"

section \<open>What it is\<close>

definition sized :: "string \<Rightarrow> u16 \<times> u16 \<Rightarrow> daemon \<Rightarrow> bool" where
  "sized sid hw d \<longleftrightarrow> (\<exists>r x. MenderShellSessionGetById (d_reg d) sid = Some r \<and> sr_heap (d_reg d) r = Some x \<and>
     ms_shell x \<noteq> None \<and> ms_tty_open x \<and> ms_winsize x = ResizeShell (fst hw) (snd hw))"

lemma sized_reg: "d_reg d' = d_reg d \<Longrightarrow> sized sid hw d' = sized sid hw d"
  by (simp add: sized_def)

lemma sized_modify:
  assumes "sized sid hw d" "MenderShellSessionGetById (d_reg d) sid = Some r"
    and "\<And>x. ms_shell x \<noteq> None \<Longrightarrow> ms_tty_open x \<Longrightarrow> ms_winsize x = ResizeShell (fst hw) (snd hw) \<Longrightarrow>
       ms_shell (f x) \<noteq> None \<and> ms_tty_open (f x) \<and> ms_winsize (f x) = ResizeShell (fst hw') (snd hw')"
  shows "sized sid hw' (d\<lparr>d_reg := modify r f (d_reg d)\<rparr>)"
  using assms by (auto simp: sized_def modify_def MenderShellSessionGetById_def)

lemma command_sized:
  assumes "sized (SessionID (Header m)) hw d"
  shows "\<exists>e d'. routeMessageShellCommand wr now m d = (Routed e, d') \<and> sized (SessionID (Header m)) hw d'"
proof -
  from assms obtain r x where r: "MenderShellSessionGetById (d_reg d) (SessionID (Header m)) = Some r"
    "sr_heap (d_reg d) r = Some x" "ms_shell x \<noteq> None" by (auto simp: sized_def)
  let ?reg = "modify r (\<lambda>x. x\<lparr>ms_activeAt := now\<rparr>) (d_reg d)"
  have s: "sized (SessionID (Header m)) hw (d\<lparr>d_reg := ?reg\<rparr>)" by (rule sized_modify [OF assms r(1)]) simp
  obtain e where "ShellSessions.ShellCommand now (wr r) (Body m) r (d_reg d) = Some (e, ?reg)"
    using r(2,3) by (cases "wr r (Body m)"; cases "snd (wr r (Body m))") (auto simp: ShellSessions.ShellCommand_def modify_def)
  with r(1) s show ?thesis
    by (cases e) (auto simp: routeMessageShellCommand_def Let_def sized_def)
qed

lemma resize_sized:
  assumes "sized (SessionID (Header m)) hw d" "MsgType (Header m) = MessageTypeResizeShell"
  shows "\<exists>d'. routeMessageShellResize m d = (Routed None, d') \<and> sized (SessionID (Header m)) (dims_after hw m) d'"
proof -
  from assms(1) obtain r x where r: "MenderShellSessionGetById (d_reg d) (SessionID (Header m)) = Some r"
    "sr_heap (d_reg d) r = Some x" "ms_shell x \<noteq> None" by (auto simp: sized_def)
  obtain h w where hw: "mapPropertiesToTerminalHeightAndWidth (Properties (Header m)) = (h, w)" by fastforce
  let ?reg = "modify r (\<lambda>x. if ms_tty_open x then x\<lparr>ms_winsize := ResizeShell h w\<rparr> else x) (d_reg d)"
  have "sized (SessionID (Header m)) (h, w) (d\<lparr>d_reg := ?reg\<rparr>)" by (rule sized_modify [OF assms(1) r(1)]) simp
  moreover have "SessionResizeShell h w r (d_reg d) = Some ?reg" using r(2,3) by (auto simp: SessionResizeShell_def)
  ultimately show ?thesis using assms r(1) hw by (auto simp: routeMessageShellResize_def dims_after_def)
qed

lemma pong_sized:
  assumes "sized (SessionID (Header m)) hw d"
  shows "\<exists>d'. routeMessagePongShell m d = (Routed None, d') \<and> sized (SessionID (Header m)) hw d'"
proof -
  from assms obtain r where r: "MenderShellSessionGetById (d_reg d) (SessionID (Header m)) = Some r" by (auto simp: sized_def)
  have "sized (SessionID (Header m)) hw (d\<lparr>d_reg := HealthcheckPong r (d_reg d)\<rparr>)"
    unfolding HealthcheckPong_def by (rule sized_modify [OF assms r]) simp
  with r show ?thesis by (simp add: routeMessagePongShell_def)
qed

lemma serve_sized:
  assumes "sized sid hw d" "\<forall>t \<in> set ms. at_terminal sid t" "serve_terminal po ms d = (xs, d')"
  shows "RoutePanic \<notin> set xs \<and> length xs = length ms \<and> sized sid (foldl dims_after hw (map (snd \<circ> snd) ms)) d'"
  using assms
proof (induction ms arbitrary: d hw xs d')
  case (Cons t ms)
  obtain wr now m where t: "t = (wr, now, m)" by (metis prod_cases3)
  with Cons.prems(2) have at: "SessionID (Header m) = sid"
    "MsgType (Header m) \<in> {MessageTypeShellCommand, MessageTypeResizeShell, MessageTypePongShell}" by (auto simp: at_terminal_def)
  have "\<exists>e d1. route_shell po wr now m d = Some (Routed e, d1) \<and> sized sid (dims_after hw m) d1"
    using at command_sized [of m hw d wr now] resize_sized [of m hw d] pong_sized [of m hw d] Cons.prems(1)
    by (auto simp: route_shell_def dims_after_def Let_def split: prod.splits)
  then obtain e d1 where s: "route_shell po wr now m d = Some (Routed e, d1)" "sized sid (dims_after hw m) d1" by blast
  obtain ys d2 where rest: "serve_terminal po ms d1 = (ys, d2)" by fastforce
  with Cons.prems(3) t s have "xs = Routed e # ys" "d' = d2" by auto
  with Cons.IH [OF s(2) _ rest] Cons.prems(2) t show ?case by simp
qed simp

lemma spawn_sized:
  assumes "routeMessageSpawnShell po now m d = (Routed None, d1)" "ok_reg (d_reg d)"
    "MsgType (Header m) = MessageTypeSpawnShell"
  shows "sized (SessionID (Header m)) (dims_after (tc_Height (d_Terminal d), tc_Width (d_Terminal d)) m) d1"
  using assms(1)
proof (cases rule: routeMessageSpawnShell_cases)
  case (started r d0 reg rsp)
  let ?k = "SessionID (Header m)"
  from spawn_session_id [OF started(2) assms(2)] have get: "MenderShellSessionGetById (d_reg d0) ?k = Some r" by blast
  have "ok_reg (d_reg d0)" by (rule spawn_session_ok [OF started(2) assms(2)])
  with get obtain x where x: "sr_heap (d_reg d0) r = Some x"
    by (auto simp: ok_reg_def MenderShellSessionGetById_def idx_def dest!: wf_map)
  have t: "d_Terminal d0 = d_Terminal d" using started(2) by (auto simp: spawn_session_def split: option.splits prod.splits)
  from started(4) x get have "sized ?k (terminal_size d0 m) (d0\<lparr>d_reg := reg\<rparr>)"
    by (auto simp: sized_def StartShell_def modify_def MenderShellSessionGetById_def spawn_settings_def split: if_splits sum.splits)
  moreover have "terminal_size d0 m = dims_after (tc_Height (d_Terminal d), tc_Width (d_Terminal d)) m"
    using assms(3) t by (simp add: terminal_size_def dims_after_def t split: prod.split)
  ultimately show ?thesis unfolding started(6) by (simp add: sized_def)
qed simp_all

section \<open>The property\<close>

text \<open>
  C40. The terminal has the size the client asked for last. Once a shell has been started, and
  whatever its client types, resizes and answers afterwards, every one of these messages is
  served without a panic, and the terminal has last been told the size named by the latest of
  them that names one, that which started the shell included, or the configured size.
\<close>

theorem terminal_follows_size:
  assumes "routeMessageSpawnShell po now m d = (Routed None, d1)" and "ok_reg (d_reg d)"
    and "MsgType (Header m) = MessageTypeSpawnShell"
    and "\<forall>t \<in> set ms. at_terminal (SessionID (Header m)) t" and "serve_terminal po ms d1 = (xs, d2)"
    and "foldl dims_after (tc_Height (d_Terminal d), tc_Width (d_Terminal d)) (m # map (snd \<circ> snd) ms) = (h, w)"
  shows "RoutePanic \<notin> set xs \<and> length xs = length ms \<and>
     (\<exists>r x. MenderShellSessionGetById (d_reg d2) (SessionID (Header m)) = Some r \<and> sr_heap (d_reg d2) r = Some x \<and>
        ms_tty_open x \<and> ms_winsize x = \<lparr>wz_h = h, wz_w = w, wz_x = 0, wz_y = 0\<rparr>)"
  using serve_sized [OF spawn_sized [OF assms(1-3)] assms(4,5)] assms(6)
  by (auto simp: sized_def ResizeShell_def)

section \<open>An example\<close>

definition resize_request :: "int \<Rightarrow> int \<Rightarrow> ProtoMsg" where
  "resize_request h w = mk_msg ProtoTypeShell MessageTypeResizeShell ''s1''
     (Some [''terminal_height'' \<mapsto> int64_val h, ''terminal_width'' \<mapsto> int64_val w]) []"

definition sample_session :: "typed list" where
  "sample_session = [(\<lambda>_ b. (length b, None), 6, resize_request 50 132), (\<lambda>_ b. (length b, None), 7, shell_request MessageTypeShellCommand),
     (\<lambda>_ b. (length b, None), 8, resize_request 65536 10)]"

theorem terminal_follows_size_witness:
  "\<exists>xs d2 r x. serve_terminal sample_po sample_session
       (snd (routeMessageSpawnShell sample_po 5 (shell_request MessageTypeSpawnShell) sample_daemon)) = (xs, d2) \<and>
     length xs = 3 \<and> MenderShellSessionGetById (d_reg d2) ''s1'' = Some r \<and> sr_heap (d_reg d2) r = Some x \<and>
     ms_tty_open x \<and> ms_winsize x = \<lparr>wz_h = 50, wz_w = 132, wz_x = 0, wz_y = 0\<rparr>"
proof -
  let ?m = "shell_request MessageTypeSpawnShell"
  let ?d1 = "snd (routeMessageSpawnShell sample_po 5 ?m sample_daemon)"
  obtain xs d2 where run: "serve_terminal sample_po sample_session ?d1 = (xs, d2)" by fastforce
  have m: "MsgType (Header ?m) = MessageTypeSpawnShell" "SessionID (Header ?m) = ''s1''" by (simp_all add: shell_request_def)
  have at: "\<forall>t \<in> set sample_session. at_terminal (SessionID (Header ?m)) t"
    by (simp add: sample_session_def at_terminal_def shell_request_def resize_request_def)
  have dims: "foldl dims_after (tc_Height (d_Terminal sample_daemon), tc_Width (d_Terminal sample_daemon))
      (?m # map (snd \<circ> snd) sample_session) = (50, 132)" by code_simp
  from terminal_follows_size [OF sample_spawn sample_daemon_ok m(1) at run dims] m(2) run show ?thesis
    by (auto simp: sample_session_def)
qed

end
