(* ===== verification/Spec2Isabelle.thy ===== *)
theory Spec2Isabelle
  imports System Program Shutdown TerminalSize
begin

text \<open>
  A verification library for mender-connect, the device-side daemon of Mender that offers remote
  terminal, file transfer, port forwarding and control of the update client over one websocket to
  the server.

  \<^bold>\<open>The program and how its parts interact.\<close> \<open>cli\<close> loads the configuration
  (\<open>config\<close>), creates the daemon (\<open>app/daemon.go\<close>) and runs it. \<open>Run\<close> finds out who the shells
  run as, connects to the authentication manager over D-Bus (\<open>client/mender\<close>, \<open>client/dbus\<close>) and
  starts three goroutines: \<open>messageLoop\<close> reads from the websocket that the connection manager
  (\<open>connectionmanager\<close>, \<open>connection\<close>) keeps and routes each message; \<open>dbusEventLoop\<close> follows the
  device's authorization and posts reconnections; \<open>eventLoop\<close> carries these out. Messages of the
  remote terminal go to \<open>app/daemon_shell.go\<close>, which works on the registry of shell sessions
  (\<open>session/shell.go\<close>) and the processes behind them (\<open>shell\<close>, \<open>procps\<close>). All others go to the
  router (\<open>session/router.go\<close>), which hands them to the client's session (\<open>session/session.go\<close>),
  which creates a handler per protocol: file transfer (\<open>session/filetransfer.go\<close>, under the permit
  of \<open>limits/filetransfer\<close>), port forwarding (\<open>session/portforward.go\<close>) and the update client
  (\<open>session/menderclient.go\<close>). Every answer goes through a \<open>ResponseWriter\<close> to the connection
  manager.

  \<^bold>\<open>Which theory models what.\<close> A theory has its component's state as a record, its
  operations as functions in the order of the code, and then lemmas and properties.

  \<^item> \<open>Prelude\<close>: errors with identity and wrapping, 64-bit signed arithmetic (\<open>i64\<close>), \<open>strconv\<close>,
    lists and maps, the collections \<open>go_defs\<close> and \<open>frame\<close>.
  \<^item> \<open>WsProtocol\<close>: messages and bodies of \<open>go-lib-micro/ws\<close>; the msgpack codec as a parameter;
    \<open>wire\<close>, the connection a handler writes to, with a schedule of failures; the locale
    \<open>response_writer\<close>.
  \<^item> \<open>Stores\<close>: the locales \<open>keyed_store\<close> and \<open>growing_store\<close>.
  \<^item> \<open>Utils\<close> (\<open>utils/\<close>), \<open>Config\<close> (\<open>config/config.go\<close>, \<open>config/paths.go\<close>), \<open>FileSys\<close> (what the
    system calls on regular files do, with a schedule that makes any of them fail), \<open>Limits\<close>
    (\<open>limits/filetransfer/limits.go\<close>; locale \<open>byte_counter\<close>).
  \<^item> \<open>FtCommon\<close>, \<open>FtUpload\<close>, \<open>FtDownload\<close>, \<open>FtHandler\<close>: \<open>session/filetransfer.go\<close>, its shared
    state, the two asynchronous handlers, and the synchronous half with \<open>session/model\<close>.
    \<open>Transfers\<close> puts a download and an upload end to end; \<open>TransferOutput\<close> shows that what the
    two handlers send belongs to their session.
  \<^item> \<open>ShellProc\<close> (\<open>shell/\<close>, \<open>procps/\<close>), \<open>ShellSessions\<close> (\<open>session/shell.go\<close>), \<open>DaemonShell\<close>
    (\<open>app/daemon_shell.go\<close>), \<open>TerminalSize\<close> (what becomes of a terminal's size across the three).
  \<^item> \<open>Sessions\<close> (\<open>session/session.go\<close>), \<open>Router\<close> (\<open>session/router.go\<close>), \<open>PortForward\<close>
    (\<open>session/portforward.go\<close>), \<open>MenderClient\<close> (\<open>session/menderclient.go\<close>, \<open>session/utils.go\<close>).
    A session is generic in its handlers; \<open>Device\<close> instantiates it with the three above and the
    routes of \<open>NewDaemon\<close>.
  \<^item> \<open>ConnectionManager\<close> (\<open>connectionmanager/\<close>, \<open>connection/\<close>), \<open>DBusClient\<close> (the channels of
    \<open>client/dbus\<close> and \<open>client/mender/auth.go\<close>), \<open>LibGio\<close> (the calls of \<open>client/dbus\<close> into GLib, its
    responses and errors), \<open>Daemon\<close> (\<open>app/daemon.go\<close> but its loops), \<open>DaemonLoops\<close> (the three
    goroutines and their channels), \<open>Shutdown\<close> (these goroutines with their checks of the stop
    flag), \<open>Cli\<close> (\<open>handleCLIOptions\<close>, \<open>initDaemon\<close>, the signals), \<open>Run\<close>
    (\<open>Run\<close> and its main loop, the printed status, the level of the logger, the version), \<open>Program\<close> (\<open>SetupCLI\<close>,
    \<open>readConfigFile\<close>, \<open>main.go\<close>).
  \<^item> \<open>System\<close> composes them: the step relation \<open>sys_step\<close> of the whole device, in which a step is one
    of the message loop, of the daemon's other goroutines, of a session, of a port forward's reader,
    of a health check or of the main loop.

  \<^bold>\<open>Interfaces.\<close> \<open>response_writer\<close> is the contract of \<open>WriteProtoMsg\<close>: a successful
  write appends its message to what has been delivered, a failed one nothing. It is interpreted by
  the handlers' connection, the file-transfer handler's and the connection manager's \<open>Write\<close>.
  \<open>keyed_store\<close> is a table in which entries are found and removed, interpreted by the router's
  sessions, the port forwards and the connections; its extension \<open>growing_store\<close> admits new
  entries, interpreted by the shell sessions. \<open>byte_counter\<close> is the contract of counting, with
  four interpretations (sent and received, per permit and per device). \<open>session_handlers\<close> and its
  extension \<open>session_handlers_ok\<close> say what a session relies on in its handlers: they write messages
  of their own session only, and keep an invariant of that session, given by its ID, that closing turns into
  its closed form; the interpretation is in \<open>Device\<close>.

  \<^bold>\<open>What the lemmas show.\<close> Uploads are atomic, complete when nothing fails, bounded in
  size and leave nothing behind; downloads send a prefix of the file, all of it on success, within
  the acknowledgement window; a transfer starts only when admitted, one at a time; the counters are
  exact below the top of their range. The tables of shell sessions agree, within the limit per
  user; at most 16 shells are counted; every terminal message has its answer, and a terminal the size
  its client asked for last. Sessions do not touch
  each other, keep one deferred close per handler, and are not timed out while used. Port forwards
  keep to one message in flight in version 1, write all they are given, and are all closed in the
  end. The connection manager refines a table of links, never leaves an open connection
  unregistered, and waits as documented up to the attempt at which its shift overflows. For every
  interleaving of the daemon's goroutines, a message loop that waits does not wait in vain, and the
  connection can always be had again; losing the authorization ends all terminal sessions. A daemon
  runs only with a complete configuration; over GLib's calls it starts, it runs until it is told to
  terminate, and the exit status of the process tells how it ended. The stop flag changes nothing
  until it is set, and then the goroutines have sixteen steps left at most, though one may be left
  waiting for another that has returned. A file that is downloaded and
  uploaded again is the file. On the device as a whole the invariants of the components hold
  together after every sequence of steps, and what a session sends bears its own session ID.

  \<^bold>\<open>Conventions, bounds and schedules.\<close> Whatever the code cannot decide is an argument: what
  the operating system, the network, the codec and the clock answer, and the order in which Go walks
  a map. Channels from which a loop reads are lists of events, which are all the schedules of a run;
  a loop over such a list is a recursive function with a measure. The only loop that might not end
  by itself, that of partial writes to a forwarded connection, is a \<open>partial_function\<close> (\<open>None\<close> means
  that it does not return), and it is shown to return on every network whose writes progress. There
  is no fuel. Errors are values; \<open>panic\<close>, fatal errors and \<open>log.Fatal\<close> are results of their own.
  Integers have the width of the code where it matters: words, or \<open>int\<close> through \<open>i64\<close>.

  Concurrency is a step relation where its interleaving matters: \<open>terminal_step\<close> and \<open>reg_step\<close> (a
  terminal message, a sweep, a health check per step; the operations on the registry hold its
  mutex or run on one goroutine), \<open>router_step\<close> (a message handed over and served, a tick of a
  session's timer, the end of a session), \<open>pf_step\<close> (a message, a turn of a connection's reader),
  \<open>cm_step\<close> (an operation of the connection manager), \<open>loop_step\<close> (a send or receive of one of
  the daemon's goroutines, with what it does up to the next), \<open>goroutine_step\<close> (the same with the
  checks of the stop flag) and \<open>sys_step\<close> (any of those of the device).

  \<^bold>\<open>Not modelled.\<close> Logging, but for its level; the library behind \<open>LibGio\<close>, which is the record
  \<open>glib\<close> of what its calls answer, and for the main loop the order of the calls; the command-line
  library, the JSON and msgpack codecs, gorilla's websocket and Go's HTTP client, which are
  arguments; whether the system accepts the size a terminal is told; accessors that return a field and that nothing of the program calls; generated mocks and
  tests. In \<open>Device\<close> the asynchronous half of a file transfer is the token \<open>ft_busy\<close> alone, as its
  runs are the subject of \<open>FtUpload\<close> and \<open>FtDownload\<close>; in \<open>System\<close> the reader of a port forward takes
  turns while its session is in the table, and the loops are those of \<open>DaemonLoops\<close>, to which
  \<open>Shutdown\<close> shows those with the stop flag equal until it is set. Data races on fields the code
  shares without a lock are not modelled beyond the interleaving of the steps above. The
  \<open>float64\<close> operations of the transfer averages are an argument.
\<close>

end
